(* ===== verification/Prelude.thy ===== *)
theory Prelude
  imports Complex_Main "HOL-Library.AList" "HOL-Library.Char_ord"
begin

text \<open>
  Shared ground of the development: what JavaScript numbers, arrays, strings and maps are in
  the model, and the facts about them that every component uses.

  \<^item> A JavaScript number is an exact rational (type \<open>jsnum\<close>). The code rounds money to four
    decimals after every operation (\<open>round4\<close>), and \<open>round4\<close> is kept; the binary rounding of
    IEEE doubles below that grid is not modelled. Timestamps and counters, which the code only
    ever fills with integers, are \<open>int\<close> and \<open>nat\<close>.
  \<^item> Text that comes from a microphone is a sequence of UTF-16 code units (type \<open>jstring\<close>), so
    that \<open>length\<close> counts what JavaScript's \<open>length\<close> counts. Identifiers, language codes, plan
    codes and keys are ASCII and use Isabelle's \<open>string\<close>.
  \<^item> A \<open>Map\<close> (and an object used as a dictionary) is an association list in insertion order,
    with \<open>AList.update\<close> and \<open>AList.delete\<close>: overwriting keeps the position of the key, a
    new key goes to the end.
\<close>

section \<open>Collections of proof hints\<close>

named_theorems grid_intros \<open>membership in the four-decimal grid\<close>
named_theorems mono_intros \<open>monotonicity and sign facts of the rounding functions\<close>
named_theorems queue_simps \<open>length and content of bounded queues\<close>

section \<open>Numbers\<close>

type_synonym jsnum = rat

text \<open>\<open>Math.round\<close>: the nearest integer, ties towards plus infinity.\<close>

definition js_round :: "jsnum \<Rightarrow> int" where
  "js_round x = \<lfloor>x + 1 / 2\<rfloor>"

text \<open>\<open>round4\<close>, declared in pricing.ts, ledger.ts and metering.ts with the same body.\<close>

definition round4 :: "jsnum \<Rightarrow> jsnum" where
  "round4 n = of_int (js_round (n * 10000)) / 10000"

definition on_grid :: "jsnum \<Rightarrow> bool" where
  "on_grid x \<longleftrightarrow> round4 x = x"

lemma rat_floor_numeral [simp]:
  "\<lfloor>numeral a / numeral b :: rat\<rfloor> = numeral a div numeral b"
  using floor_divide_of_int_eq [of "numeral a" "numeral b", where ?'a = rat] by simp

lemma rat_ceiling_numeral [simp]:
  "\<lceil>numeral a / numeral b :: rat\<rceil> = - (- numeral a div numeral b)"
  using ceiling_divide_eq_div [of "numeral a" "numeral b", where ?'a = rat] by simp

lemma js_round_of_int [simp]: "js_round (of_int k) = k"
  by (simp add: js_round_def floor_eq_iff)

lemma js_round_mono [mono_intros]: "x \<le> y \<Longrightarrow> js_round x \<le> js_round y"
  by (simp add: js_round_def floor_mono)

lemma js_round_error: "\<bar>of_int (js_round x) - x\<bar> \<le> 1 / 2"
proof -
  have "of_int \<lfloor>x + 1 / 2\<rfloor> \<le> x + 1 / 2" and "x + 1 / 2 < of_int \<lfloor>x + 1 / 2\<rfloor> + 1"
    by linarith+
  then show ?thesis unfolding js_round_def abs_le_iff by linarith
qed

lemma on_grid_iff: "on_grid x \<longleftrightarrow> (\<exists>k :: int. x = of_int k / 10000)"
  by (auto simp: on_grid_def round4_def) (metis)

lemma on_gridI: "x = of_int k / 10000 \<Longrightarrow> on_grid x"
  by (auto simp: on_grid_iff)

lemma on_gridE:
  assumes "on_grid x"
  obtains k :: int where "x = of_int k / 10000"
  using assms by (auto simp: on_grid_iff)

lemma round4_on_grid [simp, grid_intros]: "on_grid (round4 x)"
  by (auto simp: on_grid_iff round4_def)

lemma round4_id [simp]: "on_grid x \<Longrightarrow> round4 x = x"
  by (simp add: on_grid_def)

lemma round4_idem: "round4 (round4 x) = round4 x"
  by simp

lemma on_grid_0 [simp, grid_intros]: "on_grid 0"
  by (rule on_gridI [of _ 0]) simp

lemma on_grid_of_int [simp, grid_intros]: "on_grid (of_int k)"
  by (rule on_gridI [of _ "k * 10000"]) simp

lemma on_grid_of_nat [simp, grid_intros]: "on_grid (of_nat k)"
  using on_grid_of_int [of "int k"] by simp

lemma on_grid_numeral [simp, grid_intros]: "on_grid (numeral k)"
  using on_grid_of_int [of "numeral k"] by simp

lemma on_grid_1 [simp, grid_intros]: "on_grid 1"
  using on_grid_of_int [of 1] by simp

lemma on_grid_add [simp, grid_intros]: "on_grid x \<Longrightarrow> on_grid y \<Longrightarrow> on_grid (x + y)"
  by (elim on_gridE) (auto simp: on_grid_iff add_divide_distrib [symmetric] simp flip: of_int_add)

lemma on_grid_minus [simp, grid_intros]: "on_grid x \<Longrightarrow> on_grid (- x)"
  by (elim on_gridE) (auto simp: on_grid_iff simp flip: of_int_minus minus_divide_left)

lemma on_grid_diff [simp, grid_intros]: "on_grid x \<Longrightarrow> on_grid y \<Longrightarrow> on_grid (x - y)"
  using on_grid_add [of x "- y"] by simp

lemma on_grid_min [simp, grid_intros]: "on_grid x \<Longrightarrow> on_grid y \<Longrightarrow> on_grid (min x y)"
  by (simp add: min_def)

lemma on_grid_max [simp, grid_intros]: "on_grid x \<Longrightarrow> on_grid y \<Longrightarrow> on_grid (max x y)"
  by (simp add: max_def)

lemma on_grid_sum_list [simp, grid_intros]:
  "(\<And>x. x \<in> set xs \<Longrightarrow> on_grid x) \<Longrightarrow> on_grid (sum_list xs)"
  by (induction xs) auto

lemma round4_mono [mono_intros]: "x \<le> y \<Longrightarrow> round4 x \<le> round4 y"
  by (simp add: round4_def divide_right_mono js_round_mono mult_right_mono)

lemma round4_0 [simp]: "round4 0 = 0"
  by simp

lemma round4_nonneg [mono_intros]: "0 \<le> x \<Longrightarrow> 0 \<le> round4 x"
  using round4_mono [of 0 x] by simp

lemma round4_nonpos [mono_intros]: "x \<le> 0 \<Longrightarrow> round4 x \<le> 0"
  using round4_mono [of x 0] by simp

lemma round4_error: "\<bar>round4 x - x\<bar> \<le> 1 / 20000"
proof -
  have "\<bar>of_int (js_round (x * 10000)) - x * 10000\<bar> \<le> 1 / 2"
    by (rule js_round_error)
  then show ?thesis unfolding round4_def abs_le_iff by linarith
qed

lemma on_grid_pos: "on_grid x \<Longrightarrow> 0 < x \<Longrightarrow> 1 / 10000 \<le> x"
proof (elim on_gridE)
  fix k assume "0 < x" "x = of_int k / 10000"
  then have "1 \<le> k" by (simp add: zero_less_divide_iff)
  then show "1 / 10000 \<le> x" using \<open>x = _\<close> by (simp add: divide_right_mono)
qed

section \<open>Arrays\<close>

text \<open>\<open>xs.push(x); if (xs.length > cap) xs.shift()\<close>: one element may be dropped.\<close>

definition push_shift :: "nat \<Rightarrow> 'a list \<Rightarrow> 'a \<Rightarrow> 'a list" where
  "push_shift cap xs x =
     (let ys = xs @ [x] in if length ys > cap then tl ys else ys)"

text \<open>\<open>while (xs.length > cap) xs.shift()\<close>.\<close>

fun shift_while :: "nat \<Rightarrow> 'a list \<Rightarrow> 'a list" where
  "shift_while cap [] = []"
| "shift_while cap (x # xs) =
     (if length (x # xs) > cap then shift_while cap xs else x # xs)"

text \<open>\<open>xs.slice(-n)\<close>; \<open>slice(-0)\<close> is \<open>slice(0)\<close>, the whole array.\<close>

definition slice_last :: "nat \<Rightarrow> 'a list \<Rightarrow> 'a list" where
  "slice_last n xs = (if n = 0 then xs else drop (length xs - n) xs)"

text \<open>\<open>xs[i]\<close>: reading out of range gives \<open>undefined\<close>.\<close>

definition at_index :: "'a list \<Rightarrow> nat \<Rightarrow> 'a option" where
  "at_index xs i = (if i < length xs then Some (xs ! i) else None)"

lemma push_shift_alt:
  "length xs \<le> cap \<Longrightarrow> push_shift cap xs x = drop (Suc (length xs) - cap) (xs @ [x])"
  by (cases xs) (auto simp: push_shift_def Let_def Suc_diff_le not_less le_Suc_eq)

lemma length_push_shift [queue_simps]:
  "length xs \<le> cap \<Longrightarrow> length (push_shift cap xs x) \<le> cap"
  by (auto simp: push_shift_def Let_def)

lemma set_push_shift [queue_simps]: "set (push_shift cap xs x) \<subseteq> insert x (set xs)"
  by (cases xs) (auto simp: push_shift_def Let_def)

lemma push_shift_last: "0 < cap \<Longrightarrow> length xs \<le> cap \<Longrightarrow>
    push_shift cap xs x \<noteq> [] \<and> last (push_shift cap xs x) = x"
  by (cases xs) (auto simp: push_shift_def Let_def)

lemma shift_while_drop: "shift_while cap xs = drop (length xs - cap) xs"
  by (induction xs) (auto simp: Suc_diff_le)

lemma length_shift_while [queue_simps]: "length (shift_while cap xs) \<le> cap"
  by (simp add: shift_while_drop)

lemma set_shift_while [queue_simps]: "set (shift_while cap xs) \<subseteq> set xs"
  by (simp add: shift_while_drop set_drop_subset)

lemma shift_while_id [simp]: "length xs \<le> cap \<Longrightarrow> shift_while cap xs = xs"
  by (simp add: shift_while_drop)

lemma length_slice_last [queue_simps]: "0 < n \<Longrightarrow> length (slice_last n xs) = min n (length xs)"
  by (simp add: slice_last_def)

lemma set_slice_last [queue_simps]: "set (slice_last n xs) \<subseteq> set xs"
  by (simp add: slice_last_def set_drop_subset)

lemma slice_last_id: "length xs \<le> n \<Longrightarrow> slice_last n xs = xs"
  by (simp add: slice_last_def)

lemma distinct_map_slice_last: "distinct (map f xs) \<Longrightarrow> distinct (map f (slice_last n xs))"
  by (simp add: slice_last_def drop_map [symmetric])

lemma push_shift_end: "0 < cap \<Longrightarrow> push_shift cap xs x \<noteq> [] \<and> last (push_shift cap xs x) = x"
  by (cases xs) (auto simp: push_shift_def Let_def)

text \<open>\<open>xs.reduce((s, x) => s + f(x), a)\<close>.\<close>

lemma foldl_add: "foldl (\<lambda>s x. s + f x) a xs = a + sum_list (map f xs)"
  for a :: "'b :: comm_monoid_add"
  by (induction xs arbitrary: a) (simp_all add: add.assoc)

lemma set_map_filter: "y \<in> set (List.map_filter f xs) \<longleftrightarrow> (\<exists>x \<in> set xs. f x = Some y)"
  by (force simp: List.map_filter_def)

section \<open>Strings\<close>

type_synonym jstring = "int list"

definition js :: "string \<Rightarrow> jstring" where
  "js s = map of_char s"

text \<open>White space as \<open>\s\<close> and \<open>trim\<close> read it (ECMAScript WhiteSpace and LineTerminator).\<close>

definition is_ws :: "int \<Rightarrow> bool" where
  "is_ws c \<longleftrightarrow> (9 \<le> c \<and> c \<le> 13) \<or> c = 32 \<or> c = 160 \<or> c = 5760 \<or> (8192 \<le> c \<and> c \<le> 8202)
     \<or> c = 8232 \<or> c = 8233 \<or> c = 8239 \<or> c = 8287 \<or> c = 12288 \<or> c = 65279"

definition trim_start :: "jstring \<Rightarrow> jstring" where
  "trim_start s = dropWhile is_ws s"

definition trim :: "jstring \<Rightarrow> jstring" where
  "trim s = rev (dropWhile is_ws (rev (trim_start s)))"

text \<open>\<open>s.split(/\s+/)\<close>: a leading or trailing run of white space gives an empty first or last piece.\<close>

function split_ws :: "jstring \<Rightarrow> jstring list" where
  "split_ws s =
     (let w = takeWhile (\<lambda>c. \<not> is_ws c) s; r = dropWhile (\<lambda>c. \<not> is_ws c) s
      in if r = [] then [w] else w # split_ws (dropWhile is_ws r))"
  by pat_completeness auto
termination
proof (relation "measure length", simp_all, goal_cases)
  case (1 s)
  then obtain c r where r: "dropWhile (\<lambda>c. \<not> is_ws c) s = c # r"
    by (cases "dropWhile (\<lambda>c. \<not> is_ws c) s") (auto simp: dropWhile_eq_Nil_conv)
  have "is_ws c" using r by (simp add: dropWhile_eq_Cons_conv)
  then have "length (dropWhile is_ws (c # r)) \<le> length r"
    by (simp add: length_dropWhile_le)
  moreover have "length (c # r) \<le> length s"
    unfolding r [symmetric] by (rule length_dropWhile_le)
  ultimately show ?case by (simp add: r)
qed

declare split_ws.simps [simp del]

text \<open>The non-empty pieces: \<open>text.split(/\s+/).filter(Boolean)\<close>.\<close>

definition words :: "jstring \<Rightarrow> jstring list" where
  "words s = filter (\<lambda>w. w \<noteq> []) (split_ws s)"

fun join :: "'a list \<Rightarrow> 'a list list \<Rightarrow> 'a list" where
  "join sep [] = []"
| "join sep [w] = w"
| "join sep (w # ws) = w @ sep @ join sep ws"

abbreviation unwords :: "jstring list \<Rightarrow> jstring" where
  "unwords ws \<equiv> join [32] ws"

definition is_word :: "jstring \<Rightarrow> bool" where
  "is_word w \<longleftrightarrow> w \<noteq> [] \<and> (\<forall>c \<in> set w. \<not> is_ws c)"

lemma is_ws_space [simp]: "is_ws 32"
  by (simp add: is_ws_def)

lemma split_ws_no_ws: "w \<in> set (split_ws s) \<Longrightarrow> c \<in> set w \<Longrightarrow> \<not> is_ws c"
proof (induction s rule: split_ws.induct)
  case (1 s)
  then show ?case
    by (subst (asm) (2) split_ws.simps)
       (auto simp: Let_def split: if_splits dest: set_takeWhileD)
qed

lemma words_are_words: "w \<in> set (words s) \<Longrightarrow> is_word w"
  by (auto simp: words_def is_word_def dest: split_ws_no_ws)

lemma words_Nil [simp]: "words [] = []"
  by (simp add: words_def split_ws.simps)

lemma split_ws_word [simp]: "is_word w \<Longrightarrow> split_ws w = [w]"
proof -
  assume w: "is_word w"
  then have "takeWhile (\<lambda>c. \<not> is_ws c) w = w" and "dropWhile (\<lambda>c. \<not> is_ws c) w = []"
    by (auto simp: is_word_def takeWhile_eq_all_conv dropWhile_eq_Nil_conv)
  then show ?thesis by (subst split_ws.simps) simp
qed

lemma split_ws_word_space:
  assumes "is_word w" and "s \<noteq> []" and "\<not> is_ws (hd s)"
  shows "split_ws (w @ 32 # s) = w # split_ws s"
proof -
  have tw: "takeWhile (\<lambda>c. \<not> is_ws c) (w @ 32 # s) = w"
    and dw: "dropWhile (\<lambda>c. \<not> is_ws c) (w @ 32 # s) = 32 # s"
    using assms(1) by (auto simp: is_word_def takeWhile_append dropWhile_append)
  have "dropWhile is_ws (32 # s) = s"
    using assms(2,3) by (cases s) auto
  with tw dw show ?thesis by (subst split_ws.simps) simp
qed

lemma join_Cons: "ws \<noteq> [] \<Longrightarrow> join sep (w # ws) = w @ sep @ join sep ws"
  by (cases ws) auto

lemma join_append:
  "xs \<noteq> [] \<Longrightarrow> ys \<noteq> [] \<Longrightarrow> join sep (xs @ ys) = join sep xs @ sep @ join sep ys"
  by (induction sep xs rule: join.induct) (auto simp: join_Cons)

lemma join_eq_Nil: "\<forall>w \<in> set ws. w \<noteq> [] \<Longrightarrow> join sep ws = [] \<longleftrightarrow> ws = []"
  by (induction sep ws rule: join.induct) auto

lemma hd_join: "ws \<noteq> [] \<Longrightarrow> hd ws \<noteq> [] \<Longrightarrow> hd (join sep ws) = hd (hd ws)"
  by (induction sep ws rule: join.induct) auto

lemma length_unwords:
  "length (unwords ws) = sum_list (map length ws) + (length ws - 1)"
  by (induction "[32] :: int list" ws rule: join.induct) auto

lemma unwords_word_first:
  assumes "\<forall>w \<in> set ws. is_word w" and "ws \<noteq> []"
  shows "unwords ws \<noteq> [] \<and> \<not> is_ws (hd (unwords ws))"
  using assms by (cases ws) (auto simp: is_word_def join_eq_Nil hd_join)

lemma words_unwords: "\<forall>w \<in> set ws. is_word w \<Longrightarrow> words (unwords ws) = ws"
proof (induction ws)
  case Nil
  then show ?case by simp
next
  case (Cons w ws)
  show ?case
  proof (cases "ws = []")
    case True
    with Cons.prems show ?thesis by (auto simp: words_def is_word_def)
  next
    case False
    with Cons.prems have "split_ws (w @ 32 # unwords ws) = w # split_ws (unwords ws)"
      using unwords_word_first [of ws] by (intro split_ws_word_space) auto
    with Cons False show ?thesis by (auto simp: words_def join_Cons is_word_def)
  qed
qed

lemma set_trim: "set (trim s) \<subseteq> set s"
  by (auto simp: trim_def trim_start_def dest!: set_dropWhileD)

lemma length_trim: "length (trim s) \<le> length s"
  unfolding trim_def trim_start_def
  by (metis length_dropWhile_le length_rev order_trans)

lemma trim_word [simp]: "is_word w \<Longrightarrow> trim w = w"
proof -
  assume w: "is_word w"
  then have "dropWhile is_ws w = w" and "dropWhile is_ws (rev w) = rev w"
    by (auto simp: is_word_def dropWhile_eq_self_iff hd_rev)
  then show ?thesis by (simp add: trim_def trim_start_def)
qed

lemma split_ws_eq:
  "split_ws s =
     (if dropWhile (\<lambda>c. \<not> is_ws c) s = [] then [takeWhile (\<lambda>c. \<not> is_ws c) s]
      else takeWhile (\<lambda>c. \<not> is_ws c) s #
           split_ws (dropWhile is_ws (dropWhile (\<lambda>c. \<not> is_ws c) s)))"
  by (subst split_ws.simps) (simp add: Let_def)

lemma words_skip_ws: "words (dropWhile is_ws s) = words s"
proof (cases s)
  case (Cons c r)
  show ?thesis
  proof (cases "is_ws c")
    case True
    with Cons have "split_ws s = [] # split_ws (dropWhile is_ws s)"
      by (subst split_ws_eq) simp
    then show ?thesis by (simp add: words_def)
  qed (simp add: Cons)
qed simp

lemma split_ws_snoc:
  assumes "is_ws c"
  shows "words (s @ [c]) = words s"
proof (induction s rule: split_ws.induct)
  case (1 s)
  let ?n = "\<lambda>c. \<not> is_ws c"
  show ?case
  proof (cases "dropWhile ?n s = []")
    case True
    then have tw: "takeWhile ?n (s @ [c]) = s" "dropWhile ?n (s @ [c]) = [c]" "takeWhile ?n s = s"
      using assms by (auto simp: dropWhile_eq_Nil_conv takeWhile_append dropWhile_append takeWhile_eq_all_conv)
    have a: "split_ws (s @ [c]) = [s, []]"
      by (subst split_ws_eq) (simp add: tw assms split_ws.simps [of "[]"])
    have b: "split_ws s = [s]"
      by (subst split_ws_eq) (simp add: tw True)
    show ?thesis by (simp add: words_def a b)
  next
    case False
    then obtain d r where r: "dropWhile ?n s = d # r" "is_ws d"
      by (metis (no_types, lifting) dropWhile_eq_Cons_conv list.exhaust)
    have "d \<in> set s" using r(1) by (metis list.set_intros(1) set_dropWhileD)
    then have tw: "takeWhile ?n (s @ [c]) = takeWhile ?n s" "dropWhile ?n (s @ [c]) = d # r @ [c]"
      using r by (auto simp: takeWhile_append dropWhile_append)
    have a: "words (s @ [c]) = filter (\<lambda>w. w \<noteq> []) [takeWhile ?n s] @ words (dropWhile is_ws (d # r @ [c]))"
      unfolding words_def by (subst split_ws_eq) (simp add: tw)
    have b: "words s = filter (\<lambda>w. w \<noteq> []) [takeWhile ?n s] @ words (dropWhile is_ws (d # r))"
      unfolding words_def by (subst split_ws_eq) (simp add: r)
    have "words (dropWhile is_ws (d # r @ [c])) = words (dropWhile is_ws (d # r) @ [c])"
    proof (cases "\<exists>x \<in> set (d # r). \<not> is_ws x")
      case True
      then show ?thesis using dropWhile_append1 [of _ "d # r" is_ws "[c]"] by auto
    next
      case False
      then have "dropWhile is_ws (d # r @ [c]) = []" "dropWhile is_ws (d # r) = []"
        using assms by (auto simp: dropWhile_eq_Nil_conv)
      then show ?thesis using words_skip_ws [of "[c]"] assms by simp
    qed
    also have "\<dots> = words (dropWhile is_ws (d # r))"
      using 1 [OF refl refl] False r by simp
    finally show ?thesis using a b by simp
  qed
qed

lemma words_drop_end: "words (rev (dropWhile is_ws (rev s))) = words s"
proof (induction s rule: rev_induct)
  case (snoc c s)
  then show ?case by (cases "is_ws c") (simp_all add: split_ws_snoc)
qed simp

lemma words_trim [simp]: "words (trim s) = words s"
  by (simp add: trim_def words_drop_end trim_start_def words_skip_ws)

lemma trim_trim: "trim (trim s) = trim s"
proof (cases "trim s = []")
  case True
  have "trim [] = []" by (simp add: trim_def trim_start_def)
  then show ?thesis by (simp only: True)
next
  case False
  let ?x = "dropWhile is_ws s"
  obtain y where y: "?x = trim s @ y"
    using takeWhile_dropWhile_id [of is_ws "rev ?x"] unfolding trim_def trim_start_def by (metis rev_append rev_rev_ident)
  then have "\<not> is_ws (hd (trim s))" using False hd_dropWhile [of is_ws s] by (metis append_is_Nil_conv hd_append2)
  then have "trim_start (trim s) = trim s" using False by (cases "trim s") (simp_all add: trim_start_def)
  then show ?thesis
    by (simp add: trim_def [of "trim s"]) (simp add: trim_def)
qed

lemma trim_eq_Nil: "trim s = [] \<longleftrightarrow> (\<forall>c \<in> set s. is_ws c)"
proof
  assume "trim s = []"
  then have "\<forall>c \<in> set (trim_start s). is_ws c"
    by (simp add: trim_def dropWhile_eq_Nil_conv)
  then have "trim_start s = []"
    by (metis hd_dropWhile hd_in_set trim_start_def)
  then show "\<forall>c \<in> set s. is_ws c" by (simp add: trim_start_def dropWhile_eq_Nil_conv)
next
  assume "\<forall>c \<in> set s. is_ws c"
  then have "trim_start s = []" by (simp add: trim_start_def dropWhile_eq_Nil_conv)
  then show "trim s = []" by (simp add: trim_def)
qed

section \<open>Splitting on a separator; ASCII strings\<close>

text \<open>\<open>s.split(sep)\<close> with a separator of one character; \<open>''.split(',')\<close> is \<open>['']\<close>.\<close>

fun split_on :: "'a \<Rightarrow> 'a list \<Rightarrow> 'a list list" where
  "split_on sep [] = [[]]"
| "split_on sep (c # s) =
     (if c = sep then [] # split_on sep s
      else (case split_on sep s of [] \<Rightarrow> [[c]] | p # ps \<Rightarrow> (c # p) # ps))"

lemma split_on_not_Nil [simp]: "split_on sep s \<noteq> []"
  by (induction sep s rule: split_on.induct) (auto split: list.splits)

lemma split_on_piece [simp]: "sep \<notin> set p \<Longrightarrow> split_on sep p = [p]"
  by (induction p) auto

lemma split_on_append: "sep \<notin> set p \<Longrightarrow> split_on sep (p @ sep # s) = p # split_on sep s"
  by (induction p) auto

lemma split_on_join:
  "ps \<noteq> [] \<Longrightarrow> \<forall>p \<in> set ps. sep \<notin> set p \<Longrightarrow> split_on sep (join [sep] ps) = ps"
  by (induction "[sep]" ps rule: join.induct) (auto simp: split_on_append)

lemma split_on_no_sep: "p \<in> set (split_on sep s) \<Longrightarrow> sep \<notin> set p"
  by (induction sep s arbitrary: p rule: split_on.induct) (auto split: if_splits list.splits)

definition ascii_ws :: "char \<Rightarrow> bool" where
  "ascii_ws c = is_ws (of_char c)"

definition ascii_trim :: "string \<Rightarrow> string" where
  "ascii_trim s = rev (dropWhile ascii_ws (rev (dropWhile ascii_ws s)))"

definition ascii_lower :: "string \<Rightarrow> string" where
  "ascii_lower s = map (\<lambda>c. if CHR ''A'' \<le> c \<and> c \<le> CHR ''Z'' then char_of (of_char c + (32 :: nat)) else c) s"

text \<open>A string in a condition: \<open>undefined\<close>, \<open>null\<close> and the empty string are falsy.\<close>

fun truthy :: "'a list option \<Rightarrow> bool" where
  "truthy None = False"
| "truthy (Some s) = (s \<noteq> [])"

lemma truthy_iff: "truthy s \<longleftrightarrow> (\<exists>c. s = Some c \<and> c \<noteq> [])"
  by (cases s) auto

section \<open>Unicode tables\<close>

text \<open>
  \<open>toLowerCase\<close> and the class \<open>\p{L}\<close> are tables of the Unicode standard. The definitions
  that use them take the tables as an argument, so that what is proved holds for any tables;
  \<open>latin_tables\<close> is the instance for ASCII and the Polish letters, used to run examples.
\<close>

record unicode =
  lower :: "jstring \<Rightarrow> jstring"
  is_letter :: "int \<Rightarrow> bool"

definition is_high :: "int \<Rightarrow> bool" where
  "is_high c \<longleftrightarrow> 55296 \<le> c \<and> c < 56320"

definition is_low :: "int \<Rightarrow> bool" where
  "is_low c \<longleftrightarrow> 56320 \<le> c \<and> c < 57344"

text \<open>\<open>s.replace(/[^\p{L}]/gu, '')\<close>: the flag \<open>u\<close> reads a surrogate pair as one code point.\<close>

fun keep_letters :: "unicode \<Rightarrow> jstring \<Rightarrow> jstring" where
  "keep_letters u [] = []"
| "keep_letters u [c] = (if is_letter u c then [c] else [])"
| "keep_letters u (c # d # s) =
     (if is_high c \<and> is_low d
      then (if is_letter u ((c - 55296) * 1024 + (d - 56320) + 65536)
            then c # d # keep_letters u s else keep_letters u s)
      else (if is_letter u c then c # keep_letters u (d # s) else keep_letters u (d # s)))"

definition latin_tables :: unicode where
  "latin_tables =
     \<lparr>lower = map (\<lambda>c. if 65 \<le> c \<and> c \<le> 90 then c + 32
                       else if c \<in> {211} then c + 32
                       else if c \<in> {260, 262, 280, 321, 323, 346, 377, 379} then c + 1 else c),
      is_letter = (\<lambda>c. (65 \<le> c \<and> c \<le> 90) \<or> (97 \<le> c \<and> c \<le> 122) \<or> c \<in> {211, 243}
                       \<or> c \<in> {260, 261, 262, 263, 280, 281, 321, 322, 323, 324, 346, 347, 377, 378, 379, 380})\<rparr>"

section \<open>Decimal numbers in template strings\<close>

definition digit_char :: "nat \<Rightarrow> char" where
  "digit_char d = char_of (48 + d)"

fun show_nat :: "nat \<Rightarrow> string" where
  "show_nat n = (if n < 10 then [digit_char n] else show_nat (n div 10) @ [digit_char (n mod 10)])"

declare show_nat.simps [simp del]

definition read_digits :: "string \<Rightarrow> nat" where
  "read_digits = foldl (\<lambda>n c. 10 * n + (of_char c - 48)) 0"

lemma of_digit_char: "d < 10 \<Longrightarrow> (of_char (digit_char d) :: nat) = 48 + d"
  by (simp add: digit_char_def)

lemma digit_char_range: "d < 10 \<Longrightarrow> (48::nat) \<le> of_char (digit_char d) \<and> of_char (digit_char d) < (58::nat)"
  by (simp add: of_digit_char)

lemma read_show_nat: "read_digits (show_nat n) = n"
proof (induction n rule: show_nat.induct)
  case (1 n)
  show ?case
  proof (cases "n < 10")
    case True
    then show ?thesis by (subst show_nat.simps) (simp add: read_digits_def of_digit_char)
  next
    case False
    with 1 show ?thesis by (subst show_nat.simps) (simp add: read_digits_def of_digit_char)
  qed
qed

lemma show_nat_inject [simp]: "show_nat m = show_nat n \<longleftrightarrow> m = n"
  by (metis read_show_nat)

lemma show_nat_digits: "c \<in> set (show_nat n) \<Longrightarrow> (48::nat) \<le> of_char c \<and> of_char c < (58::nat)"
proof (induction n rule: show_nat.induct)
  case (1 n)
  show ?case
  proof (cases "n < 10")
    case True
    with 1 show ?thesis by (subst (asm) (2) show_nat.simps) (auto simp: digit_char_range)
  next
    case False
    with 1 show ?thesis by (subst (asm) (2) show_nat.simps) (auto simp: digit_char_range)
  qed
qed

lemma show_nat_no_colon: "CHR '':'' \<notin> set (show_nat n)"
  using show_nat_digits [of "CHR '':''" n] by auto

section \<open>Maps in insertion order\<close>

type_synonym ('k, 'v) jsmap = "('k \<times> 'v) list"

abbreviation map_set :: "'k \<Rightarrow> 'v \<Rightarrow> ('k, 'v) jsmap \<Rightarrow> ('k, 'v) jsmap" where
  "map_set \<equiv> AList.update"

abbreviation map_delete :: "'k \<Rightarrow> ('k, 'v) jsmap \<Rightarrow> ('k, 'v) jsmap" where
  "map_delete \<equiv> AList.delete"

abbreviation keys_distinct :: "('k, 'v) jsmap \<Rightarrow> bool" where
  "keys_distinct m \<equiv> distinct (map fst m)"

lemma map_get_set [simp]: "map_of (map_set k v m) = (map_of m)(k \<mapsto> v)"
  by (rule update_conv')

lemma map_get_delete [simp]: "map_of (map_delete k m) = (map_of m)(k := None)"
  by (rule delete_conv')

lemma keys_distinct_set [simp]: "keys_distinct m \<Longrightarrow> keys_distinct (map_set k v m)"
  by (rule distinct_update)

lemma keys_distinct_delete [simp]: "keys_distinct m \<Longrightarrow> keys_distinct (map_delete k m)"
  by (rule distinct_delete)

lemma set_map_delete: "set (map_delete k m) = {p \<in> set m. fst p \<noteq> k}"
  by (auto simp: AList.delete_eq)

lemma length_map_set:
  "length (map_set k v m) = (if k \<in> fst ` set m then length m else Suc (length m))"
  by (induction m) auto

lemma length_map_delete:
  "keys_distinct m \<Longrightarrow> length (map_delete k m) = (if k \<in> fst ` set m then length m - 1 else length m)"
proof (induction m)
  case (Cons p m)
  then show ?case
    by (cases m) (auto simp: image_iff split: if_splits)
qed simp

lemma set_map_set: "set (map_set k v m) \<subseteq> insert (k, v) (set m)"
  by (induction m) auto

lemma map_set_fresh: "k \<notin> fst ` set m \<Longrightarrow> map_set k v m = m @ [(k, v)]"
  by (induction m) auto

end
