(* ===== verification/Plans.thy ===== *)
theory Plans
  imports Prelude
begin

text \<open>
  \<open>packages/billing/src/plans.ts\<close>: burn rates, the four plans, the top-up packs, the
  thresholds of the billing clock and \<open>planOf\<close>. Prices are in minor units.
\<close>

section \<open>Burn rates\<close>

definition RATE_CAPTIONS_PER_MIN :: jsnum where
  "RATE_CAPTIONS_PER_MIN = 1"

definition RATE_TRANSLATION_PER_LANG_PER_MIN :: jsnum where
  "RATE_TRANSLATION_PER_LANG_PER_MIN = 1 / 2"

definition RATE_VOICE_PER_MIN :: jsnum where
  "RATE_VOICE_PER_MIN = 3"

section \<open>Plans\<close>

datatype plan_code = Plan_trial | Plan_starter | Plan_creator | Plan_pro

record price =
  price_pln :: int
  price_eur :: int

record plan =
  plan_code :: plan_code
  plan_name :: string
  priceMonthly :: price
  priceYearly :: "price option"
  plan_credits :: int
  maxConcurrentSessions :: int
  maxTargetLanguages :: int
  plan_voiceEnabled :: bool
  glossaryEnabled :: bool
  plan_watermark :: bool
  apiAccess :: bool
  prioritySttQueue :: bool

definition yearly :: "int \<Rightarrow> int \<Rightarrow> price" where
  "yearly monthlyPln monthlyEur = \<lparr>price_pln = monthlyPln * 10, price_eur = monthlyEur * 10\<rparr>"

definition plan_trial :: plan where
  "plan_trial =
     \<lparr>plan_code = Plan_trial, plan_name = ''Trial'',
      priceMonthly = \<lparr>price_pln = 0, price_eur = 0\<rparr>, priceYearly = None,
      plan_credits = 10, maxConcurrentSessions = 1, maxTargetLanguages = 1,
      plan_voiceEnabled = False, glossaryEnabled = False, plan_watermark = True,
      apiAccess = False, prioritySttQueue = False\<rparr>"

definition plan_starter :: plan where
  "plan_starter =
     \<lparr>plan_code = Plan_starter, plan_name = ''Starter'',
      priceMonthly = \<lparr>price_pln = 3900, price_eur = 900\<rparr>, priceYearly = Some (yearly 3900 900),
      plan_credits = 300, maxConcurrentSessions = 1, maxTargetLanguages = 1,
      plan_voiceEnabled = False, glossaryEnabled = False, plan_watermark = False,
      apiAccess = False, prioritySttQueue = False\<rparr>"

definition plan_creator :: plan where
  "plan_creator =
     \<lparr>plan_code = Plan_creator, plan_name = ''Creator'',
      priceMonthly = \<lparr>price_pln = 9900, price_eur = 2300\<rparr>, priceYearly = Some (yearly 9900 2300),
      plan_credits = 1000, maxConcurrentSessions = 2, maxTargetLanguages = 3,
      plan_voiceEnabled = True, glossaryEnabled = True, plan_watermark = False,
      apiAccess = False, prioritySttQueue = False\<rparr>"

definition plan_pro :: plan where
  "plan_pro =
     \<lparr>plan_code = Plan_pro, plan_name = ''Pro'',
      priceMonthly = \<lparr>price_pln = 24900, price_eur = 5900\<rparr>, priceYearly = Some (yearly 24900 5900),
      plan_credits = 3000, maxConcurrentSessions = 4, maxTargetLanguages = 5,
      plan_voiceEnabled = True, glossaryEnabled = True, plan_watermark = False,
      apiAccess = True, prioritySttQueue = True\<rparr>"

fun PLANS :: "plan_code \<Rightarrow> plan" where
  "PLANS Plan_trial = plan_trial"
| "PLANS Plan_starter = plan_starter"
| "PLANS Plan_creator = plan_creator"
| "PLANS Plan_pro = plan_pro"

fun plan_code_string :: "plan_code \<Rightarrow> string" where
  "plan_code_string Plan_trial = ''trial''"
| "plan_code_string Plan_starter = ''starter''"
| "plan_code_string Plan_creator = ''creator''"
| "plan_code_string Plan_pro = ''pro''"

text \<open>
  \<open>PLANS[code as PlanCode] ?? PLANS.trial\<close>: an own key of the record, else the trial plan.
  (Names that every JavaScript object inherits, such as \<open>constructor\<close>, are not plan codes and
  are outside the model.)
\<close>

definition planOf :: "string \<Rightarrow> plan" where
  "planOf c = (if c = ''trial'' then plan_trial
     else if c = ''starter'' then plan_starter
     else if c = ''creator'' then plan_creator
     else if c = ''pro'' then plan_pro
     else plan_trial)"

section \<open>Top-up packs\<close>

record topup_pack =
  pack_code :: string
  pack_credits :: int
  pack_price :: price

definition TOPUP_PACKS :: "topup_pack list" where
  "TOPUP_PACKS =
     [\<lparr>pack_code = ''topup_250'', pack_credits = 250, pack_price = \<lparr>price_pln = 3900, price_eur = 900\<rparr>\<rparr>,
      \<lparr>pack_code = ''topup_1000'', pack_credits = 1000, pack_price = \<lparr>price_pln = 12900, price_eur = 2900\<rparr>\<rparr>,
      \<lparr>pack_code = ''topup_4000'', pack_credits = 4000, pack_price = \<lparr>price_pln = 44900, price_eur = 10500\<rparr>\<rparr>]"

definition TOPUP_VALIDITY_DAYS :: int where
  "TOPUP_VALIDITY_DAYS = 365"

section \<open>Runtime thresholds\<close>

definition RESERVATION_WINDOW_SECONDS :: int where
  "RESERVATION_WINDOW_SECONDS = 60"

definition LEDGER_FLUSH_INTERVAL_MS :: int where
  "LEDGER_FLUSH_INTERVAL_MS = 10000"

definition ZERO_BALANCE_GRACE_SECONDS :: int where
  "ZERO_BALANCE_GRACE_SECONDS = 60"

definition LOW_CREDITS_WARN_RATIO :: jsnum where
  "LOW_CREDITS_WARN_RATIO = 1 / 5"

definition CRITICAL_SECONDS_LEFT :: int where
  "CRITICAL_SECONDS_LEFT = 60"

section \<open>Facts\<close>

lemmas plan_defs = plan_trial_def plan_starter_def plan_creator_def plan_pro_def yearly_def

lemma planOf_code_string [simp]: "planOf (plan_code_string c) = PLANS c"
  by (cases c) (simp_all add: planOf_def)

lemma PLANS_code [simp]: "plan_code (PLANS c) = c"
  by (cases c) (simp_all add: plan_defs)

lemma planOf_is_plan: "planOf s \<in> {plan_trial, plan_starter, plan_creator, plan_pro}"
  by (simp add: planOf_def)

lemma planOf_limits:
  "1 \<le> maxConcurrentSessions (planOf s)" "1 \<le> maxTargetLanguages (planOf s)"
  "maxTargetLanguages (planOf s) \<le> 5"
  using planOf_is_plan [of s] by (auto simp: plan_defs)

text \<open>Ten months are paid for twelve, in both currencies, on every plan that has a yearly price.\<close>

lemma yearly_is_ten_months:
  "priceYearly (PLANS c) = Some y \<Longrightarrow>
     price_pln y = 10 * price_pln (priceMonthly (PLANS c)) \<and>
     price_eur y = 10 * price_eur (priceMonthly (PLANS c))"
  by (cases c) (auto simp: plan_defs)

end
