(* ===== verification/Pricing.thy ===== *)
theory Pricing
  imports Plans
begin

text \<open>
  \<open>packages/billing/src/pricing.ts\<close>: credits per minute and per second for a session
  configuration, airtime estimates, and the plan gate that runs before a session starts.
\<close>

record burn_config =
  targetLanguages :: int
  burn_voiceEnabled :: bool

definition burnRatePerMinute :: "burn_config \<Rightarrow> jsnum" where
  "burnRatePerMinute cfg =
     (let langs = max 0 (targetLanguages cfg);
          rate = RATE_CAPTIONS_PER_MIN
               + of_int langs * RATE_TRANSLATION_PER_LANG_PER_MIN
               + (if burn_voiceEnabled cfg then RATE_VOICE_PER_MIN else 0)
      in round4 rate)"

definition burnRatePerSecond :: "burn_config \<Rightarrow> jsnum" where
  "burnRatePerSecond cfg = round4 (burnRatePerMinute cfg / 60)"

definition estimateSeconds :: "jsnum \<Rightarrow> burn_config \<Rightarrow> int" where
  "estimateSeconds credits cfg =
     (let perSecond = burnRatePerSecond cfg
      in if perSecond \<le> 0 then 0 else max 0 \<lfloor>credits / perSecond\<rfloor>)"

definition creditsForSeconds :: "jsnum \<Rightarrow> burn_config \<Rightarrow> jsnum" where
  "creditsForSeconds seconds cfg = round4 (seconds * burnRatePerSecond cfg)"

datatype check_reason = PLAN_FEATURE_LOCKED | INVALID_CONFIG

record config_check =
  check_ok :: bool
  check_reason :: "check_reason option"
  check_message :: "string option"

definition show_int :: "int \<Rightarrow> string" where
  "show_int k = (if k < 0 then CHR ''-'' # show_nat (nat (- k)) else show_nat (nat k))"

definition checkConfigAgainstPlan :: "plan \<Rightarrow> burn_config \<Rightarrow> config_check" where
  "checkConfigAgainstPlan plan cfg =
     (if burn_voiceEnabled cfg \<and> \<not> plan_voiceEnabled plan then
        \<lparr>check_ok = False, check_reason = Some PLAN_FEATURE_LOCKED,
         check_message = Some (''AI voice-over requires the Creator plan or higher (current: ''
           @ plan_name plan @ '').'')\<rparr>
      else if targetLanguages cfg > maxTargetLanguages plan then
        \<lparr>check_ok = False, check_reason = Some PLAN_FEATURE_LOCKED,
         check_message = Some (plan_name plan @ '' allows '' @ show_int (maxTargetLanguages plan)
           @ '' target language(s), requested '' @ show_int (targetLanguages cfg) @ ''.'')\<rparr>
      else \<lparr>check_ok = True, check_reason = None, check_message = None\<rparr>)"

text \<open>\<open>formatAirtime\<close> is only called on the non-negative whole seconds of \<open>estimateSeconds\<close>.\<close>

definition formatAirtime :: "nat \<Rightarrow> string" where
  "formatAirtime seconds =
     (if seconds < 60 then show_nat seconds @ '' s''
      else let h = seconds div 3600; m = (seconds mod 3600) div 60
           in if h > 0 then show_nat h @ '' h '' @ show_nat m @ '' min'' else show_nat m @ '' min'')"

section \<open>Facts\<close>

lemmas rate_defs =
  RATE_CAPTIONS_PER_MIN_def RATE_TRANSLATION_PER_LANG_PER_MIN_def RATE_VOICE_PER_MIN_def

lemma half_on_grid: "on_grid (of_int k / 2)"
  by (rule on_gridI [of _ "5000 * k"]) simp

lemma burnRatePerMinute_exact:
  "burnRatePerMinute cfg =
     1 + of_int (max 0 (targetLanguages cfg)) / 2 + (if burn_voiceEnabled cfg then 3 else 0)"
proof -
  have "on_grid (1 + of_int (max 0 (targetLanguages cfg)) / 2 + (if burn_voiceEnabled cfg then 3 else 0))"
    by (intro on_grid_add half_on_grid) auto
  then have "round4 (1 + of_int (max 0 (targetLanguages cfg)) / 2 + (if burn_voiceEnabled cfg then 3 else 0))
      = 1 + of_int (max 0 (targetLanguages cfg)) / 2 + (if burn_voiceEnabled cfg then 3 else 0)"
    by (rule round4_id)
  then show ?thesis
    by (simp only: burnRatePerMinute_def rate_defs Let_def times_divide_eq_right mult_1_right)
qed

lemma burnRatePerMinute_pos: "1 \<le> burnRatePerMinute cfg"
  by (simp add: burnRatePerMinute_exact)

lemma burnRate_on_grid [simp, grid_intros]:
  "on_grid (burnRatePerMinute cfg)" "on_grid (burnRatePerSecond cfg)"
  by (simp_all add: burnRatePerMinute_def burnRatePerSecond_def Let_def)

lemma burnRatePerSecond_ge: "167 / 10000 \<le> burnRatePerSecond cfg"
proof -
  have "1 / 60 \<le> burnRatePerMinute cfg / 60"
    using burnRatePerMinute_pos [of cfg] by simp
  then have "round4 (1 / 60) \<le> burnRatePerSecond cfg"
    unfolding burnRatePerSecond_def by (rule round4_mono)
  moreover have "round4 (1 / 60) = 167 / 10000"
    by (simp add: round4_def js_round_def)
  ultimately show ?thesis by simp
qed

lemma burnRatePerSecond_pos [simp]: "0 < burnRatePerSecond cfg"
  using burnRatePerSecond_ge [of cfg] by simp

lemma burnRatePerSecond_not_le [simp]: "\<not> burnRatePerSecond cfg \<le> 0"
  using burnRatePerSecond_pos [of cfg] by (simp only: not_le)

lemma creditsForSeconds_exact: "creditsForSeconds (of_int s) cfg = of_int s * burnRatePerSecond cfg"
proof -
  obtain k where k: "burnRatePerSecond cfg = of_int k / 10000"
    using burnRate_on_grid(2) by (rule on_gridE)
  have "on_grid (of_int s * burnRatePerSecond cfg)"
    by (rule on_gridI [of _ "s * k"]) (simp add: k)
  then show ?thesis by (simp add: creditsForSeconds_def)
qed

lemma estimateSeconds_alt: "estimateSeconds c cfg = max 0 \<lfloor>c / burnRatePerSecond cfg\<rfloor>"
  by (simp add: estimateSeconds_def Let_def)

lemma estimateSeconds_nonneg [simp]: "0 \<le> estimateSeconds c cfg"
  by (simp add: estimateSeconds_alt)

lemma estimateSeconds_affordable:
  assumes "0 \<le> c"
  shows "creditsForSeconds (of_int (estimateSeconds c cfg)) cfg \<le> c"
    and "c < creditsForSeconds (of_int (estimateSeconds c cfg + 1)) cfg"
proof -
  let ?r = "burnRatePerSecond cfg" and ?q = "\<lfloor>c / burnRatePerSecond cfg\<rfloor>"
  have q: "estimateSeconds c cfg = ?q"
    using assms by (simp add: estimateSeconds_alt less_imp_le max_def)
  have "of_int ?q \<le> c / ?r" by linarith
  then have "of_int ?q * ?r \<le> c"
    by (simp only: pos_le_divide_eq [OF burnRatePerSecond_pos])
  moreover have "c / ?r < of_int ?q + 1" by linarith
  then have "c < (of_int ?q + 1) * ?r"
    by (simp only: pos_divide_less_eq [OF burnRatePerSecond_pos])
  ultimately have "of_int ?q * ?r \<le> c" and "c < of_int (?q + 1) * ?r"
    by simp_all
  then show "creditsForSeconds (of_int (estimateSeconds c cfg)) cfg \<le> c"
    and "c < creditsForSeconds (of_int (estimateSeconds c cfg + 1)) cfg"
    unfolding q creditsForSeconds_exact by simp_all
qed

lemma checkConfigAgainstPlan_ok:
  "check_ok (checkConfigAgainstPlan plan cfg) \<longleftrightarrow>
     (burn_voiceEnabled cfg \<longrightarrow> plan_voiceEnabled plan) \<and> targetLanguages cfg \<le> maxTargetLanguages plan"
  by (auto simp: checkConfigAgainstPlan_def)

lemma checkConfigAgainstPlan_reason:
  "check_reason (checkConfigAgainstPlan plan cfg) =
     (if check_ok (checkConfigAgainstPlan plan cfg) then None else Some PLAN_FEATURE_LOCKED)"
  by (auto simp: checkConfigAgainstPlan_def)

section \<open>Properties\<close>

text \<open>
  The airtime estimate never promises too much and never too little: with a balance of
  \<open>credits\<close> the estimated number of seconds can be paid for, and one second more cannot.
\<close>

theorem airtime_estimate_tight:
  assumes "0 \<le> credits"
  shows "0 \<le> estimateSeconds credits cfg
     \<and> creditsForSeconds (of_int (estimateSeconds credits cfg)) cfg \<le> credits
     \<and> credits < creditsForSeconds (of_int (estimateSeconds credits cfg + 1)) cfg"
  using estimateSeconds_affordable [OF assms] by simp

theorem airtime_estimate_tight_witness:
  "creditsForSeconds (of_int (estimateSeconds 10 \<lparr>targetLanguages = 0, burn_voiceEnabled = False\<rparr>))
     \<lparr>targetLanguages = 0, burn_voiceEnabled = False\<rparr> \<le> 10"
  using airtime_estimate_tight [of 10 "\<lparr>targetLanguages = 0, burn_voiceEnabled = False\<rparr>"] by simp

text \<open>The rate per second is rounded to four decimals before it is multiplied: an hour of captions at
  one credit a minute costs 60.12 credits, not 60.\<close>

lemma hour_of_captions_costs_more:
  "creditsForSeconds 3600 \<lparr>targetLanguages = 0, burn_voiceEnabled = False\<rparr> = 6012 / 100"
  by code_simp

end
