(* ===== verification/Ledger.thy ===== *)
theory Ledger
  imports Plans
begin

text \<open>
  \<open>packages/billing/src/ledger.ts\<close>: the append-only ledger as a list of entries, balances
  derived from it, the plan for a spend over the three buckets, and the reservation that the
  relay draws on.
\<close>

section \<open>Data\<close>

datatype ledger_reason =
  trial_grant | subscription_grant | topup_purchase | session_usage | refund_incident
| refund_customer | expiry_subscription | expiry_topup | manual_adjustment

datatype credit_bucket = Bucket_subscription | Bucket_topup | Bucket_trial

record ledger_entry =
  entry_id :: string
  entry_userId :: string
  delta :: jsnum
  reason :: ledger_reason
  bucket :: credit_bucket
  entry_sessionId :: "string option"
  idempotencyKey :: "string option"
  expiresAt :: "int option"
  createdAt :: int

record bucket_balance =
  bal_bucket :: credit_bucket
  bal_balance :: jsnum
  bal_expiresAt :: "int option"

section \<open>Balances\<close>

definition balanceOf :: "ledger_entry list \<Rightarrow> jsnum" where
  "balanceOf entries = round4 (foldl (\<lambda>sum e. sum + delta e) 0 entries)"

text \<open>A grant (positive delta) whose expiry is at or before \<open>now\<close>.\<close>

definition grant_expired :: "int \<Rightarrow> ledger_entry \<Rightarrow> bool" where
  "grant_expired now e \<longleftrightarrow>
     delta e > 0 \<and> (case expiresAt e of None \<Rightarrow> False | Some t \<Rightarrow> t \<le> now)"

definition min_expiry :: "int option \<Rightarrow> int \<Rightarrow> int option" where
  "min_expiry cur t = (case cur of None \<Rightarrow> Some t | Some c \<Rightarrow> Some (min c t))"

definition add_to_bucket :: "bucket_balance \<Rightarrow> ledger_entry \<Rightarrow> bucket_balance" where
  "add_to_bucket cur e =
     cur\<lparr>bal_balance := round4 (bal_balance cur + delta e),
         bal_expiresAt := (case expiresAt e of
            None \<Rightarrow> bal_expiresAt cur
          | Some t \<Rightarrow> if delta e > 0 then min_expiry (bal_expiresAt cur) t else bal_expiresAt cur)\<rparr>"

definition empty_bucket :: "credit_bucket \<Rightarrow> bucket_balance" where
  "empty_bucket b = \<lparr>bal_bucket = b, bal_balance = 0, bal_expiresAt = None\<rparr>"

definition bucket_step ::
    "int \<Rightarrow> (credit_bucket, bucket_balance) jsmap \<Rightarrow> ledger_entry \<Rightarrow> (credit_bucket, bucket_balance) jsmap" where
  "bucket_step now acc e =
     (if grant_expired now e then acc
      else let cur = (case map_of acc (bucket e) of None \<Rightarrow> empty_bucket (bucket e) | Some b \<Rightarrow> b)
           in map_set (bucket e) (add_to_bucket cur e) acc)"

definition bucketBalances :: "ledger_entry list \<Rightarrow> int \<Rightarrow> bucket_balance list" where
  "bucketBalances entries now = map snd (foldl (bucket_step now) [] entries)"

section \<open>Spending\<close>

definition SPEND_ORDER :: "credit_bucket list" where
  "SPEND_ORDER = [Bucket_trial, Bucket_subscription, Bucket_topup]"

record spend_plan =
  covered :: jsnum
  shortfall :: jsnum
  perBucket :: "(credit_bucket \<times> jsnum) list"

text \<open>\<open>balances.find((b) => b.bucket === bucket)?.balance ?? 0\<close>\<close>

definition available_in :: "bucket_balance list \<Rightarrow> credit_bucket \<Rightarrow> jsnum" where
  "available_in balances b =
     (case find (\<lambda>x. bal_bucket x = b) balances of None \<Rightarrow> 0 | Some x \<Rightarrow> bal_balance x)"

text \<open>The \<open>for\<close> loop of \<open>planSpend\<close>: \<open>break\<close> when nothing remains, \<open>continue\<close> on an empty bucket.\<close>

fun spend_loop ::
    "bucket_balance list \<Rightarrow> credit_bucket list \<Rightarrow> jsnum \<Rightarrow> jsnum \<times> (credit_bucket \<times> jsnum) list" where
  "spend_loop balances [] remaining = (remaining, [])"
| "spend_loop balances (b # bs) remaining =
     (if remaining \<le> 0 then (remaining, [])
      else let available = available_in balances b
           in if available \<le> 0 then spend_loop balances bs remaining
              else let take = round4 (min available remaining);
                       (rest, parts) = spend_loop balances bs (round4 (remaining - take))
                   in (rest, (b, take) # parts))"

definition planSpend :: "bucket_balance list \<Rightarrow> jsnum \<Rightarrow> spend_plan" where
  "planSpend balances amount =
     (let (remaining, parts) = spend_loop balances SPEND_ORDER (round4 amount)
      in \<lparr>covered = round4 (amount - remaining), shortfall = remaining, perBucket = parts\<rparr>)"

definition totalAvailable :: "bucket_balance list \<Rightarrow> jsnum" where
  "totalAvailable balances = round4 (foldl (\<lambda>s b. s + max 0 (bal_balance b)) 0 balances)"

section \<open>Reservations\<close>

record reservation =
  reserved :: jsnum
  spent :: jsnum

definition reservationRemaining :: "reservation \<Rightarrow> jsnum" where
  "reservationRemaining r = round4 (reserved r - spent r)"

definition needsTopUp :: "reservation \<Rightarrow> jsnum \<Rightarrow> jsnum \<Rightarrow> bool" where
  "needsTopUp r ratePerSecond windowSeconds \<longleftrightarrow>
     reservationRemaining r < ratePerSecond * windowSeconds * (34 / 100)"

definition releaseUnused :: "reservation \<Rightarrow> jsnum" where
  "releaseUnused r = max 0 (reservationRemaining r)"

section \<open>Balances: facts\<close>

definition ledger_on_grid :: "ledger_entry list \<Rightarrow> bool" where
  "ledger_on_grid es \<longleftrightarrow> (\<forall>e \<in> set es. on_grid (delta e))"

lemma ledger_on_grid_simps [simp]:
  "ledger_on_grid []"
  "ledger_on_grid (e # es) \<longleftrightarrow> on_grid (delta e) \<and> ledger_on_grid es"
  "ledger_on_grid (es @ fs) \<longleftrightarrow> ledger_on_grid es \<and> ledger_on_grid fs"
  by (auto simp: ledger_on_grid_def)

lemma sum_deltas_on_grid: "ledger_on_grid es \<Longrightarrow> on_grid (sum_list (map delta es))"
  by (induction es) auto

lemma balanceOf_exact: "ledger_on_grid es \<Longrightarrow> balanceOf es = sum_list (map delta es)"
  by (simp add: balanceOf_def foldl_add sum_deltas_on_grid)

lemma balanceOf_append:
  "ledger_on_grid (es @ fs) \<Longrightarrow> balanceOf (es @ fs) = balanceOf es + balanceOf fs"
  by (simp add: balanceOf_exact)

text \<open>What counts towards a bucket: everything except grants that are past their expiry.\<close>

definition live_entries :: "int \<Rightarrow> credit_bucket \<Rightarrow> ledger_entry list \<Rightarrow> ledger_entry list" where
  "live_entries now b es = filter (\<lambda>e. bucket e = b \<and> \<not> grant_expired now e) es"

definition live_expiries :: "int \<Rightarrow> credit_bucket \<Rightarrow> ledger_entry list \<Rightarrow> int list" where
  "live_expiries now b es =
     map (\<lambda>e. the (expiresAt e)) (filter (\<lambda>e. delta e > 0 \<and> expiresAt e \<noteq> None) (live_entries now b es))"

definition bucket_ref :: "int \<Rightarrow> credit_bucket \<Rightarrow> ledger_entry list \<Rightarrow> bucket_balance option" where
  "bucket_ref now b es =
     (if live_entries now b es = [] then None
      else Some \<lparr>bal_bucket = b, bal_balance = sum_list (map delta (live_entries now b es)),
                 bal_expiresAt = (if live_expiries now b es = [] then None
                                  else Some (Min (set (live_expiries now b es))))\<rparr>)"

lemma live_entries_snoc:
  "live_entries now b (es @ [e]) =
     live_entries now b es @ (if bucket e = b \<and> \<not> grant_expired now e then [e] else [])"
  by (simp add: live_entries_def)

lemma live_expiries_snoc:
  "live_expiries now b (es @ [e]) =
     live_expiries now b es @
       (case expiresAt e of None \<Rightarrow> []
        | Some t \<Rightarrow> if bucket e = b \<and> \<not> grant_expired now e \<and> delta e > 0 then [t] else [])"
  by (auto simp: live_expiries_def live_entries_snoc split: option.splits)

lemma live_expiries_Nil: "live_entries now b es = [] \<Longrightarrow> live_expiries now b es = []"
  by (simp add: live_expiries_def)

lemma live_sum_on_grid: "ledger_on_grid es \<Longrightarrow> on_grid (sum_list (map delta (live_entries now b es)))"
  by (intro sum_deltas_on_grid) (auto simp: ledger_on_grid_def live_entries_def)

lemma Min_snoc: "Min (set (ts @ [t])) = (if ts = [] then t else min (Min (set ts)) t)" for t :: int
  by (simp add: min.commute)

lemma bucket_step_lookup:
  "map_of (bucket_step now acc e) b =
     (if bucket e = b \<and> \<not> grant_expired now e
      then Some (add_to_bucket (case map_of acc b of None \<Rightarrow> empty_bucket b | Some c \<Rightarrow> c) e)
      else map_of acc b)"
  by (auto simp: bucket_step_def Let_def)

lemma bucket_fold_lookup:
  "ledger_on_grid es \<Longrightarrow> map_of (foldl (bucket_step now) [] es) b = bucket_ref now b es"
proof (induction es rule: rev_induct)
  case Nil
  then show ?case by (simp add: bucket_ref_def live_entries_def)
next
  case (snoc e es)
  let ?acc = "foldl (bucket_step now) [] es"
  have IH: "map_of ?acc b = bucket_ref now b es" using snoc by simp
  show ?case
  proof (cases "bucket e = b \<and> \<not> grant_expired now e")
    case False
    then show ?thesis
      using IH by (auto simp: bucket_step_lookup bucket_ref_def live_entries_snoc live_expiries_snoc
          split: option.splits)
  next
    case True
    have grid: "on_grid (delta e + sum_list (map delta (live_entries now b es)))"
      using snoc.prems by (simp add: live_sum_on_grid)
    have "map_of (foldl (bucket_step now) [] (es @ [e])) b =
        Some (add_to_bucket (case bucket_ref now b es of None \<Rightarrow> empty_bucket b | Some c \<Rightarrow> c) e)"
      using True IH by (simp add: bucket_step_lookup)
    also have "\<dots> = bucket_ref now b (es @ [e])"
      using True snoc.prems grid
      by (auto simp: bucket_ref_def add_to_bucket_def empty_bucket_def live_entries_snoc live_expiries_snoc
          min_expiry_def Min_snoc live_expiries_Nil add.commute simp del: set_append split: option.splits)
    finally show ?thesis .
  qed
qed

lemma bucket_step_keys:
  assumes "keys_distinct acc" and "\<forall>p \<in> set acc. bal_bucket (snd p) = fst p"
  shows "keys_distinct (bucket_step now acc e) \<and> (\<forall>p \<in> set (bucket_step now acc e). bal_bucket (snd p) = fst p)"
proof -
  let ?cur = "case map_of acc (bucket e) of None \<Rightarrow> empty_bucket (bucket e) | Some b \<Rightarrow> b"
  have "bal_bucket ?cur = bucket e"
    using assms(2) by (fastforce simp: empty_bucket_def dest: map_of_SomeD split: option.splits)
  then have "bal_bucket (add_to_bucket ?cur e) = bucket e"
    by (simp add: add_to_bucket_def)
  then have "\<forall>p \<in> set (map_set (bucket e) (add_to_bucket ?cur e) acc). bal_bucket (snd p) = fst p"
    using assms(2) set_map_set [of "bucket e" "add_to_bucket ?cur e" acc] by auto
  then show ?thesis using assms by (auto simp: bucket_step_def Let_def)
qed

lemma bucket_fold_keys:
  "keys_distinct (foldl (bucket_step now) [] es) \<and>
   (\<forall>p \<in> set (foldl (bucket_step now) [] es). bal_bucket (snd p) = fst p)"
  by (induction es rule: rev_induct) (use bucket_step_keys in auto)

lemma find_values:
  "keys_distinct acc \<Longrightarrow> \<forall>p \<in> set acc. bal_bucket (snd p) = fst p \<Longrightarrow>
     find (\<lambda>x. bal_bucket x = b) (map snd acc) = map_of acc b"
  by (induction acc) auto

lemma bucketBalances_find:
  "ledger_on_grid es \<Longrightarrow> find (\<lambda>x. bal_bucket x = b) (bucketBalances es now) = bucket_ref now b es"
  using bucket_fold_keys [of now es]
  by (simp add: bucketBalances_def find_values bucket_fold_lookup)

lemma bucketBalances_distinct: "distinct (map bal_bucket (bucketBalances es now))"
proof -
  have "map bal_bucket (bucketBalances es now) = map fst (foldl (bucket_step now) [] es)"
    using bucket_fold_keys [of now es] by (auto simp: bucketBalances_def)
  then show ?thesis using bucket_fold_keys [of now es] by simp
qed

lemma available_in_bucketBalances:
  "ledger_on_grid es \<Longrightarrow>
     available_in (bucketBalances es now) b = sum_list (map delta (live_entries now b es))"
  by (simp add: available_in_def bucketBalances_find bucket_ref_def)

section \<open>Spending: facts\<close>

definition balances_on_grid :: "bucket_balance list \<Rightarrow> bool" where
  "balances_on_grid bs \<longleftrightarrow> (\<forall>b \<in> set bs. on_grid (bal_balance b))"

lemma available_in_on_grid: "balances_on_grid bs \<Longrightarrow> on_grid (available_in bs b)"
  by (auto simp: available_in_def balances_on_grid_def find_Some_iff split: option.splits)

text \<open>The reference: every bucket in turn gives what it has, up to what is still wanted.\<close>

fun drain :: "bucket_balance list \<Rightarrow> credit_bucket list \<Rightarrow> jsnum \<Rightarrow> (credit_bucket \<times> jsnum) list" where
  "drain bals [] want = []"
| "drain bals (b # bs) want =
     (let t = min (max 0 (available_in bals b)) want
      in (if t > 0 then [(b, t)] else []) @ drain bals bs (want - t))"

abbreviation amounts :: "(credit_bucket \<times> jsnum) list \<Rightarrow> jsnum" where
  "amounts parts \<equiv> sum_list (map snd parts)"

lemma drain_none [simp]: "drain bals bs 0 = []"
  by (induction bs) (simp_all add: Let_def)

lemma drain_on_grid:
  "balances_on_grid bals \<Longrightarrow> on_grid want \<Longrightarrow> on_grid (amounts (drain bals bs want))"
  by (induction bs arbitrary: want) (auto simp: Let_def available_in_on_grid)

lemma spend_loop_drain:
  assumes "balances_on_grid bals" and "on_grid want" and "0 \<le> want"
  shows "spend_loop bals bs want = (want - amounts (drain bals bs want), drain bals bs want)"
  using assms(2,3)
proof (induction bs arbitrary: want)
  case Nil
  then show ?case by simp
next
  case (Cons b bs)
  have grid: "on_grid (available_in bals b)"
    using assms(1) by (rule available_in_on_grid)
  show ?case
  proof (cases "want \<le> 0 \<or> available_in bals b \<le> 0")
    case True
    with Cons show ?thesis by (auto simp: Let_def)
  next
    case False
    let ?t = "min (available_in bals b) want"
    have "on_grid ?t" and "on_grid (want - ?t)" using grid Cons.prems by simp_all
    moreover have "spend_loop bals bs (want - ?t) =
        (want - ?t - amounts (drain bals bs (want - ?t)), drain bals bs (want - ?t))"
      using Cons grid by (intro Cons.IH) auto
    ultimately show ?thesis using False by (simp add: Let_def)
  qed
qed

lemma drain_amounts_le: "0 \<le> want \<Longrightarrow> amounts (drain bals bs want) \<le> want"
proof (induction bs arbitrary: want)
  case (Cons b bs)
  let ?t = "min (max 0 (available_in bals b)) want"
  have "amounts (drain bals bs (want - ?t)) \<le> want - ?t"
    using Cons by (intro Cons.IH) auto
  moreover have "\<not> 0 < ?t \<Longrightarrow> ?t = 0" using Cons.prems by auto
  ultimately show ?case by (auto simp: Let_def)
qed simp

lemma drain_parts:
  "(b, a) \<in> set (drain bals bs want) \<Longrightarrow> b \<in> set bs \<and> 0 < a \<and> a \<le> available_in bals b"
  by (induction bs arbitrary: want) (auto simp: Let_def split: if_splits)

lemma drain_buckets_distinct: "distinct bs \<Longrightarrow> distinct (map fst (drain bals bs want))"
  by (induction bs arbitrary: want) (auto simp: Let_def dest: drain_parts)

text \<open>Together the buckets give what is wanted, or everything they have.\<close>

lemma drain_total:
  "0 \<le> want \<Longrightarrow> distinct bs \<Longrightarrow>
     amounts (drain bals bs want) = min want (\<Sum>b\<leftarrow>bs. max 0 (available_in bals b))"
proof (induction bs arbitrary: want)
  case (Cons b bs)
  let ?t = "min (max 0 (available_in bals b)) want"
  have nn: "0 \<le> (\<Sum>b\<leftarrow>bs. max 0 (available_in bals b))"
    by (rule sum_list_nonneg) auto
  have "amounts (drain bals bs (want - ?t)) = min (want - ?t) (\<Sum>b\<leftarrow>bs. max 0 (available_in bals b))"
    using Cons by (intro Cons.IH) auto
  then show ?case using nn Cons.prems by (auto simp: Let_def min_def max_def)
qed simp

lemma planSpend_drain:
  assumes "balances_on_grid bals" and "on_grid amount" and "0 \<le> amount"
  shows "planSpend bals amount =
    \<lparr>covered = amounts (drain bals SPEND_ORDER amount),
     shortfall = amount - amounts (drain bals SPEND_ORDER amount),
     perBucket = drain bals SPEND_ORDER amount\<rparr>"
  using assms by (simp add: planSpend_def spend_loop_drain drain_on_grid)

lemma totalAvailable_exact:
  "balances_on_grid bals \<Longrightarrow> totalAvailable bals = (\<Sum>b\<leftarrow>bals. max 0 (bal_balance b))"
  by (auto simp: totalAvailable_def foldl_add balances_on_grid_def intro!: round4_id on_grid_sum_list)

lemma available_in_Cons:
  "available_in (x # bals) b = (if bal_bucket x = b then bal_balance x else available_in bals b)"
  by (simp add: available_in_def)

lemma available_in_absent: "b \<notin> bal_bucket ` set bals \<Longrightarrow> available_in bals b = 0"
  by (induction bals) (auto simp: available_in_Cons available_in_def [of "[]"])

lemma available_in_bucket_sum:
  "distinct (map bal_bucket bals) \<Longrightarrow>
     (\<Sum>b\<leftarrow>SPEND_ORDER. max 0 (available_in bals b)) = (\<Sum>b\<leftarrow>bals. max 0 (bal_balance b))"
proof (induction bals)
  case Nil
  then show ?case by (simp add: SPEND_ORDER_def available_in_def)
next
  case (Cons x bals)
  have "available_in bals (bal_bucket x) = 0"
    using Cons.prems by (intro available_in_absent) auto
  with Cons show ?case
    by (cases "bal_bucket x") (simp_all add: SPEND_ORDER_def available_in_Cons)
qed

section \<open>Reservations: facts\<close>

lemma reservationRemaining_exact:
  "on_grid (reserved r) \<Longrightarrow> on_grid (spent r) \<Longrightarrow> reservationRemaining r = reserved r - spent r"
  by (simp add: reservationRemaining_def)

lemma releaseUnused_nonneg [simp]: "0 \<le> releaseUnused r"
  by (simp add: releaseUnused_def)

lemma reservation_on_grid [simp, grid_intros]:
  "on_grid (reservationRemaining r)" "on_grid (releaseUnused r)"
  by (simp_all add: reservationRemaining_def releaseUnused_def)

text \<open>The whole contract of a spend.\<close>

lemma planSpend_facts:
  assumes "balances_on_grid bals" and "on_grid amount" and "0 \<le> amount" and "distinct (map bal_bucket bals)"
  shows "perBucket (planSpend bals amount) = drain bals SPEND_ORDER amount"
    and "covered (planSpend bals amount) = amounts (drain bals SPEND_ORDER amount)"
    and "covered (planSpend bals amount) = min amount (totalAvailable bals)"
    and "covered (planSpend bals amount) + shortfall (planSpend bals amount) = amount"
    and "\<forall>(b, a) \<in> set (perBucket (planSpend bals amount)). 0 < a \<and> a \<le> available_in bals b"
proof -
  let ?d = "drain bals SPEND_ORDER amount"
  have dist: "distinct SPEND_ORDER" by (simp add: SPEND_ORDER_def)
  have sum: "amounts ?d = min amount (totalAvailable bals)"
    unfolding drain_total [OF assms(3) dist] available_in_bucket_sum [OF assms(4)]
      totalAvailable_exact [OF assms(1)] ..
  have parts: "\<forall>(b, a) \<in> set ?d. 0 < a \<and> a \<le> available_in bals b"
    using drain_parts by fast
  show "perBucket (planSpend bals amount) = ?d" "covered (planSpend bals amount) = amounts ?d"
    "covered (planSpend bals amount) = min amount (totalAvailable bals)"
    "covered (planSpend bals amount) + shortfall (planSpend bals amount) = amount"
    "\<forall>(b, a) \<in> set (perBucket (planSpend bals amount)). 0 < a \<and> a \<le> available_in bals b"
    unfolding planSpend_drain [OF assms(1-3)] spend_plan.simps using sum parts by simp_all
qed

section \<open>Properties\<close>

text \<open>
  C14: What a spend takes. For balances and an amount with at most four decimals, \<open>planSpend\<close>
  takes from trial, then subscription, then top-up, each only what it has and never from an
  empty or negative bucket, and together all that is asked for or all there is:
  covered plus shortfall is the amount and covered is the smaller of the amount and the total
  available.
\<close>

theorem planSpend_contract:
  assumes "balances_on_grid bals" and "on_grid amount" and "0 \<le> amount" and "distinct (map bal_bucket bals)"
  shows "perBucket (planSpend bals amount) = drain bals [Bucket_trial, Bucket_subscription, Bucket_topup] amount
     \<and> covered (planSpend bals amount) = amounts (perBucket (planSpend bals amount))
     \<and> covered (planSpend bals amount) = min amount (totalAvailable bals)
     \<and> covered (planSpend bals amount) + shortfall (planSpend bals amount) = amount
     \<and> (\<forall>(b, a) \<in> set (perBucket (planSpend bals amount)). 0 < a \<and> a \<le> available_in bals b)"
proof -
  note f = planSpend_facts [OF assms]
  have "covered (planSpend bals amount) = amounts (perBucket (planSpend bals amount))"
    by (simp only: f(1,2))
  then show ?thesis
    using f(1) [unfolded SPEND_ORDER_def] f(3-5) by (intro conjI)
qed

definition demo_balances :: "bucket_balance list" where
  "demo_balances = [\<lparr>bal_bucket = Bucket_topup, bal_balance = 40, bal_expiresAt = None\<rparr>,
                    \<lparr>bal_bucket = Bucket_subscription, bal_balance = -3, bal_expiresAt = None\<rparr>]"

theorem planSpend_contract_witness: "covered (planSpend demo_balances 50) = 40"
proof -
  have g: "balances_on_grid demo_balances" "distinct (map bal_bucket demo_balances)"
    by (simp_all add: balances_on_grid_def demo_balances_def)
  have "totalAvailable demo_balances = 40"
    by (simp add: totalAvailable_def demo_balances_def)
  moreover have "covered (planSpend demo_balances 50) = min 50 (totalAvailable demo_balances)"
    using planSpend_contract [OF g(1) on_grid_numeral zero_le_numeral g(2)] by blast
  ultimately show ?thesis by simp
qed

text \<open>
  A bucket's balance is the sum of its entries less the grants that are past their expiry,
  its expiry the earliest expiry of its live grants, and no bucket is listed twice.
\<close>

theorem bucketBalances_reference:
  assumes "ledger_on_grid entries"
  shows "find (\<lambda>x. bal_bucket x = b) (bucketBalances entries now) = bucket_ref now b entries
     \<and> distinct (map bal_bucket (bucketBalances entries now))"
  using bucketBalances_find [OF assms] bucketBalances_distinct by blast

definition demo_entry :: "jsnum \<Rightarrow> int option \<Rightarrow> ledger_entry" where
  "demo_entry d t = \<lparr>entry_id = ''e'', entry_userId = ''u'', delta = d,
     reason = (if d > 0 then subscription_grant else session_usage), bucket = Bucket_subscription,
     entry_sessionId = None, idempotencyKey = None, expiresAt = t, createdAt = 0\<rparr>"

theorem bucketBalances_reference_witness:
  "find (\<lambda>x. bal_bucket x = Bucket_subscription) (bucketBalances [demo_entry 300 (Some 100)] 50) =
     Some \<lparr>bal_bucket = Bucket_subscription, bal_balance = 300, bal_expiresAt = Some 100\<rparr>"
  using bucketBalances_reference [of "[demo_entry 300 (Some 100)]" Bucket_subscription 50]
  by (simp add: bucket_ref_def live_entries_def live_expiries_def demo_entry_def grant_expired_def)

text \<open>
  What expiry forgets. When a grant passes its expiry it leaves the balance, but what was
  spent from it stays: a bucket that held a grant \<open>g\<close>, of which \<open>s\<close> was spent, and then receives
  a fresh grant \<open>f\<close> has, once the first has expired, \<open>f - s\<close> left and not \<open>f\<close>. The spent
  credits of an old period are charged against the new one.
\<close>

theorem expired_spending_charged_again:
  assumes "0 < g" and "0 < s" and "0 < f" and "on_grid g" and "on_grid s" and "on_grid f"
    and "t1 \<le> now" and "now < t2"
  shows "available_in (bucketBalances [demo_entry g (Some t1), demo_entry (- s) None, demo_entry f (Some t2)] now)
     Bucket_subscription = f - s"
  using assms available_in_bucketBalances [of "[demo_entry g (Some t1), demo_entry (- s) None, demo_entry f (Some t2)]"]
  by (simp add: live_entries_def demo_entry_def grant_expired_def)

theorem expired_spending_charged_again_witness:
  "available_in (bucketBalances [demo_entry 300 (Some 30), demo_entry (- 100) None, demo_entry 300 (Some 60)] 31)
     Bucket_subscription = 200"
  using expired_spending_charged_again [of 300 100 300 30 31 60] by simp

end
