(* ===== verification/Paddle.thy ===== *)
theory Paddle
  imports Ledger
begin

text \<open>
  \<open>packages/billing/src/paddle.ts\<close>: which ledger intents and which plan change a Paddle event
  produces. Everything that writes to the database is in \<open>Billing_Store\<close>.
\<close>

section \<open>Data\<close>

definition DAY_MS :: int where
  "DAY_MS = 86400000"

datatype catalog_kind = Kind_subscription | Kind_topup

record catalog_entry =
  cat_priceId :: string
  cat_kind :: catalog_kind
  cat_planCode :: "string option"
  cat_credits :: jsnum

record event_item =
  item_priceId :: string
  item_quantity :: int

record paddle_event =
  eventId :: string
  eventType :: string
  event_userId :: string
  event_items :: "event_item list"
  event_subscriptionId :: "string option"
  event_status :: "string option"
  event_currentPeriodEnd :: "int option"
  refundCredits :: "jsnum option"

record ledger_intent =
  intent_delta :: jsnum
  intent_reason :: ledger_reason
  intent_bucket :: credit_bucket
  intent_key :: string
  intent_expiresAt :: "int option"

datatype sub_status = Sub_active | Sub_past_due | Sub_canceled

record plan_change =
  change_planCode :: string
  change_status :: sub_status
  change_subscriptionId :: "string option"
  change_currentPeriodEnd :: "int option"

record paddle_outcome =
  out_ledger :: "ledger_intent list"
  out_planChange :: "plan_change option"
  out_note :: "string option"

section \<open>Operations\<close>

definition findCatalogEntry :: "catalog_entry list \<Rightarrow> string \<Rightarrow> catalog_entry option" where
  "findCatalogEntry catalog priceId = find (\<lambda>e. cat_priceId e = priceId) catalog"

definition item_key :: "string \<Rightarrow> nat \<Rightarrow> string" where
  "item_key ev i = ev @ '':'' @ show_nat i"

text \<open>One pass of the loop of \<open>completedTransaction\<close>; \<open>continue\<close> leaves the state as it is.\<close>

definition completed_step ::
    "paddle_event \<Rightarrow> catalog_entry list \<Rightarrow> int \<Rightarrow> nat \<Rightarrow> event_item \<Rightarrow>
     ledger_intent list \<times> plan_change option \<Rightarrow> ledger_intent list \<times> plan_change option" where
  "completed_step event catalog now index item st =
     (case st of (ledger, planChange) \<Rightarrow>
        (case findCatalogEntry catalog (item_priceId item) of
           None \<Rightarrow> (ledger, planChange)
         | Some entry \<Rightarrow>
             let credits = cat_credits entry * of_int (max 1 (item_quantity item))
             in (case cat_kind entry of
                   Kind_topup \<Rightarrow>
                     (ledger @ [\<lparr>intent_delta = credits, intent_reason = topup_purchase,
                                 intent_bucket = Bucket_topup, intent_key = item_key (eventId event) index,
                                 intent_expiresAt = Some (now + TOPUP_VALIDITY_DAYS * DAY_MS)\<rparr>],
                      planChange)
                 | Kind_subscription \<Rightarrow>
                     (ledger @ [\<lparr>intent_delta = credits, intent_reason = subscription_grant,
                                 intent_bucket = Bucket_subscription, intent_key = item_key (eventId event) index,
                                 intent_expiresAt = event_currentPeriodEnd event\<rparr>],
                      (if truthy (cat_planCode entry)
                       then Some \<lparr>change_planCode = the (cat_planCode entry), change_status = Sub_active,
                                 change_subscriptionId = event_subscriptionId event,
                                 change_currentPeriodEnd = event_currentPeriodEnd event\<rparr>
                       else planChange)))))"

fun completed_loop ::
    "paddle_event \<Rightarrow> catalog_entry list \<Rightarrow> int \<Rightarrow> nat \<Rightarrow> event_item list \<Rightarrow>
     ledger_intent list \<times> plan_change option \<Rightarrow> ledger_intent list \<times> plan_change option" where
  "completed_loop event catalog now index [] st = st"
| "completed_loop event catalog now index (item # items) st =
     completed_loop event catalog now (Suc index) items
       (completed_step event catalog now index item st)"

definition completedTransaction :: "paddle_event \<Rightarrow> catalog_entry list \<Rightarrow> int \<Rightarrow> paddle_outcome" where
  "completedTransaction event catalog now =
     (case completed_loop event catalog now 0 (event_items event) ([], None) of
        (ledger, planChange) \<Rightarrow>
          \<lparr>out_ledger = ledger, out_planChange = planChange, out_note = None\<rparr>)"

fun resolve_loop :: "event_item list \<Rightarrow> catalog_entry list \<Rightarrow> string option" where
  "resolve_loop [] catalog = None"
| "resolve_loop (item # items) catalog =
     (case findCatalogEntry catalog (item_priceId item) of
        None \<Rightarrow> resolve_loop items catalog
      | Some entry \<Rightarrow>
          if cat_kind entry = Kind_subscription \<and> truthy (cat_planCode entry)
          then cat_planCode entry else resolve_loop items catalog)"

definition resolvePlanCode :: "paddle_event \<Rightarrow> catalog_entry list \<Rightarrow> string option" where
  "resolvePlanCode event catalog = resolve_loop (event_items event) catalog"

definition subscriptionChange :: "paddle_event \<Rightarrow> catalog_entry list \<Rightarrow> paddle_outcome" where
  "subscriptionChange event catalog =
     (case resolvePlanCode event catalog of
        None \<Rightarrow> \<lparr>out_ledger = [], out_planChange = None,
                 out_note = Some ''subscription item not in catalog''\<rparr>
      | Some planCode \<Rightarrow>
          \<lparr>out_ledger = [],
           out_planChange = Some
             \<lparr>change_planCode = planCode,
              change_status = (if event_status event = Some ''past_due'' then Sub_past_due else Sub_active),
              change_subscriptionId = event_subscriptionId event,
              change_currentPeriodEnd = event_currentPeriodEnd event\<rparr>,
           out_note = None\<rparr>)"

definition refund_outcome :: "paddle_event \<Rightarrow> paddle_outcome" where
  "refund_outcome event =
     (let credits = (case refundCredits event of None \<Rightarrow> 0 | Some c \<Rightarrow> c)
      in if credits \<le> 0
         then \<lparr>out_ledger = [], out_planChange = None, out_note = Some ''adjustment without credits''\<rparr>
         else \<lparr>out_ledger = [\<lparr>intent_delta = - credits, intent_reason = refund_customer,
                              intent_bucket = Bucket_topup, intent_key = eventId event @ '':refund'',
                              intent_expiresAt = None\<rparr>],
               out_planChange = None, out_note = None\<rparr>)"

definition intentsForEvent :: "paddle_event \<Rightarrow> catalog_entry list \<Rightarrow> int \<Rightarrow> paddle_outcome" where
  "intentsForEvent event catalog now =
     (if eventType event = ''transaction.completed'' then completedTransaction event catalog now
      else if eventType event = ''subscription.activated'' \<or> eventType event = ''subscription.updated''
        then subscriptionChange event catalog
      else if eventType event = ''subscription.canceled'' then
        \<lparr>out_ledger = [],
         out_planChange = Some
           \<lparr>change_planCode = ''trial'', change_status = Sub_canceled,
            change_subscriptionId = event_subscriptionId event,
            change_currentPeriodEnd = event_currentPeriodEnd event\<rparr>,
         out_note = Some ''subscription canceled; top-up credits retained''\<rparr>
      else if eventType event = ''transaction.payment_failed'' then
        \<lparr>out_ledger = [],
         out_planChange = Some
           \<lparr>change_planCode = (case resolvePlanCode event catalog of None \<Rightarrow> ''trial'' | Some c \<Rightarrow> c),
            change_status = Sub_past_due,
            change_subscriptionId = event_subscriptionId event,
            change_currentPeriodEnd = event_currentPeriodEnd event\<rparr>,
         out_note = Some ''payment failed; grace period starts''\<rparr>
      else if eventType event = ''adjustment.created'' then refund_outcome event
      else \<lparr>out_ledger = [], out_planChange = None,
            out_note = Some (''unhandled event type: '' @ eventType event)\<rparr>)"

section \<open>Idempotency keys\<close>

lemma item_key_rev: "takeWhile (\<lambda>c. c \<noteq> CHR '':'') (rev (item_key ev i)) = rev (show_nat i)"
  using show_nat_no_colon [of i]
  by (auto simp: item_key_def takeWhile_append takeWhile_eq_all_conv)

lemma item_key_inject [simp]: "item_key e i = item_key f j \<longleftrightarrow> e = f \<and> i = j"
proof
  assume eq: "item_key e i = item_key f j"
  then have "rev (show_nat i) = rev (show_nat j)"
    by (metis item_key_rev)
  then have "i = j" by simp
  with eq show "e = f \<and> i = j" by (simp add: item_key_def)
qed simp

lemma item_key_not_refund: "item_key e i \<noteq> f @ '':refund''"
proof
  assume "item_key e i = f @ '':refund''"
  then have "rev (show_nat i) = takeWhile (\<lambda>c. c \<noteq> CHR '':'') (rev (f @ '':refund''))"
    by (metis item_key_rev)
  then have "rev (show_nat i) = ''dnufer''" by simp
  then have "CHR ''d'' \<in> set (show_nat i)" by (metis list.set_intros(1) set_rev)
  then show False using show_nat_digits [of "CHR ''d''" i] by simp
qed

section \<open>Completed transactions\<close>

text \<open>What one line item is worth, as a specification of the loop.\<close>

definition item_intent ::
    "paddle_event \<Rightarrow> catalog_entry list \<Rightarrow> int \<Rightarrow> nat \<times> event_item \<Rightarrow> ledger_intent option" where
  "item_intent event catalog now p =
     (case findCatalogEntry catalog (item_priceId (snd p)) of
        None \<Rightarrow> None
      | Some entry \<Rightarrow> Some
          \<lparr>intent_delta = cat_credits entry * of_int (max 1 (item_quantity (snd p))),
           intent_reason = (case cat_kind entry of Kind_topup \<Rightarrow> topup_purchase | Kind_subscription \<Rightarrow> subscription_grant),
           intent_bucket = (case cat_kind entry of Kind_topup \<Rightarrow> Bucket_topup | Kind_subscription \<Rightarrow> Bucket_subscription),
           intent_key = item_key (eventId event) (fst p),
           intent_expiresAt = (case cat_kind entry of Kind_topup \<Rightarrow> Some (now + TOPUP_VALIDITY_DAYS * DAY_MS)
                                | Kind_subscription \<Rightarrow> event_currentPeriodEnd event)\<rparr>)"

lemma completed_step_ledger:
  "fst (completed_step event catalog now i item st) =
     fst st @ (case item_intent event catalog now (i, item) of None \<Rightarrow> [] | Some x \<Rightarrow> [x])"
  by (cases st)
     (auto simp: completed_step_def item_intent_def Let_def split: option.splits catalog_kind.splits)

lemma completed_loop_ledger:
  "fst (completed_loop event catalog now i items st) =
     fst st @ List.map_filter (item_intent event catalog now) (enumerate i items)"
  by (induction items arbitrary: i st)
     (auto simp: completed_step_ledger map_filter_simps split: option.splits)

lemma completedTransaction_ledger:
  "out_ledger (completedTransaction event catalog now) =
     List.map_filter (item_intent event catalog now) (enumerate 0 (event_items event))"
  using completed_loop_ledger [of event catalog now 0 "event_items event" "([], None)"]
  by (cases "completed_loop event catalog now 0 (event_items event) ([], None)")
     (simp add: completedTransaction_def)

lemma item_intent_key: "item_intent event catalog now p = Some x \<Longrightarrow> intent_key x = item_key (eventId event) (fst p)"
  by (auto simp: item_intent_def split: option.splits)

lemma map_filter_keys:
  "map intent_key (List.map_filter (item_intent event catalog now) ps) =
     map (item_key (eventId event)) (map fst (filter (\<lambda>p. item_intent event catalog now p \<noteq> None) ps))"
proof (induction ps)
  case (Cons p ps)
  then show ?case
    by (cases "item_intent event catalog now p") (simp_all add: map_filter_simps item_intent_key)
qed (simp add: map_filter_simps)

lemma map_filter_keys_distinct:
  assumes "distinct (map fst ps)"
  shows "distinct (map intent_key (List.map_filter (item_intent event catalog now) ps))"
  unfolding map_filter_keys using assms
  by (subst distinct_map) (auto intro: inj_onI simp: distinct_map_filter)

lemma completed_keys_distinct:
  "distinct (map intent_key (out_ledger (completedTransaction event catalog now)))"
  unfolding completedTransaction_ledger
  by (rule map_filter_keys_distinct) simp

lemma intents_keys_distinct: "distinct (map intent_key (out_ledger (intentsForEvent event catalog now)))"
  by (auto simp: intentsForEvent_def completed_keys_distinct subscriptionChange_def refund_outcome_def
      Let_def split: option.splits)

lemma completed_keys_of_event:
  "x \<in> set (out_ledger (completedTransaction event catalog now)) \<Longrightarrow>
     \<exists>i. intent_key x = item_key (eventId event) i"
  by (auto simp: completedTransaction_ledger set_map_filter dest!: item_intent_key)

lemma intents_keys_of_event:
  "x \<in> set (out_ledger (intentsForEvent event catalog now)) \<Longrightarrow>
     (\<exists>i. intent_key x = item_key (eventId event) i) \<or> intent_key x = eventId event @ '':refund''"
  by (auto simp: intentsForEvent_def subscriptionChange_def refund_outcome_def Let_def
      dest: completed_keys_of_event split: option.splits if_splits)

text \<open>Two different events never share a key.\<close>

lemma intents_keys_disjoint:
  assumes "eventId e \<noteq> eventId f"
    and "x \<in> set (out_ledger (intentsForEvent e catalog now))"
    and "y \<in> set (out_ledger (intentsForEvent f catalog' now'))"
  shows "intent_key x \<noteq> intent_key y"
  using assms intents_keys_of_event [OF assms(2)] intents_keys_of_event [OF assms(3)]
  by (auto simp: item_key_not_refund item_key_not_refund [symmetric])

section \<open>Properties\<close>

text \<open>
  Idempotency keys identify what was bought: the intents of one event carry distinct keys,
  and the intents of two different events never share one, whatever the catalog and the time of
  processing.
\<close>

theorem intent_keys_unique:
  "distinct (map intent_key (out_ledger (intentsForEvent e catalog now)))
   \<and> (eventId e = eventId f \<or>
      set (map intent_key (out_ledger (intentsForEvent e catalog now))) \<inter>
      set (map intent_key (out_ledger (intentsForEvent f catalog' now'))) = {})"
  using intents_keys_distinct intents_keys_disjoint [of e f] by fastforce

text \<open>
  C36: A completed transaction grants, for every item of the catalog in order, the credits of its
  entry times the quantity (at least one), to the top-up bucket with a year of validity or to
  the subscription bucket until the period ends, and nothing for items that are not in the
  catalog.
\<close>

theorem completed_transaction_grants:
  assumes "eventType e = ''transaction.completed''"
  shows "out_ledger (intentsForEvent e catalog now) =
     List.map_filter (item_intent e catalog now) (enumerate 0 (event_items e))"
  using assms by (simp add: intentsForEvent_def completedTransaction_ledger)

definition demo_event :: paddle_event where
  "demo_event = \<lparr>eventId = ''ev1'', eventType = ''transaction.completed'', event_userId = ''u1'',
     event_items = [\<lparr>item_priceId = ''pri_top'', item_quantity = 2\<rparr>, \<lparr>item_priceId = ''pri_none'', item_quantity = 1\<rparr>],
     event_subscriptionId = None, event_status = None, event_currentPeriodEnd = None, refundCredits = None\<rparr>"

definition demo_catalog :: "catalog_entry list" where
  "demo_catalog = [\<lparr>cat_priceId = ''pri_top'', cat_kind = Kind_topup, cat_planCode = None, cat_credits = 250\<rparr>]"

theorem completed_transaction_grants_witness:
  "map intent_delta (out_ledger (intentsForEvent demo_event demo_catalog 0)) = [500]"
proof -
  have "eventType demo_event = ''transaction.completed''" by (simp add: demo_event_def)
  from completed_transaction_grants [OF this, of demo_catalog 0] show ?thesis
    by (simp add: demo_event_def demo_catalog_def item_intent_def findCatalogEntry_def map_filter_simps)
qed

text \<open>
  Only money grants credits. An event that is not a completed transaction never produces a
  positive ledger intent; a plan change of a subscription event leaves the ledger alone.
\<close>

theorem only_payments_grant:
  assumes "eventType e \<noteq> ''transaction.completed''"
  shows "\<forall>x \<in> set (out_ledger (intentsForEvent e catalog now)). intent_delta x < 0 \<and> eventType e = ''adjustment.created''"
  using assms by (auto simp: intentsForEvent_def subscriptionChange_def refund_outcome_def Let_def split: option.splits)

theorem only_payments_grant_witness:
  "out_ledger (intentsForEvent (demo_event\<lparr>eventType := ''subscription.updated''\<rparr>) demo_catalog 0) = []"
proof -
  have "eventType (demo_event\<lparr>eventType := ''subscription.updated''\<rparr>) \<noteq> ''transaction.completed''" by simp
  from only_payments_grant [OF this] show ?thesis by (fastforce simp: neq_Nil_conv)
qed

end
