(* ===== verification/Audio_Frame.thy ===== *)
theory Audio_Frame
  imports Main "HOL-Library.Word"
begin

unbundle bit_operations_syntax

text \<open>
  \<open>packages/contracts/src/audio.ts\<close>: the binary audio frames between studio and relay. Bytes are
  8-bit words, the sequence number is a 32-bit word written little-endian.
\<close>

section \<open>Constants\<close>

type_synonym byte = "8 word"

definition SAMPLE_RATE :: nat where
  "SAMPLE_RATE = 16000"

definition CHANNELS :: nat where
  "CHANNELS = 1"

definition BYTES_PER_SAMPLE :: nat where
  "BYTES_PER_SAMPLE = 2"

definition FRAME_MS :: nat where
  "FRAME_MS = 20"

definition SAMPLES_PER_FRAME :: nat where
  "SAMPLES_PER_FRAME = (SAMPLE_RATE * FRAME_MS) div 1000"

definition FRAME_BYTES :: nat where
  "FRAME_BYTES = SAMPLES_PER_FRAME * BYTES_PER_SAMPLE"

definition AUDIO_FRAME_HEADER_BYTES :: nat where
  "AUDIO_FRAME_HEADER_BYTES = 5"

definition AUDIO_FRAME_KIND :: byte where
  "AUDIO_FRAME_KIND = 1"

definition SILENCE_PAUSE_MS :: int where
  "SILENCE_PAUSE_MS = 20000"

section \<open>Frames\<close>

record audio_frame =
  frame_seq :: "32 word"
  frame_pcm :: "byte list"

text \<open>\<open>seq >>> 0\<close> reduces any integer modulo \<open>2 ^ 32\<close>.\<close>

definition to_uint32 :: "int \<Rightarrow> 32 word" where
  "to_uint32 s = word_of_int s"

text \<open>\<open>setUint32(\<dots>, true)\<close> and \<open>getUint32(\<dots>, true)\<close>.\<close>

definition put_uint32_le :: "32 word \<Rightarrow> byte list" where
  "put_uint32_le w =
     [ucast w, ucast (drop_bit 8 w), ucast (drop_bit 16 w), ucast (drop_bit 24 w)]"

definition get_uint32_le :: "byte list \<Rightarrow> 32 word" where
  "get_uint32_le b =
     ucast (b ! 0) OR push_bit 8 (ucast (b ! 1)) OR push_bit 16 (ucast (b ! 2)) OR push_bit 24 (ucast (b ! 3))"

definition encodeAudioFrame :: "int \<Rightarrow> byte list \<Rightarrow> byte list" where
  "encodeAudioFrame s pcm = AUDIO_FRAME_KIND # put_uint32_le (to_uint32 s) @ pcm"

definition decodeAudioFrame :: "byte list \<Rightarrow> audio_frame option" where
  "decodeAudioFrame buf =
     (if length buf \<le> AUDIO_FRAME_HEADER_BYTES then None
      else if buf ! 0 \<noteq> AUDIO_FRAME_KIND then None
      else Some \<lparr>frame_seq = get_uint32_le (take 4 (drop 1 buf)),
                 frame_pcm = drop AUDIO_FRAME_HEADER_BYTES buf\<rparr>)"

section \<open>Facts\<close>

lemma length_put_uint32_le [simp]: "length (put_uint32_le w) = 4"
  by (simp add: put_uint32_le_def)

lemma get_put_uint32 [simp]: "get_uint32_le (put_uint32_le w) = w"
proof (rule bit_word_eqI)
  fix n :: nat
  assume "n < LENGTH(32)"
  then consider "n < 8" | "8 \<le> n" "n < 16" | "16 \<le> n" "n < 24" | "24 \<le> n" "n < 32" by fastforce
  then show "bit (get_uint32_le (put_uint32_le w)) n = bit w n"
    by cases (auto simp: get_uint32_le_def put_uint32_le_def bit_simps)
qed

lemma byte_bit_high: "bit (b :: byte) n \<Longrightarrow> n < 8"
  using bit_imp_le_length [of b n] by simp

lemma put_get_uint32:
  assumes "length b = 4"
  shows "put_uint32_le (get_uint32_le b) = b"
proof -
  obtain b0 b1 b2 b3 where b: "b = [b0, b1, b2, b3]"
    using assms by (auto simp: numeral_eq_Suc length_Suc_conv)
  have 0: "ucast (get_uint32_le b) = b0"
    unfolding b by (rule bit_word_eqI) (auto simp: get_uint32_le_def bit_simps)
  have 1: "ucast (drop_bit 8 (get_uint32_le b)) = b1"
    unfolding b by (rule bit_word_eqI) (auto simp: get_uint32_le_def bit_simps dest: byte_bit_high)
  have 2: "ucast (drop_bit 16 (get_uint32_le b)) = b2"
    unfolding b by (rule bit_word_eqI) (auto simp: get_uint32_le_def bit_simps dest: byte_bit_high)
  have 3: "ucast (drop_bit 24 (get_uint32_le b)) = b3"
    unfolding b by (rule bit_word_eqI) (auto simp: get_uint32_le_def bit_simps dest: byte_bit_high)
  show ?thesis unfolding put_uint32_le_def 0 1 2 3 unfolding b ..
qed

lemma uint_to_uint32: "uint (to_uint32 s) = s mod 2 ^ 32"
  by (simp add: to_uint32_def uint_word_of_int)

section \<open>Properties\<close>

text \<open>
  C39: What the studio encodes the relay decodes: the payload comes back unchanged and the
  sequence number comes back modulo \<open>2 ^ 32\<close>, as long as there is a payload.
\<close>

theorem audio_frame_roundtrip:
  assumes "pcm \<noteq> []"
  shows "decodeAudioFrame (encodeAudioFrame s pcm) = Some \<lparr>frame_seq = to_uint32 s, frame_pcm = pcm\<rparr>
     \<and> uint (to_uint32 s) = s mod 2 ^ 32"
  using assms
  by (simp add: decodeAudioFrame_def encodeAudioFrame_def AUDIO_FRAME_HEADER_BYTES_def uint_to_uint32)

theorem audio_frame_roundtrip_witness:
  "decodeAudioFrame (encodeAudioFrame (-1) [7, 8]) = Some \<lparr>frame_seq = to_uint32 (-1), frame_pcm = [7, 8]\<rparr>"
  using audio_frame_roundtrip [of "[7, 8]" "-1"] by simp

text \<open>
  The decoder accepts exactly the frames the encoder produces: a buffer it accepts is the
  encoding of what it returns, and everything without the kind byte or without a payload is
  refused.
\<close>

theorem audio_frame_decode_sound:
  "decodeAudioFrame buf = Some f \<longleftrightarrow>
     frame_pcm f \<noteq> [] \<and> buf = encodeAudioFrame (uint (frame_seq f)) (frame_pcm f)"
proof
  assume dec: "decodeAudioFrame buf = Some f"
  then have len: "5 < length buf" and kind: "buf ! 0 = AUDIO_FRAME_KIND"
    and f: "f = \<lparr>frame_seq = get_uint32_le (take 4 (drop 1 buf)), frame_pcm = drop 5 buf\<rparr>"
    by (auto simp: decodeAudioFrame_def AUDIO_FRAME_HEADER_BYTES_def split: if_splits)
  have "length (take 4 (drop 1 buf)) = 4" using len by simp
  then have "put_uint32_le (frame_seq f) = take 4 (drop 1 buf)" by (simp add: f put_get_uint32)
  moreover have "buf = buf ! 0 # take 4 (drop 1 buf) @ drop 5 buf"
  proof -
    have "buf = buf ! 0 # drop 1 buf" using len by (cases buf) auto
    moreover have "drop 1 buf = take 4 (drop 1 buf) @ drop 4 (drop 1 buf)" by (simp only: append_take_drop_id)
    moreover have "drop 4 (drop 1 buf) = drop 5 buf" by (simp add: drop_drop)
    ultimately show ?thesis by metis
  qed
  ultimately show "frame_pcm f \<noteq> [] \<and> buf = encodeAudioFrame (uint (frame_seq f)) (frame_pcm f)"
    using len kind by (simp add: f encodeAudioFrame_def to_uint32_def)
next
  assume "frame_pcm f \<noteq> [] \<and> buf = encodeAudioFrame (uint (frame_seq f)) (frame_pcm f)"
  then show "decodeAudioFrame buf = Some f"
    by (simp add: decodeAudioFrame_def encodeAudioFrame_def AUDIO_FRAME_HEADER_BYTES_def to_uint32_def)
qed

end
