(* ===== verification/Contracts.thy ===== *)
theory Contracts
  imports Prelude Audio_Frame
begin

text \<open>
  \<open>packages/contracts/src\<close>: the session configuration, the messages between studio, relay and
  projector, the protocol version and the shapes of the API. Objects are records, unions are
  datatypes. The \<open>zod\<close> library that checks incoming JSON is not modelled; what a schema demands
  of a value is the predicate \<open>\<dots>_ok\<close> of its type, and the defaults of a schema are the
  constants \<open>default_\<dots>\<close>.
\<close>

section \<open>session.ts\<close>

definition az :: "char \<Rightarrow> bool" where
  "az c \<longleftrightarrow> CHR ''a'' \<le> c \<and> c \<le> CHR ''z''"

definition AZ :: "char \<Rightarrow> bool" where
  "AZ c \<longleftrightarrow> CHR ''A'' \<le> c \<and> c \<le> CHR ''Z''"

text \<open>\<open>/^[a-z]{2}(-[A-Z]{2})?$/\<close>\<close>

definition LanguageCode :: "string \<Rightarrow> bool" where
  "LanguageCode s =
     (case s of
        [a, b] \<Rightarrow> az a \<and> az b
      | [a, b, h, c, d] \<Rightarrow> az a \<and> az b \<and> h = CHR ''-'' \<and> AZ c \<and> AZ d
      | _ \<Rightarrow> False)"

definition SourceLanguage :: "string \<Rightarrow> bool" where
  "SourceLanguage s \<longleftrightarrow> s = ''auto'' \<or> LanguageCode s"

datatype caption_style = Clean | Broadcast | Minimal | Karaoke
datatype caption_mode = Rollup | Popon
datatype tail_mode = Ghost | Hide

record voice_config =
  vc_enabled :: bool
  vc_voiceId :: "string option"
  vc_speed :: jsnum
  vc_lang :: "string option"

definition VoiceConfig_ok :: "voice_config \<Rightarrow> bool" where
  "VoiceConfig_ok v \<longleftrightarrow>
     (case vc_voiceId v of None \<Rightarrow> True | Some i \<Rightarrow> 1 \<le> length i) \<and>
     7 / 10 \<le> vc_speed v \<and> vc_speed v \<le> 12 / 10 \<and>
     (case vc_lang v of None \<Rightarrow> True | Some l \<Rightarrow> LanguageCode l)"

definition default_VoiceConfig :: voice_config where
  "default_VoiceConfig = \<lparr>vc_enabled = False, vc_voiceId = None, vc_speed = 1, vc_lang = None\<rparr>"

record render_config =
  rc_style :: caption_style
  rc_mode :: caption_mode
  rc_tail :: tail_mode
  rc_maxLines :: nat
  rc_maxCharsPerLine :: nat
  rc_fontSize :: nat
  rc_safeAreaPct :: jsnum
  rc_showSource :: bool
  rc_showTranslation :: bool

definition RenderConfig_ok :: "render_config \<Rightarrow> bool" where
  "RenderConfig_ok r \<longleftrightarrow>
     1 \<le> rc_maxLines r \<and> rc_maxLines r \<le> 3 \<and>
     24 \<le> rc_maxCharsPerLine r \<and> rc_maxCharsPerLine r \<le> 60 \<and>
     20 \<le> rc_fontSize r \<and> rc_fontSize r \<le> 96 \<and>
     0 \<le> rc_safeAreaPct r \<and> rc_safeAreaPct r \<le> 15"

definition default_RenderConfig :: render_config where
  "default_RenderConfig =
     \<lparr>rc_style = Clean, rc_mode = Rollup, rc_tail = Ghost, rc_maxLines = 2, rc_maxCharsPerLine = 42,
      rc_fontSize = 44, rc_safeAreaPct = 5, rc_showSource = True, rc_showTranslation = True\<rparr>"

record session_config =
  sc_srcLang :: string
  sc_dstLangs :: "string list"
  sc_voice :: voice_config
  sc_glossaryId :: "string option"
  sc_noVerbatim :: bool
  sc_render :: render_config

text \<open>\<open>glossaryId\<close> must be a UUID; that check is the library's and stays a parameter.\<close>

definition SessionConfig_ok :: "(string \<Rightarrow> bool) \<Rightarrow> session_config \<Rightarrow> bool" where
  "SessionConfig_ok is_uuid c \<longleftrightarrow>
     SourceLanguage (sc_srcLang c) \<and>
     list_all LanguageCode (sc_dstLangs c) \<and> length (sc_dstLangs c) \<le> 5 \<and>
     VoiceConfig_ok (sc_voice c) \<and>
     (case sc_glossaryId c of None \<Rightarrow> True | Some g \<Rightarrow> is_uuid g) \<and>
     RenderConfig_ok (sc_render c)"

definition default_SessionConfig :: session_config where
  "default_SessionConfig =
     \<lparr>sc_srcLang = ''auto'', sc_dstLangs = [], sc_voice = default_VoiceConfig, sc_glossaryId = None,
      sc_noVerbatim = True, sc_render = default_RenderConfig\<rparr>"

text \<open>\<open>SessionConfig.partial()\<close>: every field may be missing.\<close>

record partial_session_config =
  pc_srcLang :: "string option"
  pc_dstLangs :: "string list option"
  pc_voice :: "voice_config option"
  pc_glossaryId :: "string option"
  pc_noVerbatim :: "bool option"
  pc_render :: "render_config option"

definition GLOSSARY_MAX_TERMS :: nat where
  "GLOSSARY_MAX_TERMS = 50"

definition GLOSSARY_MAX_TERM_LENGTH :: nat where
  "GLOSSARY_MAX_TERM_LENGTH = 20"

datatype end_reason =
  End_user | End_credits_exhausted | End_idle_timeout | End_server_shutdown
| End_protocol_error | End_upstream_error | End_superseded

datatype notice_code =
  LOW_CREDITS | CREDITS_CRITICAL | VOICE_BEHIND | STT_RECONNECTING
| TRANSLATION_DEGRADED | TTS_UNAVAILABLE | NETWORK_SLOW

datatype notice_level = Level_info | Level_warn | Level_error

section \<open>protocol.ts\<close>

datatype studio_message =
    Studio_hello string string session_config
  | Studio_flush
  | Studio_configure partial_session_config
  | Studio_bye

datatype projector_role = Role_captions | Role_voice

datatype projector_message =
    Projector_attach string string "nat option" projector_role
  | Projector_ping

definition opt_ok :: "('a \<Rightarrow> bool) \<Rightarrow> 'a option \<Rightarrow> bool" where
  "opt_ok P x = (case x of None \<Rightarrow> True | Some y \<Rightarrow> P y)"

definition PartialSessionConfig_ok :: "(string \<Rightarrow> bool) \<Rightarrow> partial_session_config \<Rightarrow> bool" where
  "PartialSessionConfig_ok is_uuid p \<longleftrightarrow>
     opt_ok SourceLanguage (pc_srcLang p) \<and>
     opt_ok (\<lambda>ls. list_all LanguageCode ls \<and> length ls \<le> 5) (pc_dstLangs p) \<and>
     opt_ok VoiceConfig_ok (pc_voice p) \<and>
     opt_ok is_uuid (pc_glossaryId p) \<and>
     opt_ok RenderConfig_ok (pc_render p)"

definition StudioMessage_ok :: "(string \<Rightarrow> bool) \<Rightarrow> studio_message \<Rightarrow> bool" where
  "StudioMessage_ok is_uuid m =
     (case m of
        Studio_hello version jwt cfg \<Rightarrow> 16 \<le> length jwt \<and> SessionConfig_ok is_uuid cfg
      | Studio_configure patch \<Rightarrow> PartialSessionConfig_ok is_uuid patch
      | _ \<Rightarrow> True)"

definition ProjectorMessage_ok :: "projector_message \<Rightarrow> bool" where
  "ProjectorMessage_ok m =
     (case m of Projector_attach version token lastSeq role \<Rightarrow> 16 \<le> length token | _ \<Rightarrow> True)"

datatype wire_state = Wire_live | Wire_settled | Wire_fading

record caption_card =
  cc_cardId :: string
  cc_text :: jstring
  cc_stable :: nat
  cc_tr :: "(string, jstring) jsmap option"
  cc_trFinal :: bool
  cc_state :: wire_state
  cc_at :: int

record credits_update =
  cu_remaining :: jsnum
  cu_secondsLeft :: int
  cu_burnRatePerMin :: jsnum

datatype relay_message =
    Relay_snapshot nat string "caption_card list" render_config bool
  | Relay_partial nat string jstring nat "(string, jstring) jsmap option"
  | Relay_commit nat string jstring "(string, jstring) jsmap option"
  | Relay_retract nat string jstring "(string, jstring) jsmap option"
  | Relay_cardEnd nat string
  | Relay_tts nat string string string bool
  | Relay_render nat render_config
  | Relay_credits credits_update
  | Relay_notice notice_level notice_code "string option"
  | Relay_ready string string jsnum
  | Relay_end end_reason jsnum
  | Relay_pong

text \<open>The discriminator \<open>t\<close> of a message.\<close>

fun relay_t :: "relay_message \<Rightarrow> string" where
  "relay_t (Relay_snapshot s i c r w) = ''snapshot''"
| "relay_t (Relay_partial s i x n tr) = ''partial''"
| "relay_t (Relay_commit s i x tr) = ''commit''"
| "relay_t (Relay_retract s i x tr) = ''retract''"
| "relay_t (Relay_cardEnd s i) = ''cardEnd''"
| "relay_t (Relay_tts s i l c f) = ''tts''"
| "relay_t (Relay_render s r) = ''render''"
| "relay_t (Relay_credits u) = ''credits''"
| "relay_t (Relay_notice l c d) = ''notice''"
| "relay_t (Relay_ready i v b) = ''ready''"
| "relay_t (Relay_end r c) = ''end''"
| "relay_t Relay_pong = ''pong''"

definition PROJECTOR_SAFE_EVENTS :: "string list" where
  "PROJECTOR_SAFE_EVENTS =
     [''snapshot'', ''partial'', ''commit'', ''retract'', ''cardEnd'', ''tts'', ''render'', ''pong'']"

definition isProjectorSafe :: "relay_message \<Rightarrow> bool" where
  "isProjectorSafe msg \<longleftrightarrow> relay_t msg \<in> set PROJECTOR_SAFE_EVENTS"

definition HEARTBEAT_INTERVAL_MS :: int where
  "HEARTBEAT_INTERVAL_MS = 5000"

definition HEARTBEAT_WATCHDOG_MS :: int where
  "HEARTBEAT_WATCHDOG_MS = 12000"

section \<open>version.ts\<close>

definition PROTOCOL_VERSION :: string where
  "PROTOCOL_VERSION = ''1.1.0''"

definition SUPPORTED_PROTOCOL_VERSIONS :: "string list" where
  "SUPPORTED_PROTOCOL_VERSIONS = [''1.1.0'']"

definition isProtocolSupported :: "string \<Rightarrow> bool" where
  "isProtocolSupported v \<longleftrightarrow> v \<in> set SUPPORTED_PROTOCOL_VERSIONS"

section \<open>api.ts\<close>

datatype start_error =
  Err_INSUFFICIENT_CREDITS | Err_CONCURRENCY_LIMIT | Err_PLAN_FEATURE_LOCKED
| Err_EMAIL_NOT_VERIFIED | Err_RATE_LIMITED | Err_INVALID_CONFIG

record start_response =
  sr_sessionId :: string
  sr_jwt :: string
  sr_relayUrl :: string
  sr_projectorToken :: string
  sr_projectorUrl :: string
  sr_burnRatePerMin :: jsnum
  sr_creditsAvailable :: jsnum
  sr_estimatedSeconds :: int

record relay_jwt_claims =
  claim_sub :: string
  claim_sid :: string
  claim_aud :: string
  claim_jti :: string
  claim_plan :: string
  claim_reserved :: jsnum
  claim_cfg :: session_config
  claim_exp :: int
  claim_iat :: int

definition RelayJwtClaims_ok :: "(string \<Rightarrow> bool) \<Rightarrow> relay_jwt_claims \<Rightarrow> bool" where
  "RelayJwtClaims_ok is_uuid c \<longleftrightarrow>
     is_uuid (claim_sub c) \<and> is_uuid (claim_sid c) \<and> claim_aud c = ''relay'' \<and>
     SessionConfig_ok is_uuid (claim_cfg c)"

definition RELAY_JWT_TTL_SECONDS :: int where
  "RELAY_JWT_TTL_SECONDS = 60"

definition RELAY_JWT_AUDIENCE :: string where
  "RELAY_JWT_AUDIENCE = ''relay''"

record glossary_upsert =
  gu_name :: jstring
  gu_terms :: "jstring list"

definition GlossaryUpsert_ok :: "glossary_upsert \<Rightarrow> bool" where
  "GlossaryUpsert_ok g \<longleftrightarrow>
     1 \<le> length (gu_name g) \<and> length (gu_name g) \<le> 60 \<and>
     list_all (\<lambda>t. 1 \<le> length t \<and> length t \<le> 20) (gu_terms g) \<and> length (gu_terms g) \<le> 50"

record billing_profile =
  bp_companyName :: "jstring option"
  bp_vatId :: "jstring option"
  bp_country :: jstring
  bp_addressLine1 :: "jstring option"
  bp_addressLine2 :: "jstring option"
  bp_postalCode :: "jstring option"
  bp_city :: "jstring option"

definition opt_max :: "nat \<Rightarrow> jstring option \<Rightarrow> bool" where
  "opt_max n s = (case s of None \<Rightarrow> True | Some x \<Rightarrow> length x \<le> n)"

definition BillingProfile_ok :: "billing_profile \<Rightarrow> bool" where
  "BillingProfile_ok b \<longleftrightarrow>
     opt_max 200 (bp_companyName b) \<and> opt_max 20 (bp_vatId b) \<and> length (bp_country b) = 2 \<and>
     opt_max 200 (bp_addressLine1 b) \<and> opt_max 200 (bp_addressLine2 b) \<and>
     opt_max 20 (bp_postalCode b) \<and> opt_max 100 (bp_city b)"

section \<open>Facts\<close>

lemma defaults_ok [simp]:
  "VoiceConfig_ok default_VoiceConfig" "RenderConfig_ok default_RenderConfig"
  "SessionConfig_ok is_uuid default_SessionConfig"
  by (simp_all add: VoiceConfig_ok_def default_VoiceConfig_def RenderConfig_ok_def default_RenderConfig_def
      SessionConfig_ok_def default_SessionConfig_def SourceLanguage_def)

lemma current_version_supported [simp]: "isProtocolSupported PROTOCOL_VERSION"
  by (simp add: isProtocolSupported_def SUPPORTED_PROTOCOL_VERSIONS_def PROTOCOL_VERSION_def)

lemma LanguageCode_length: "LanguageCode s \<Longrightarrow> length s = 2 \<or> length s = 5"
  by (auto simp: LanguageCode_def split: list.splits)

lemma LanguageCode_no_bar: "LanguageCode s \<Longrightarrow> CHR ''|'' \<notin> set s"
  by (auto simp: LanguageCode_def az_def AZ_def less_eq_char_def split: list.splits)

text \<open>What never goes on air: money, notices, the handshake answer and the end of the session.\<close>

lemma isProjectorSafe_iff:
  "isProjectorSafe msg \<longleftrightarrow>
     (case msg of Relay_credits u \<Rightarrow> False | Relay_notice l c d \<Rightarrow> False
        | Relay_ready i v b \<Rightarrow> False | Relay_end r c \<Rightarrow> False | _ \<Rightarrow> True)"
  by (cases msg) (simp_all add: isProjectorSafe_def PROJECTOR_SAFE_EVENTS_def)

end
