(* ===== verification/Metering.thy ===== *)
theory Metering
  imports Ledger Pricing Contracts
begin

text \<open>
  \<open>apps/relay/src/metering.ts\<close>, class \<open>Meter\<close>: the billing clock of a session. Every method that
  awaits the gateway is cut at the await: the first part returns the call it makes and what it
  waits for (\<open>Await\<close>), the second part continues with the answer. Between the two, other methods
  may run; \<open>meter_step\<close> is the relation of all such interleavings.
\<close>

section \<open>State\<close>

definition METER_TICK_MS :: int where
  "METER_TICK_MS = 1000"

record ledger_flush =
  fl_credits :: jsnum
  fl_billableSeconds :: int
  fl_sequence :: nat

record reservation_result =
  granted :: jsnum
  rr_balanceRemaining :: jsnum

datatype meter_event =
    On_credits credits_update
  | On_notice notice_level notice_code
  | On_exhausted
  | On_flush_failed

datatype gateway_call = Call_reserve jsnum | Call_flush ledger_flush | Call_release jsnum

text \<open>What a suspended method is waiting for; the number is the \<open>now\<close> it has read.\<close>

datatype meter_wait =
    Tick_reserve int
  | Tick_flush int
  | Close_flush
  | Close_release

datatype continuation = Finished | Await gateway_call meter_wait

record meter_options =
  mo_burn :: burn_config
  mo_reserved :: jsnum
  mo_balanceRemaining :: jsnum

record meter =
  m_ratePerSecond :: jsnum
  m_ratePerMinute :: jsnum
  m_reservation :: reservation
  m_initialAirtime :: jsnum
  m_balanceRemaining :: jsnum
  m_lastTickAt :: int
  m_lastAudioAt :: int
  m_lastFlushAt :: int
  m_pendingCredits :: jsnum
  m_billableMs :: jsnum
  m_flushedSeconds :: int
  m_flushSequence :: nat
  m_graceStartedAt :: "int option"
  m_warnedLow :: bool
  m_warnedCritical :: bool
  m_exhausted :: bool
  m_closed :: bool

record meter_snapshot =
  ms_spent :: jsnum
  ms_reserved :: jsnum
  ms_balanceRemaining :: jsnum
  ms_billableSeconds :: int
  ms_secondsLeft :: int
  ms_paused :: bool
  ms_exhausted :: bool

definition new_meter :: "meter_options \<Rightarrow> int \<Rightarrow> meter" where
  "new_meter opts now =
     \<lparr>m_ratePerSecond = burnRatePerSecond (mo_burn opts), m_ratePerMinute = burnRatePerMinute (mo_burn opts),
      m_reservation = \<lparr>reserved = mo_reserved opts, spent = 0\<rparr>,
      m_initialAirtime = round4 (mo_reserved opts + mo_balanceRemaining opts),
      m_balanceRemaining = mo_balanceRemaining opts,
      m_lastTickAt = now, m_lastAudioAt = now, m_lastFlushAt = now,
      m_pendingCredits = 0, m_billableMs = 0, m_flushedSeconds = 0, m_flushSequence = 0,
      m_graceStartedAt = None, m_warnedLow = False, m_warnedCritical = False,
      m_exhausted = False, m_closed = False\<rparr>"

section \<open>Reading the clock\<close>

definition markAudio :: "meter \<Rightarrow> int \<Rightarrow> meter" where
  "markAudio m atMs = m\<lparr>m_lastAudioAt := atMs\<rparr>"

definition idle_at :: "meter \<Rightarrow> int \<Rightarrow> bool" where
  "idle_at m now \<longleftrightarrow> now - m_lastAudioAt m \<ge> SILENCE_PAUSE_MS"

definition remainingCredits :: "meter \<Rightarrow> jsnum" where
  "remainingCredits m = round4 (max 0 (m_balanceRemaining m + reservationRemaining (m_reservation m)))"

definition secondsLeft :: "meter \<Rightarrow> int" where
  "secondsLeft m =
     (if m_ratePerSecond m \<le> 0 then 0 else max 0 \<lfloor>remainingCredits m / m_ratePerSecond m\<rfloor>)"

definition meter_snapshot_at :: "meter \<Rightarrow> int \<Rightarrow> meter_snapshot" where
  "meter_snapshot_at m now =
     \<lparr>ms_spent = spent (m_reservation m), ms_reserved = reserved (m_reservation m),
      ms_balanceRemaining = m_balanceRemaining m, ms_billableSeconds = \<lfloor>m_billableMs m / 1000\<rfloor>,
      ms_secondsLeft = secondsLeft m, ms_paused = idle_at m now, ms_exhausted = m_exhausted m\<rparr>"

section \<open>Charging\<close>

definition enterGrace :: "meter \<Rightarrow> int \<Rightarrow> meter_event list \<times> meter" where
  "enterGrace m now =
     (if m_graceStartedAt m \<noteq> None then ([], m)
      else let m = m\<lparr>m_graceStartedAt := Some now\<rparr>
           in if \<not> m_warnedCritical m
              then ([On_notice Level_error CREDITS_CRITICAL], m\<lparr>m_warnedCritical := True\<rparr>)
              else ([], m))"

definition charge :: "meter \<Rightarrow> int \<Rightarrow> int \<Rightarrow> meter_event list \<times> meter" where
  "charge m elapsedMs now =
     (let wanted = round4 ((of_int elapsedMs / 1000) * m_ratePerSecond m)
      in if wanted \<le> 0 then ([], m)
         else
           let available = max 0 (reservationRemaining (m_reservation m));
               charged = round4 (min wanted available);
               m = m\<lparr>m_reservation := (m_reservation m)\<lparr>spent := round4 (spent (m_reservation m) + charged)\<rparr>,
                     m_pendingCredits := round4 (m_pendingCredits m + charged),
                     m_billableMs := m_billableMs m + (charged / wanted) * of_int elapsedMs\<rparr>
           in if charged < wanted then enterGrace m now else ([], m))"

definition checkGrace :: "meter \<Rightarrow> int \<Rightarrow> meter_event list \<times> meter" where
  "checkGrace m now =
     (if m_exhausted m then ([], m)
      else (case m_graceStartedAt m of
              None \<Rightarrow> ([], m)
            | Some t \<Rightarrow>
                if now - t < ZERO_BALANCE_GRACE_SECONDS * 1000 then ([], m)
                else ([On_exhausted], m\<lparr>m_exhausted := True\<rparr>)))"

definition emitCredits :: "meter \<Rightarrow> meter_event list \<times> meter" where
  "emitCredits m =
     (let remaining = remainingCredits m;
          left = secondsLeft m;
          update = On_credits \<lparr>cu_remaining = remaining, cu_secondsLeft = left, cu_burnRatePerMin = m_ratePerMinute m\<rparr>
      in if \<not> m_warnedCritical m \<and> left \<le> CRITICAL_SECONDS_LEFT
         then ([update, On_notice Level_error CREDITS_CRITICAL], m\<lparr>m_warnedCritical := True\<rparr>)
         else if \<not> m_warnedLow m \<and> m_initialAirtime m > 0 \<and>
                 remaining / m_initialAirtime m \<le> LOW_CREDITS_WARN_RATIO
         then ([update, On_notice Level_warn LOW_CREDITS], m\<lparr>m_warnedLow := True\<rparr>)
         else ([update], m))"

section \<open>Top-up and flush\<close>

text \<open>\<open>maybeTopUp\<close> up to its await: the amount it asks for.\<close>

definition topUp_want :: "meter \<Rightarrow> jsnum option" where
  "topUp_want m =
     (if m_exhausted m then None
      else if \<not> needsTopUp (m_reservation m) (m_ratePerSecond m) (of_int RESERVATION_WINDOW_SECONDS) then None
      else Some (round4 (m_ratePerSecond m * of_int RESERVATION_WINDOW_SECONDS)))"

text \<open>\<open>maybeTopUp\<close> after its await.\<close>

definition topUp_result :: "meter \<Rightarrow> int \<Rightarrow> reservation_result \<Rightarrow> meter_event list \<times> meter" where
  "topUp_result m now result =
     (let m = m\<lparr>m_balanceRemaining := rr_balanceRemaining result\<rparr>
      in if granted result > 0
         then ([], m\<lparr>m_reservation := (m_reservation m)\<lparr>reserved := round4 (reserved (m_reservation m) + granted result)\<rparr>,
                     m_graceStartedAt := None\<rparr>)
         else enterGrace m now)"

text \<open>\<open>flushNow\<close> up to its await: the entry it writes, if there is anything to write.\<close>

definition flushNow :: "meter \<Rightarrow> int \<Rightarrow> ledger_flush option \<times> meter" where
  "flushNow m now =
     (let credits = m_pendingCredits m;
          totalSeconds = \<lfloor>m_billableMs m / 1000\<rfloor>;
          seconds = max 0 (totalSeconds - m_flushedSeconds m);
          m = m\<lparr>m_lastFlushAt := now\<rparr>
      in if credits \<le> 0 \<and> seconds \<le> 0 then (None, m)
         else let m = m\<lparr>m_pendingCredits := 0, m_flushedSeconds := totalSeconds,
                        m_flushSequence := m_flushSequence m + 1\<rparr>
              in (Some \<lparr>fl_credits = credits, fl_billableSeconds = seconds, fl_sequence = m_flushSequence m\<rparr>, m))"

section \<open>Tick and close\<close>

type_synonym outcome = "meter_event list \<times> meter \<times> continuation"

definition tick_end :: "meter \<Rightarrow> int \<Rightarrow> outcome" where
  "tick_end m now =
     (case emitCredits m of
        (ev1, m) \<Rightarrow> (case checkGrace m now of (ev2, m) \<Rightarrow> (ev1 @ ev2, m, Finished)))"

definition tick_flush :: "meter \<Rightarrow> int \<Rightarrow> outcome" where
  "tick_flush m now =
     (if now - m_lastFlushAt m < LEDGER_FLUSH_INTERVAL_MS then tick_end m now
      else (case flushNow m now of
              (None, m) \<Rightarrow> tick_end m now
            | (Some entry, m) \<Rightarrow> ([], m, Await (Call_flush entry) (Tick_flush now))))"

definition tick_start :: "meter \<Rightarrow> int \<Rightarrow> outcome" where
  "tick_start m now =
     (if m_closed m then ([], m, Finished)
      else
        let elapsedMs = max 0 (now - m_lastTickAt m);
            m = m\<lparr>m_lastTickAt := now\<rparr>
        in (case (if \<not> idle_at m now \<and> elapsedMs > 0 then charge m elapsedMs now else ([], m)) of
              (ev, m) \<Rightarrow>
                (case topUp_want m of
                   Some want \<Rightarrow> (ev, m, Await (Call_reserve want) (Tick_reserve now))
                 | None \<Rightarrow> (case tick_flush m now of (ev', m, k) \<Rightarrow> (ev @ ev', m, k)))))"

definition close_release :: "meter \<Rightarrow> outcome" where
  "close_release m =
     (let unused = releaseUnused (m_reservation m)
      in if unused > 0
         then ([], m\<lparr>m_reservation := (m_reservation m)\<lparr>reserved := round4 (reserved (m_reservation m) - unused)\<rparr>\<rparr>,
               Await (Call_release unused) Close_release)
         else ([], m, Finished))"

definition close_start :: "meter \<Rightarrow> int \<Rightarrow> outcome" where
  "close_start m now =
     (if m_closed m then ([], m, Finished)
      else (case flushNow (m\<lparr>m_closed := True\<rparr>) now of
              (None, m) \<Rightarrow> close_release m
            | (Some entry, m) \<Rightarrow> ([], m, Await (Call_flush entry) Close_flush)))"

text \<open>The answer of the gateway: a reservation, an acknowledgement, or a rejection.\<close>

datatype gateway_answer = Reserved reservation_result | Done | Rejected

text \<open>A rejected \<open>reserve\<close> or \<open>release\<close> ends the method with the error; a rejected \<open>flush\<close> is reported
  and the method goes on.\<close>

definition flush_events :: "gateway_answer \<Rightarrow> meter_event list" where
  "flush_events a = (if a = Rejected then [On_flush_failed] else [])"

fun resume :: "meter \<Rightarrow> meter_wait \<Rightarrow> gateway_answer \<Rightarrow> outcome" where
  "resume m (Tick_reserve now) (Reserved result) =
     (case topUp_result m now result of
        (ev, m) \<Rightarrow> (case tick_flush m now of (ev', m, k) \<Rightarrow> (ev @ ev', m, k)))"
| "resume m (Tick_reserve now) _ = ([], m, Finished)"
| "resume m (Tick_flush now) a =
     (case tick_end m now of (ev, m, k) \<Rightarrow> (flush_events a @ ev, m, k))"
| "resume m Close_flush a =
     (case close_release m of (ev, m, k) \<Rightarrow> (flush_events a @ ev, m, k))"
| "resume m Close_release a = ([], m, Finished)"

section \<open>The meter and its gateway, interleaved\<close>

text \<open>The meter, the suspended methods with the calls they wait for, all calls made so far, what was
  ever put at the meter's disposal, and the events it has raised.\<close>

record meter_world =
  w_meter :: meter
  w_waits :: "(gateway_call \<times> meter_wait) list"
  w_calls :: "gateway_call list"
  w_credit :: jsnum
  w_events :: "meter_event list"

definition world_start :: "meter_options \<Rightarrow> int \<Rightarrow> meter_world" where
  "world_start opts now =
     \<lparr>w_meter = new_meter opts now, w_waits = [], w_calls = [], w_credit = mo_reserved opts, w_events = []\<rparr>"

fun calls_of :: "continuation \<Rightarrow> gateway_call list" where
  "calls_of Finished = []"
| "calls_of (Await call w) = [call]"

fun waits_of :: "continuation \<Rightarrow> (gateway_call \<times> meter_wait) list" where
  "waits_of Finished = []"
| "waits_of (Await call w) = [(call, w)]"

definition apply_outcome :: "meter_world \<Rightarrow> outcome \<Rightarrow> meter_world" where
  "apply_outcome w out =
     (case out of (ev, m, k) \<Rightarrow>
        w\<lparr>w_meter := m, w_waits := w_waits w @ waits_of k, w_calls := w_calls w @ calls_of k,
          w_events := w_events w @ ev\<rparr>)"

text \<open>The law of the gateway: it grants between nothing and what was asked for, on the grid.\<close>

fun answer_ok :: "gateway_call \<Rightarrow> gateway_answer \<Rightarrow> bool" where
  "answer_ok (Call_reserve want) (Reserved r) = (0 \<le> granted r \<and> granted r \<le> max 0 want \<and> on_grid (granted r))"
| "answer_ok (Call_reserve want) a = (a = Rejected)"
| "answer_ok (Call_flush e) a = (a = Done \<or> a = Rejected)"
| "answer_ok (Call_release x) a = (a = Done \<or> a = Rejected)"

fun answer_credit :: "gateway_answer \<Rightarrow> jsnum" where
  "answer_credit (Reserved r) = granted r"
| "answer_credit a = 0"

inductive meter_step :: "meter_world \<Rightarrow> meter_world \<Rightarrow> bool" where
  audio: "meter_step w (w\<lparr>w_meter := markAudio (w_meter w) atMs\<rparr>)"
| tick: "meter_step w (apply_outcome w (tick_start (w_meter w) now))"
| close: "meter_step w (apply_outcome w (close_start (w_meter w) now))"
| answer: "w_waits w = xs @ (call, wt) # ys \<Longrightarrow> answer_ok call a \<Longrightarrow>
    meter_step w (apply_outcome (w\<lparr>w_waits := xs @ ys, w_credit := w_credit w + answer_credit a\<rparr>)
      (resume (w_meter w) wt a))"

inductive meter_reach :: "meter_options \<Rightarrow> int \<Rightarrow> meter_world \<Rightarrow> bool" for opts now where
  start: "meter_reach opts now (world_start opts now)"
| step: "meter_reach opts now w \<Longrightarrow> meter_step w w' \<Longrightarrow> meter_reach opts now w'"

section \<open>The books\<close>

fun flush_of :: "gateway_call \<Rightarrow> ledger_flush option" where
  "flush_of (Call_flush e) = Some e"
| "flush_of _ = None"

fun release_of :: "gateway_call \<Rightarrow> jsnum" where
  "release_of (Call_release x) = x"
| "release_of _ = 0"

definition flushes :: "gateway_call list \<Rightarrow> ledger_flush list" where
  "flushes calls = List.map_filter flush_of calls"

definition billed :: "gateway_call list \<Rightarrow> jsnum" where
  "billed calls = sum_list (map fl_credits (flushes calls))"

definition released :: "gateway_call list \<Rightarrow> jsnum" where
  "released calls = sum_list (map release_of calls)"

lemma flushes_append [simp]: "flushes (xs @ ys) = flushes xs @ flushes ys"
  by (simp add: flushes_def map_filter_def)

lemma flushes_simps [simp]:
  "flushes [] = []" "flushes [Call_flush e] = [e]" "flushes [Call_reserve x] = []" "flushes [Call_release x] = []"
  by (simp_all add: flushes_def map_filter_simps)

lemma billed_append [simp]: "billed (xs @ ys) = billed xs + billed ys"
  by (simp add: billed_def)

lemma billed_simps [simp]:
  "billed [] = 0" "billed [Call_flush e] = fl_credits e" "billed [Call_reserve x] = 0" "billed [Call_release x] = 0"
  by (simp_all add: billed_def)

lemma released_append [simp]: "released (xs @ ys) = released xs + released ys"
  by (simp add: released_def)

lemma released_simps [simp]:
  "released [] = 0" "released [Call_flush e] = 0" "released [Call_reserve x] = 0" "released [Call_release x] = x"
  by (simp_all add: released_def)

text \<open>
  The books balance: what was billed and what is pending is what was spent; what is reserved and
  what was released is what was put at the disposal of the meter; nothing is spent beyond the
  reservation; the flushes are numbered 1, 2, 3, \<dots> and none is negative.
\<close>

definition books :: "meter \<Rightarrow> gateway_call list \<Rightarrow> jsnum \<Rightarrow> bool" where
  "books m calls credit \<longleftrightarrow>
     on_grid (reserved (m_reservation m)) \<and> on_grid (spent (m_reservation m)) \<and> on_grid (m_pendingCredits m)
     \<and> 0 \<le> spent (m_reservation m) \<and> spent (m_reservation m) \<le> reserved (m_reservation m)
     \<and> 0 \<le> m_pendingCredits m
     \<and> billed calls + m_pendingCredits m = spent (m_reservation m)
     \<and> reserved (m_reservation m) + released calls = credit
     \<and> map fl_sequence (flushes calls) = [1..<Suc (m_flushSequence m)]
     \<and> (\<forall>e \<in> set (flushes calls). 0 \<le> fl_credits e \<and> 0 \<le> fl_billableSeconds e)"

definition same_money :: "meter \<Rightarrow> meter \<Rightarrow> bool" where
  "same_money m m' \<longleftrightarrow> m_reservation m' = m_reservation m \<and> m_pendingCredits m' = m_pendingCredits m
     \<and> m_flushSequence m' = m_flushSequence m \<and> m_closed m' = m_closed m
     \<and> m_ratePerSecond m' = m_ratePerSecond m"

lemma books_same: "books m calls credit \<Longrightarrow> same_money m m' \<Longrightarrow> books m' calls credit"
  by (simp add: same_money_def books_def)

lemma same_money_refl [simp]: "same_money m m"
  by (simp add: same_money_def)

lemma same_money_trans: "same_money m m' \<Longrightarrow> same_money m' m'' \<Longrightarrow> same_money m m''"
  by (simp add: same_money_def)

lemma enterGrace_same: "enterGrace m now = (ev, m') \<Longrightarrow> same_money m m'"
  by (auto simp: enterGrace_def same_money_def Let_def split: if_splits)

lemma checkGrace_same: "checkGrace m now = (ev, m') \<Longrightarrow> same_money m m'"
  by (auto simp: checkGrace_def same_money_def split: if_splits option.splits)

lemma emitCredits_same: "emitCredits m = (ev, m') \<Longrightarrow> same_money m m'"
  by (auto simp: emitCredits_def same_money_def Let_def split: if_splits)

lemma tick_end_same: "tick_end m now = (ev, m', k) \<Longrightarrow> same_money m m' \<and> k = Finished"
  by (auto simp: tick_end_def split: prod.splits intro: same_money_trans emitCredits_same checkGrace_same)

lemma books_flushNow:
  assumes "books m calls credit" and "flushNow m now = (entry, m')"
  shows "m_reservation m' = m_reservation m \<and> m_closed m' = m_closed m \<and> m_ratePerSecond m' = m_ratePerSecond m
     \<and> (case entry of None \<Rightarrow> same_money m m'
         | Some e \<Rightarrow> fl_credits e = m_pendingCredits m \<and> books m' (calls @ [Call_flush e]) credit)"
  using assms by (auto simp: flushNow_def Let_def books_def same_money_def split: if_splits)

lemma books_tick_flush:
  assumes "books m calls credit" and "tick_flush m now = (ev, m', k)"
  shows "books m' (calls @ calls_of k) credit \<and> m_reservation m' = m_reservation m \<and> m_closed m' = m_closed m
     \<and> (k = Finished \<or> (\<exists>e. k = Await (Call_flush e) (Tick_flush now)))"
proof (cases "now - m_lastFlushAt m < LEDGER_FLUSH_INTERVAL_MS")
  case True
  then have "tick_end m now = (ev, m', k)" using assms(2) by (simp add: tick_flush_def)
  note s = tick_end_same [OF this]
  show ?thesis
    using books_same [OF assms(1) conjunct1 [OF s]] s by (simp add: same_money_def)
next
  case False
  obtain entry m1 where f: "flushNow m now = (entry, m1)" by fastforce
  note b = books_flushNow [OF assms(1) f]
  show ?thesis
  proof (cases entry)
    case None
    then have "tick_end m1 now = (ev, m', k)" using assms(2) False f by (simp add: tick_flush_def)
    note s = tick_end_same [OF this]
    have "same_money m m1" using b None by simp
    then have "same_money m m'" using s by (blast intro: same_money_trans)
    then show ?thesis using books_same [OF assms(1)] s by (simp add: same_money_def)
  next
    case (Some e)
    then have "m' = m1" "k = Await (Call_flush e) (Tick_flush now)"
      using assms(2) False f by (auto simp: tick_flush_def)
    then show ?thesis using b Some by simp
  qed
qed

text \<open>A charge is at most what the elapsed time costs and at most what is left of the reservation.\<close>

lemma charge_spec:
  assumes "books m calls credit" and "charge m ms now = (ev, m')"
  defines "wanted \<equiv> round4 ((of_int ms / 1000) * m_ratePerSecond m)"
  defines "taken \<equiv> (if wanted \<le> 0 then 0 else min wanted (reserved (m_reservation m) - spent (m_reservation m)))"
  shows "spent (m_reservation m') = spent (m_reservation m) + taken"
    and "m_pendingCredits m' = m_pendingCredits m + taken"
    and "reserved (m_reservation m') = reserved (m_reservation m)" and "m_closed m' = m_closed m"
    and "m_flushSequence m' = m_flushSequence m" and "m_ratePerSecond m' = m_ratePerSecond m"
    and "0 \<le> taken" and "on_grid taken"
proof -
  let ?r = "m_reservation m"
  have g: "on_grid (reserved ?r)" "on_grid (spent ?r)" "on_grid (m_pendingCredits m)" "spent ?r \<le> reserved ?r"
    using assms(1) by (auto simp: books_def)
  have rem: "max 0 (reservationRemaining ?r) = reserved ?r - spent ?r"
    using g by (simp add: reservationRemaining_def)
  have w: "on_grid wanted" by (simp add: wanted_def)
  then have tg: "on_grid (min wanted (reserved ?r - spent ?r))" using g by simp
  then show "on_grid taken" "0 \<le> taken" using g by (auto simp: taken_def)
  show "spent (m_reservation m') = spent ?r + taken" "m_pendingCredits m' = m_pendingCredits m + taken"
    "reserved (m_reservation m') = reserved ?r" "m_closed m' = m_closed m"
    "m_flushSequence m' = m_flushSequence m" "m_ratePerSecond m' = m_ratePerSecond m"
    using assms(2) g tg w
    unfolding charge_def Let_def wanted_def [symmetric] rem taken_def
    by (auto simp: same_money_def split: if_splits dest!: enterGrace_same)
qed

lemma books_charge:
  assumes "books m calls credit" and "charge m ms now = (ev, m')"
  shows "books m' calls credit"
proof -
  note c = charge_spec [OF assms]
  have "spent (m_reservation m') \<le> reserved (m_reservation m')"
    unfolding c(1,3) using assms(1) by (auto simp: books_def)
  then show ?thesis using assms(1) c by (simp add: books_def)
qed

lemma books_topUp:
  assumes "books m calls credit" and "0 \<le> granted r" and "on_grid (granted r)"
    and "topUp_result m now r = (ev, m')"
  shows "books m' calls (credit + granted r) \<and> m_closed m' = m_closed m"
proof (cases "granted r > 0")
  case True
  then show ?thesis using assms by (auto simp: topUp_result_def Let_def books_def)
next
  case False
  let ?m = "m\<lparr>m_balanceRemaining := rr_balanceRemaining r\<rparr>"
  have s: "same_money m ?m" by (simp add: same_money_def)
  have g: "enterGrace ?m now = (ev, m')" "granted r = 0"
    using False assms by (auto simp: topUp_result_def Let_def)
  have "same_money m m'" by (rule same_money_trans [OF s enterGrace_same [OF g(1)]])
  then show ?thesis using books_same [OF assms(1)] g(2) by (simp add: same_money_def)
qed

lemma books_close_release:
  assumes "books m calls credit" and "close_release m = (ev, m', k)"
  shows "books m' (calls @ calls_of k) credit \<and> reserved (m_reservation m') = spent (m_reservation m')
     \<and> spent (m_reservation m') = spent (m_reservation m) \<and> m_closed m' = m_closed m
     \<and> (k = Finished \<or> (\<exists>x. k = Await (Call_release x) Close_release \<and> 0 < x))"
proof -
  let ?r = "m_reservation m"
  have g: "on_grid (reserved ?r)" "on_grid (spent ?r)" "spent ?r \<le> reserved ?r"
    using assms(1) by (auto simp: books_def)
  then have u: "releaseUnused ?r = reserved ?r - spent ?r"
    by (simp add: releaseUnused_def reservationRemaining_def)
  show ?thesis
    using assms g by (auto simp: close_release_def Let_def u books_def split: if_splits)
qed

lemma books_tick_start:
  assumes "books m calls credit" and "tick_start m now = (ev, m', k)"
  shows "books m' (calls @ calls_of k) credit \<and> m_closed m' = m_closed m
     \<and> (k = Finished \<or> (\<exists>x. k = Await (Call_reserve x) (Tick_reserve now)) \<or> (\<exists>e. k = Await (Call_flush e) (Tick_flush now)))"
proof (cases "m_closed m")
  case True
  then show ?thesis using assms by (simp add: tick_start_def)
next
  case False
  let ?m = "m\<lparr>m_lastTickAt := now\<rparr>" and ?ms = "max 0 (now - m_lastTickAt m)"
  have b: "books ?m calls credit" using assms(1) by (simp add: books_def)
  obtain ev1 m1 where ch: "(if \<not> idle_at ?m now \<and> ?ms > 0 then charge ?m ?ms now else ([], ?m)) = (ev1, m1)" by fastforce
  have b1: "books m1 calls credit" "m_closed m1 = m_closed m"
    using ch b books_charge [OF b] charge_spec(4) [OF b] by (auto split: if_splits)
  show ?thesis
  proof (cases "topUp_want m1")
    case (Some want)
    then have "m' = m1" "k = Await (Call_reserve want) (Tick_reserve now)"
      using assms(2) False ch by (auto simp: tick_start_def Let_def)
    then show ?thesis using b1 by (auto simp: books_def)
  next
    case None
    obtain ev2 where "tick_flush m1 now = (ev2, m', k)"
      using assms(2) False ch None by (auto simp: tick_start_def Let_def split: prod.splits)
    from books_tick_flush [OF b1(1) this] show ?thesis using b1(2) by auto
  qed
qed

lemma books_close_start:
  assumes "books m calls credit" and "close_start m now = (ev, m', k)"
  shows "books m' (calls @ calls_of k) credit \<and> m_closed m'
     \<and> (k = Finished \<or> (\<exists>e. k = Await (Call_flush e) Close_flush) \<or> (\<exists>x. k = Await (Call_release x) Close_release))"
proof (cases "m_closed m")
  case True
  then show ?thesis using assms by (simp add: close_start_def)
next
  case False
  let ?m = "m\<lparr>m_closed := True\<rparr>"
  have b: "books ?m calls credit" using assms(1) by (simp add: books_def)
  obtain entry m1 where f: "flushNow ?m now = (entry, m1)" by fastforce
  note bf = books_flushNow [OF b f]
  show ?thesis
  proof (cases entry)
    case None
    then have "close_release m1 = (ev, m', k)" using assms(2) False f by (simp add: close_start_def)
    moreover have b1: "books m1 calls credit" using bf None books_same [OF b] by simp
    ultimately have "close_release m1 = (ev, m', k)" by blast
    from books_close_release [OF b1 this] show ?thesis using bf by auto
  next
    case (Some e)
    then show ?thesis using assms(2) False f bf by (auto simp: close_start_def)
  qed
qed

lemma books_resume:
  assumes "books m calls credit" and "resume m wt a = (ev, m', k)"
    and "case a of Reserved r \<Rightarrow> 0 \<le> granted r \<and> on_grid (granted r) \<and> (\<exists>now. wt = Tick_reserve now) | _ \<Rightarrow> True"
  shows "books m' (calls @ calls_of k) (credit + answer_credit a) \<and> m_closed m' = m_closed m"
proof (cases wt)
  case (Tick_reserve now)
  show ?thesis
  proof (cases a)
    case (Reserved r)
    obtain ev1 m1 where t: "topUp_result m now r = (ev1, m1)" by fastforce
    obtain ev2 where "tick_flush m1 now = (ev2, m', k)"
      using assms(2) Tick_reserve Reserved t by (auto split: prod.splits)
    moreover have b1: "books m1 calls (credit + granted r) \<and> m_closed m1 = m_closed m"
      by (rule books_topUp [OF assms(1) _ _ t]) (use assms(3) Reserved in auto)
    ultimately have "tick_flush m1 now = (ev2, m', k)" by blast
    from books_tick_flush [OF conjunct1 [OF b1] this] show ?thesis using b1 Reserved by simp
  qed (use assms Tick_reserve in auto)
next
  case (Tick_flush now)
  obtain ev1 where "tick_end m now = (ev1, m', k)"
    using assms(2) Tick_flush by (auto split: prod.splits)
  note s = tick_end_same [OF this]
  have "books m' calls credit" using books_same [OF assms(1) conjunct1 [OF s]] .
  then show ?thesis
    using assms(3) Tick_flush s by (cases a) (auto simp: same_money_def)
next
  case Close_flush
  obtain ev1 where "close_release m = (ev1, m', k)"
    using assms(2) Close_flush by (auto split: prod.splits)
  from books_close_release [OF assms(1) this] show ?thesis
    using assms(3) Close_flush by (cases a) auto
next
  case Close_release
  then show ?thesis using assms by (cases a) auto
qed

section \<open>Every interleaving keeps the books\<close>

fun wait_ok :: "gateway_call \<times> meter_wait \<Rightarrow> bool" where
  "wait_ok (Call_reserve x, Tick_reserve now) = True"
| "wait_ok (Call_flush e, Tick_flush now) = True"
| "wait_ok (Call_flush e, Close_flush) = True"
| "wait_ok (Call_release x, Close_release) = True"
| "wait_ok _ = False"

definition world_ok :: "meter_world \<Rightarrow> bool" where
  "world_ok w \<longleftrightarrow> books (w_meter w) (w_calls w) (w_credit w) \<and> (\<forall>c \<in> set (w_waits w). wait_ok c)"

lemma resume_waits:
  assumes "resume m wt a = (ev, m', k)"
  shows "\<forall>c \<in> set (waits_of k). wait_ok c"
    and "wt \<noteq> Close_flush \<Longrightarrow> released (calls_of k) = 0 \<and> (\<forall>c \<in> set (waits_of k). snd c \<noteq> Close_flush)"
proof -
  have tf: "(\<forall>c \<in> set (waits_of k). wait_ok c) \<and> released (calls_of k) = 0 \<and> (\<forall>c \<in> set (waits_of k). snd c \<noteq> Close_flush)"
    if "tick_flush m1 now = (ev1, m', k)" for m1 now ev1
    using that by (auto simp: tick_flush_def tick_end_def split: if_splits prod.splits option.splits)
  have all: "(\<forall>c \<in> set (waits_of k). wait_ok c) \<and>
      (wt \<noteq> Close_flush \<longrightarrow> released (calls_of k) = 0 \<and> (\<forall>c \<in> set (waits_of k). snd c \<noteq> Close_flush))"
  proof (cases wt)
    case (Tick_reserve now)
    then show ?thesis using assms tf by (cases a) (auto split: prod.splits)
  next
    case (Tick_flush now)
    then show ?thesis using assms by (auto simp: tick_end_def split: prod.splits)
  next
    case Close_flush
    then show ?thesis using assms by (auto simp: close_release_def Let_def split: prod.splits if_splits)
  next
    case Close_release
    then show ?thesis using assms by auto
  qed
  then show "\<forall>c \<in> set (waits_of k). wait_ok c"
    and "wt \<noteq> Close_flush \<Longrightarrow> released (calls_of k) = 0 \<and> (\<forall>c \<in> set (waits_of k). snd c \<noteq> Close_flush)" by auto
qed

lemma apply_outcome_fields [simp]:
  "w_meter (apply_outcome w (ev, m, k)) = m" "w_waits (apply_outcome w (ev, m, k)) = w_waits w @ waits_of k"
  "w_calls (apply_outcome w (ev, m, k)) = w_calls w @ calls_of k"
  "w_credit (apply_outcome w (ev, m, k)) = w_credit w"
  "w_events (apply_outcome w (ev, m, k)) = w_events w @ ev"
  by (simp_all add: apply_outcome_def)

lemma answer_fits:
  assumes "wait_ok (call, wt)" and "answer_ok call a"
  shows "case a of Reserved r \<Rightarrow> 0 \<le> granted r \<and> on_grid (granted r) \<and> (\<exists>now. wt = Tick_reserve now) | _ \<Rightarrow> True"
  using assms by (cases "(call, wt)" rule: wait_ok.cases; cases a) auto

lemma meter_step_ok:
  assumes "meter_step w w'" and "world_ok w"
  shows "world_ok w'"
  using assms
proof (induction rule: meter_step.induct)
  case (audio w atMs)
  then show ?case by (simp add: world_ok_def books_def markAudio_def)
next
  case (tick w now)
  obtain ev m k where t: "tick_start (w_meter w) now = (ev, m, k)" by (metis prod_cases3)
  have "books m (w_calls w @ calls_of k) (w_credit w) \<and> (\<forall>c \<in> set (waits_of k). wait_ok c)"
    using books_tick_start [of "w_meter w" "w_calls w" "w_credit w", OF _ t] tick by (auto simp: world_ok_def)
  then show ?case using tick by (auto simp: world_ok_def t)
next
  case (close w now)
  obtain ev m k where t: "close_start (w_meter w) now = (ev, m, k)" by (metis prod_cases3)
  have "books m (w_calls w @ calls_of k) (w_credit w) \<and> (\<forall>c \<in> set (waits_of k). wait_ok c)"
    using books_close_start [of "w_meter w" "w_calls w" "w_credit w", OF _ t] close by (auto simp: world_ok_def)
  then show ?case using close by (auto simp: world_ok_def t)
next
  case (answer w xs call wt ys a)
  obtain ev m k where t: "resume (w_meter w) wt a = (ev, m, k)" by (metis prod_cases3)
  have "wait_ok (call, wt)" using answer by (auto simp: world_ok_def)
  from answer_fits [OF this answer(2)]
  have "books m (w_calls w @ calls_of k) (w_credit w + answer_credit a)"
    using books_resume [of "w_meter w" "w_calls w" "w_credit w", OF _ t] answer(3) by (auto simp: world_ok_def)
  then show ?case using answer(1,3) resume_waits(1) [OF t] by (auto simp: world_ok_def t)
qed

lemma new_meter_books:
  "on_grid (mo_reserved opts) \<Longrightarrow> 0 \<le> mo_reserved opts \<Longrightarrow> books (new_meter opts now) [] (mo_reserved opts)"
  by (simp add: books_def new_meter_def)

lemma meter_reach_ok:
  assumes "meter_reach opts now w" and "on_grid (mo_reserved opts)" and "0 \<le> mo_reserved opts"
  shows "world_ok w"
  using assms
proof (induction rule: meter_reach.induct)
  case start
  then show ?case by (simp add: world_ok_def world_start_def new_meter_books)
next
  case (step w w')
  then show ?case using meter_step_ok by blast
qed

section \<open>Every warning once\<close>

definition flag :: "bool \<Rightarrow> nat" where
  "flag b = (if b then 1 else 0)"

definition says :: "meter \<Rightarrow> meter_event list \<Rightarrow> meter \<Rightarrow> bool" where
  "says m ev m' \<longleftrightarrow>
     flag (m_exhausted m) + count_list ev On_exhausted = flag (m_exhausted m')
     \<and> flag (m_warnedCritical m) + count_list ev (On_notice Level_error CREDITS_CRITICAL) = flag (m_warnedCritical m')
     \<and> flag (m_warnedLow m) + count_list ev (On_notice Level_warn LOW_CREDITS) = flag (m_warnedLow m')"

definition same_flags :: "meter \<Rightarrow> meter \<Rightarrow> bool" where
  "same_flags m m' \<longleftrightarrow> m_exhausted m' = m_exhausted m \<and> m_warnedCritical m' = m_warnedCritical m
     \<and> m_warnedLow m' = m_warnedLow m"

lemma says_Nil [simp]: "says m [] m' = same_flags m m'"
  by (auto simp: says_def same_flags_def flag_def)

lemma same_flags_refl [simp]: "same_flags m m"
  by (simp add: same_flags_def)

lemma says_append: "says m ev m' \<Longrightarrow> says m' ev' m'' \<Longrightarrow> says m (ev @ ev') m''"
  by (simp add: says_def)

lemma says_same: "same_flags m m' \<Longrightarrow> says m' ev m'' \<Longrightarrow> says m ev m''"
  by (simp add: says_def same_flags_def)

lemma says_Cons_other:
  "e \<noteq> On_exhausted \<Longrightarrow> (\<And>l c. e \<noteq> On_notice l c) \<Longrightarrow> says m (e # ev) m' = says m ev m'"
  by (simp add: says_def)

lemma enterGrace_says: "enterGrace m now = (ev, m') \<Longrightarrow> says m ev m'"
  by (auto simp: enterGrace_def Let_def says_def flag_def split: if_splits)

lemma checkGrace_says: "checkGrace m now = (ev, m') \<Longrightarrow> says m ev m'"
  by (auto simp: checkGrace_def says_def flag_def split: if_splits option.splits)

lemma emitCredits_says: "emitCredits m = (ev, m') \<Longrightarrow> says m ev m'"
  by (auto simp: emitCredits_def Let_def says_def flag_def split: if_splits)

lemma charge_says: "charge m ms now = (ev, m') \<Longrightarrow> says m ev m'"
  by (auto simp: charge_def Let_def same_flags_def split: if_splits dest!: enterGrace_says)
     (simp_all add: says_def)

lemma topUp_says: "topUp_result m now r = (ev, m') \<Longrightarrow> says m ev m'"
  by (auto simp: topUp_result_def Let_def same_flags_def split: if_splits dest!: enterGrace_says)
     (simp add: says_def)

lemma flushNow_flags: "flushNow m now = (entry, m') \<Longrightarrow> same_flags m m'"
  by (auto simp: flushNow_def Let_def same_flags_def split: if_splits)

lemma tick_end_says: "tick_end m now = (ev, m', k) \<Longrightarrow> says m ev m'"
  by (auto simp: tick_end_def split: prod.splits intro: says_append emitCredits_says checkGrace_says)

lemma tick_flush_says: "tick_flush m now = (ev, m', k) \<Longrightarrow> says m ev m'"
  by (auto simp: tick_flush_def split: if_splits prod.splits option.splits
      intro: tick_end_says says_same flushNow_flags)

lemma close_release_says: "close_release m = (ev, m', k) \<Longrightarrow> says m ev m'"
  by (auto simp: close_release_def Let_def same_flags_def split: if_splits)

lemma tick_start_says:
  assumes "tick_start m now = (ev, m', k)"
  shows "says m ev m'"
proof (cases "m_closed m")
  case True
  then show ?thesis using assms by (simp add: tick_start_def)
next
  case False
  let ?m = "m\<lparr>m_lastTickAt := now\<rparr>" and ?ms = "max 0 (now - m_lastTickAt m)"
  obtain ev1 m1 where ch: "(if \<not> idle_at ?m now \<and> ?ms > 0 then charge ?m ?ms now else ([], ?m)) = (ev1, m1)" by fastforce
  then have "says ?m ev1 m1" by (auto split: if_splits intro: charge_says)
  then have 1: "says m ev1 m1" by (rule says_same [rotated]) (simp add: same_flags_def)
  show ?thesis
  proof (cases "topUp_want m1")
    case (Some want)
    then show ?thesis using assms False ch 1 by (auto simp: tick_start_def Let_def)
  next
    case None
    obtain ev2 where f: "tick_flush m1 now = (ev2, m', k)" and ev: "ev = ev1 @ ev2"
      using assms False ch None by (auto simp: tick_start_def Let_def split: prod.splits)
    show ?thesis unfolding ev by (rule says_append [OF 1 tick_flush_says [OF f]])
  qed
qed

lemma close_start_says:
  assumes "close_start m now = (ev, m', k)"
  shows "says m ev m'"
proof (cases "m_closed m")
  case True
  then show ?thesis using assms by (simp add: close_start_def)
next
  case False
  obtain entry m1 where f: "flushNow (m\<lparr>m_closed := True\<rparr>) now = (entry, m1)" by fastforce
  have s: "same_flags m m1" using flushNow_flags [OF f] by (simp add: same_flags_def)
  show ?thesis
  proof (cases entry)
    case None
    then have "close_release m1 = (ev, m', k)" using assms False f by (simp add: close_start_def)
    then show ?thesis by (rule says_same [OF s close_release_says])
  next
    case (Some e)
    then show ?thesis using assms False f s by (simp add: close_start_def)
  qed
qed

lemma flush_events_says: "says m ev m' \<Longrightarrow> says m (flush_events a @ ev) m'"
  by (simp add: flush_events_def says_Cons_other)

lemma resume_says:
  assumes "resume m wt a = (ev, m', k)"
  shows "says m ev m'"
proof (cases wt)
  case (Tick_reserve now)
  show ?thesis
  proof (cases a)
    case (Reserved r)
    obtain ev1 m1 where t: "topUp_result m now r = (ev1, m1)" by fastforce
    obtain ev2 where f: "tick_flush m1 now = (ev2, m', k)" and ev: "ev = ev1 @ ev2"
      using assms Tick_reserve Reserved t by (auto split: prod.splits)
    show ?thesis unfolding ev by (rule says_append [OF topUp_says [OF t] tick_flush_says [OF f]])
  qed (use assms Tick_reserve in auto)
next
  case (Tick_flush now)
  then obtain ev1 where "tick_end m now = (ev1, m', k)" "ev = flush_events a @ ev1"
    using assms by (auto split: prod.splits)
  then show ?thesis using flush_events_says tick_end_says by blast
next
  case Close_flush
  then obtain ev1 where "close_release m = (ev1, m', k)" "ev = flush_events a @ ev1"
    using assms by (auto split: prod.splits)
  then show ?thesis using flush_events_says close_release_says by blast
next
  case Close_release
  then show ?thesis using assms by simp
qed

definition events_ok :: "meter_world \<Rightarrow> bool" where
  "events_ok w \<longleftrightarrow>
     count_list (w_events w) On_exhausted = flag (m_exhausted (w_meter w))
     \<and> count_list (w_events w) (On_notice Level_error CREDITS_CRITICAL) = flag (m_warnedCritical (w_meter w))
     \<and> count_list (w_events w) (On_notice Level_warn LOW_CREDITS) = flag (m_warnedLow (w_meter w))"

lemma events_ok_says:
  assumes "events_ok w" and "says (w_meter w) ev m'"
    and "w_meter w' = m'" and "w_events w' = w_events w @ ev"
  shows "events_ok w'"
  using assms by (simp add: events_ok_def says_def)

lemma meter_step_events:
  assumes "meter_step w w'" and "events_ok w"
  shows "events_ok w'"
  using assms
proof (induction rule: meter_step.induct)
  case (audio w atMs)
  then show ?case by (simp add: events_ok_def markAudio_def)
next
  case (tick w now)
  obtain ev m k where t: "tick_start (w_meter w) now = (ev, m, k)" by (metis prod_cases3)
  show ?case by (rule events_ok_says [OF tick tick_start_says [OF t]]) (simp_all add: t)
next
  case (close w now)
  obtain ev m k where t: "close_start (w_meter w) now = (ev, m, k)" by (metis prod_cases3)
  show ?case by (rule events_ok_says [OF close close_start_says [OF t]]) (simp_all add: t)
next
  case (answer w xs call wt ys a)
  obtain ev m k where t: "resume (w_meter w) wt a = (ev, m, k)" by (metis prod_cases3)
  show ?case by (rule events_ok_says [OF answer(3) resume_says [OF t]]) (simp_all add: t)
qed

lemma meter_reach_events: "meter_reach opts now w \<Longrightarrow> events_ok w"
proof (induction rule: meter_reach.induct)
  case start
  show ?case by (simp add: events_ok_def world_start_def new_meter_def flag_def)
next
  case (step w w')
  then show ?case using meter_step_events by blast
qed

end
