(* ===== verification/Ledger_Gateway.thy ===== *)
theory Ledger_Gateway
  imports Metering
begin

text \<open>
  \<open>apps/relay/src/metering.ts\<close>, \<open>createLedgerGateway\<close>: reservations as a hold in Redis, usage as
  rows of the ledger and a materialised balance in Postgres. The interface the meter relies on is
  the locale \<open>meter_gateway\<close>; the gateway of the code interprets it.
\<close>

section \<open>State\<close>

record balances_row =
  row_balance :: jsnum
  row_trial :: jsnum
  row_subscription :: jsnum
  row_topup :: jsnum

record usage_row =
  use_delta :: jsnum
  use_bucket :: credit_bucket
  use_sessionId :: string
  use_key :: string
  use_billableSeconds :: int

text \<open>The row of the user in \<open>credit_balances\<close> (if any), the rows this user's sessions have in the
  ledger, and the value of the Redis key \<open>hold:<user>\<close> (\<open>None\<close> when it does not exist).\<close>

record gateway =
  gw_row :: "balances_row option"
  gw_usage :: "usage_row list"
  gw_hold :: "jsnum option"

definition HOLD_TTL_SECONDS :: int where
  "HOLD_TTL_SECONDS = 15 * 60"

section \<open>Operations\<close>

definition row_field :: "gateway \<Rightarrow> (balances_row \<Rightarrow> jsnum) \<Rightarrow> jsnum" where
  "row_field g f = (case gw_row g of None \<Rightarrow> 0 | Some r \<Rightarrow> f r)"

definition readBuckets :: "gateway \<Rightarrow> bucket_balance list" where
  "readBuckets g =
     [\<lparr>bal_bucket = Bucket_trial, bal_balance = row_field g row_trial, bal_expiresAt = None\<rparr>,
      \<lparr>bal_bucket = Bucket_subscription, bal_balance = row_field g row_subscription, bal_expiresAt = None\<rparr>,
      \<lparr>bal_bucket = Bucket_topup, bal_balance = row_field g row_topup, bal_expiresAt = None\<rparr>]"

definition bucketAmount :: "(credit_bucket \<times> jsnum) list \<Rightarrow> credit_bucket \<Rightarrow> jsnum" where
  "bucketAmount parts b = (case find (\<lambda>p. fst p = b) parts of None \<Rightarrow> 0 | Some p \<Rightarrow> snd p)"

definition hold_value :: "gateway \<Rightarrow> jsnum" where
  "hold_value g = (case gw_hold g of None \<Rightarrow> 0 | Some h \<Rightarrow> h)"

text \<open>\<open>redis.incrbyfloat\<close>; the \<open>expire\<close> that follows only sets the time to live.\<close>

definition incr_hold :: "jsnum \<Rightarrow> gateway \<Rightarrow> gateway" where
  "incr_hold x g = g\<lparr>gw_hold := Some (hold_value g + x)\<rparr>"

text \<open>The time to live passes: the hold is gone.\<close>

definition expire_hold :: "gateway \<Rightarrow> gateway" where
  "expire_hold g = g\<lparr>gw_hold := None\<rparr>"

text \<open>\<open>reserve\<close> in two parts: it reads and decides, and only then, after further awaits, adds to the hold.\<close>

definition reserve_decide :: "gateway \<Rightarrow> jsnum \<Rightarrow> reservation_result" where
  "reserve_decide g amount =
     (let available = round4 (foldl (\<lambda>s b. s + max 0 (bal_balance b)) 0 (readBuckets g) - hold_value g);
          grant = round4 (max 0 (min amount available))
      in \<lparr>granted = grant, rr_balanceRemaining = round4 (max 0 (available - grant))\<rparr>)"

definition reserve_commit :: "gateway \<Rightarrow> reservation_result \<Rightarrow> gateway" where
  "reserve_commit g r = (if granted r > 0 then incr_hold (granted r) g else g)"

definition gw_reserve :: "gateway \<Rightarrow> jsnum \<Rightarrow> reservation_result \<times> gateway" where
  "gw_reserve g amount = (reserve_decide g amount, reserve_commit g (reserve_decide g amount))"

definition bucket_name :: "credit_bucket \<Rightarrow> string" where
  "bucket_name b = (case b of Bucket_trial \<Rightarrow> ''trial'' | Bucket_subscription \<Rightarrow> ''subscription'' | Bucket_topup \<Rightarrow> ''topup'')"

definition usage_key :: "string \<Rightarrow> nat \<Rightarrow> credit_bucket \<Rightarrow> string" where
  "usage_key sid n b = ''sess:'' @ sid @ '':'' @ show_nat n @ '':'' @ bucket_name b"

text \<open>\<open>insert \<dots> onConflictDoNothing\<close> on the unique idempotency key.\<close>

definition insert_usage :: "usage_row \<Rightarrow> usage_row list \<Rightarrow> usage_row list" where
  "insert_usage u us = (if use_key u \<in> set (map use_key us) then us else us @ [u])"

definition insert_part :: "string \<Rightarrow> ledger_flush \<Rightarrow> usage_row list \<Rightarrow> credit_bucket \<times> jsnum \<Rightarrow> usage_row list" where
  "insert_part sid entry us part =
     (if snd part \<le> 0 then us
      else insert_usage
        \<lparr>use_delta = - snd part, use_bucket = fst part, use_sessionId = sid,
         use_key = usage_key sid (fl_sequence entry) (fst part),
         use_billableSeconds = fl_billableSeconds entry\<rparr> us)"

text \<open>\<open>flush\<close> in two parts: it reads the balances and plans, and then writes the plan in one transaction.\<close>

definition flush_plan :: "gateway \<Rightarrow> ledger_flush \<Rightarrow> spend_plan" where
  "flush_plan g entry = planSpend (readBuckets g) (fl_credits entry)"

definition flush_write :: "string \<Rightarrow> gateway \<Rightarrow> ledger_flush \<Rightarrow> spend_plan \<Rightarrow> gateway" where
  "flush_write sid g entry plan =
     incr_hold (- covered plan)
       (g\<lparr>gw_usage := foldl (insert_part sid entry) (gw_usage g) (perBucket plan),
          gw_row := map_option (\<lambda>r. r
            \<lparr>row_balance := row_balance r - covered plan,
             row_trial := row_trial r - bucketAmount (perBucket plan) Bucket_trial,
             row_subscription := row_subscription r - bucketAmount (perBucket plan) Bucket_subscription,
             row_topup := row_topup r - bucketAmount (perBucket plan) Bucket_topup\<rparr>) (gw_row g)\<rparr>)"

definition gw_flush :: "string \<Rightarrow> gateway \<Rightarrow> ledger_flush \<Rightarrow> gateway" where
  "gw_flush sid g entry =
     (if fl_credits entry \<le> 0 then g else flush_write sid g entry (flush_plan g entry))"

definition gw_release :: "gateway \<Rightarrow> jsnum \<Rightarrow> gateway" where
  "gw_release g amount = (if amount \<le> 0 then g else incr_hold (- amount) g)"

section \<open>The interface\<close>

text \<open>
  What the meter may rely on: a reservation is between nothing and what was asked for, and within
  what is not yet held; it adds to the hold exactly what it grants. A flush moves what it covers,
  at most its credits and at most the funds, out of the funds and out of the hold. A release
  takes the amount out of the hold.
\<close>

locale meter_gateway =
  fixes ok :: "'g \<Rightarrow> bool"
    and reserve :: "'g \<Rightarrow> jsnum \<Rightarrow> reservation_result \<times> 'g"
    and flush :: "'g \<Rightarrow> ledger_flush \<Rightarrow> 'g"
    and release :: "'g \<Rightarrow> jsnum \<Rightarrow> 'g"
    and held :: "'g \<Rightarrow> jsnum"
    and funds :: "'g \<Rightarrow> jsnum"
  assumes reserve_law: "ok g \<Longrightarrow> on_grid x \<Longrightarrow> reserve g x = (r, g') \<Longrightarrow>
      ok g' \<and> on_grid (granted r) \<and> granted r = max 0 (min x (funds g - held g))
      \<and> held g' = held g + granted r \<and> funds g' = funds g"
    and flush_law: "ok g \<Longrightarrow> on_grid (fl_credits e) \<Longrightarrow> 0 \<le> fl_credits e \<Longrightarrow>
      ok (flush g e) \<and> funds (flush g e) = funds g - min (fl_credits e) (funds g)
      \<and> held (flush g e) = held g - min (fl_credits e) (funds g)"
    and release_law: "ok g \<Longrightarrow> on_grid x \<Longrightarrow> 0 \<le> x \<Longrightarrow>
      ok (release g x) \<and> held (release g x) = held g - x \<and> funds (release g x) = funds g"
    and funds_nonneg: "ok g \<Longrightarrow> 0 \<le> funds g"
    and grid_law: "ok g \<Longrightarrow> on_grid (held g) \<and> on_grid (funds g)"
begin

text \<open>One call of a meter, made and answered at once.\<close>

fun perform :: "'g \<Rightarrow> gateway_call \<Rightarrow> gateway_answer \<times> 'g" where
  "perform g (Call_reserve x) = (Reserved (fst (reserve g x)), snd (reserve g x))"
| "perform g (Call_flush e) = (Done, flush g e)"
| "perform g (Call_release x) = (Done, release g x)"

fun call_fine :: "gateway_call \<Rightarrow> bool" where
  "call_fine (Call_reserve x) = on_grid x"
| "call_fine (Call_flush e) = (on_grid (fl_credits e) \<and> 0 \<le> fl_credits e)"
| "call_fine (Call_release x) = (on_grid x \<and> 0 \<le> x)"

lemma perform_ok:
  assumes "ok g" and "call_fine c" and "perform g c = (a, g')"
  shows "ok g' \<and> answer_ok c a"
proof (cases c)
  case (Call_reserve x)
  obtain r g1 where r: "reserve g x = (r, g1)" by fastforce
  show ?thesis using reserve_law [OF assms(1) _ r] assms Call_reserve r by auto
qed (use assms flush_law release_law in auto)

text \<open>Money on hold never exceeds the funds: no two sessions are promised the same credit.\<close>

lemma held_within_funds:
  assumes "ok g" and "call_fine c" and "perform g c = (a, g')" and "held g \<le> funds g"
  shows "held g' \<le> funds g'"
proof (cases c)
  case (Call_reserve x)
  obtain r g1 where r: "reserve g x = (r, g1)" by fastforce
  have "granted r \<le> funds g - held g"
    using reserve_law [OF assms(1) _ r] assms(2,4) Call_reserve by simp
  then show ?thesis using reserve_law [OF assms(1) _ r] assms(2,3) Call_reserve r by simp
next
  case (Call_flush e)
  then show ?thesis using flush_law [OF assms(1), of e] assms(2-4) by auto
next
  case (Call_release x)
  then show ?thesis using release_law [OF assms(1), of x] assms(2-4) by auto
qed

text \<open>As long as the hold stays within the funds, a flush of held credits is covered in full.\<close>

lemma flush_of_held_is_covered:
  assumes "ok g" and "held g \<le> funds g" and "on_grid (fl_credits e)" and "0 \<le> fl_credits e" and "fl_credits e \<le> held g"
  shows "funds (flush g e) = funds g - fl_credits e \<and> held (flush g e) = held g - fl_credits e"
proof -
  have "min (fl_credits e) (funds g) = fl_credits e" using assms(2,5) by simp
  then show ?thesis using flush_law [OF assms(1,3,4)] by simp
qed

text \<open>What a sequence of calls does to the hold.\<close>

fun perform_all :: "'g \<Rightarrow> gateway_call list \<Rightarrow> gateway_answer list \<times> 'g" where
  "perform_all g [] = ([], g)"
| "perform_all g (c # cs) =
     (case perform g c of (a, g') \<Rightarrow> (case perform_all g' cs of (as, g'') \<Rightarrow> (a # as, g'')))"

lemma perform_all_within:
  "ok g \<Longrightarrow> held g \<le> funds g \<Longrightarrow> list_all call_fine cs \<Longrightarrow> perform_all g cs = (as, g') \<Longrightarrow>
     ok g' \<and> held g' \<le> funds g' \<and> list_all2 answer_ok cs as"
proof (induction cs arbitrary: g as)
  case (Cons c cs)
  obtain a g1 where p: "perform g c = (a, g1)" by fastforce
  obtain as' g2 where ps: "perform_all g1 cs = (as', g2)" by fastforce
  have "ok g1 \<and> answer_ok c a" "held g1 \<le> funds g1"
    using perform_ok [OF _ _ p] held_within_funds [OF _ _ p] Cons.prems by auto
  then show ?case using Cons.IH [of g1 as'] Cons.prems p ps by auto
qed auto

end

section \<open>The gateway of the code meets the interface\<close>

definition gw_ok :: "gateway \<Rightarrow> bool" where
  "gw_ok g \<longleftrightarrow>
     on_grid (row_field g row_trial) \<and> on_grid (row_field g row_subscription) \<and> on_grid (row_field g row_topup)
     \<and> on_grid (hold_value g)"

definition gw_funds :: "gateway \<Rightarrow> jsnum" where
  "gw_funds g = max 0 (row_field g row_trial) + max 0 (row_field g row_subscription) + max 0 (row_field g row_topup)"

lemma gw_funds_nonneg [simp]: "0 \<le> gw_funds g"
  by (simp add: gw_funds_def)

lemma gw_funds_on_grid [simp]: "gw_ok g \<Longrightarrow> on_grid (gw_funds g)"
  by (simp add: gw_ok_def gw_funds_def)

lemma readBuckets_grid: "gw_ok g \<Longrightarrow> balances_on_grid (readBuckets g)"
  by (simp add: gw_ok_def balances_on_grid_def readBuckets_def)

lemma readBuckets_distinct: "distinct (map bal_bucket (readBuckets g))"
  by (simp add: readBuckets_def)

lemma readBuckets_available:
  "available_in (readBuckets g) Bucket_trial = row_field g row_trial"
  "available_in (readBuckets g) Bucket_subscription = row_field g row_subscription"
  "available_in (readBuckets g) Bucket_topup = row_field g row_topup"
  by (simp_all add: readBuckets_def available_in_def)

lemma readBuckets_total: "gw_ok g \<Longrightarrow> totalAvailable (readBuckets g) = gw_funds g"
  using totalAvailable_exact [OF readBuckets_grid, of g] by (simp add: readBuckets_def gw_funds_def)

lemma incr_hold_fields [simp]:
  "row_field (incr_hold x g) f = row_field g f" "gw_funds (incr_hold x g) = gw_funds g"
  "hold_value (incr_hold x g) = hold_value g + x" "gw_row (incr_hold x g) = gw_row g"
  "gw_usage (incr_hold x g) = gw_usage g"
  by (simp_all add: incr_hold_def hold_value_def row_field_def gw_funds_def)

lemma hold_value_update [simp]: "hold_value (g\<lparr>gw_usage := u, gw_row := r\<rparr>) = hold_value g"
  by (simp add: hold_value_def)

lemma incr_hold_ok: "gw_ok g \<Longrightarrow> on_grid x \<Longrightarrow> gw_ok (incr_hold x g)"
  by (simp add: gw_ok_def)

lemma reserve_decide_granted:
  assumes "gw_ok g" and "on_grid x"
  shows "granted (reserve_decide g x) = max 0 (min x (gw_funds g - hold_value g))"
proof -
  have h: "on_grid (hold_value g)" using assms(1) by (simp add: gw_ok_def)
  have "foldl (\<lambda>s b. s + max 0 (bal_balance b)) 0 (readBuckets g) = gw_funds g"
    by (simp add: readBuckets_def gw_funds_def)
  then show ?thesis using assms h by (simp add: reserve_decide_def Let_def)
qed

text \<open>The parts of a plan, bucket by bucket.\<close>

lemma bucketAmount_bounds:
  "0 \<le> bucketAmount (drain bals bs w) b \<and> bucketAmount (drain bals bs w) b \<le> max 0 (available_in bals b)"
proof (cases "find (\<lambda>p. fst p = b) (drain bals bs w)")
  case None
  then show ?thesis by (simp add: bucketAmount_def)
next
  case (Some p)
  then have "(b, snd p) \<in> set (drain bals bs w)"
    by (auto simp: find_Some_iff)
  from drain_parts [OF this] show ?thesis using Some by (simp add: bucketAmount_def)
qed

lemma bucketAmount_Cons:
  "bucketAmount ((c, a) # parts) b = (if c = b then a else bucketAmount parts b)"
  by (simp add: bucketAmount_def)

lemma bucketAmount_absent: "b \<notin> fst ` set parts \<Longrightarrow> bucketAmount parts b = 0"
  by (induction parts) (auto simp: bucketAmount_Cons bucketAmount_def [of "[]"])

lemma bucketAmount_total:
  "distinct (map fst parts) \<Longrightarrow>
     amounts parts = bucketAmount parts Bucket_trial + bucketAmount parts Bucket_subscription + bucketAmount parts Bucket_topup"
proof (induction parts)
  case Nil
  then show ?case by (simp add: bucketAmount_def)
next
  case (Cons p parts)
  obtain c a where p: "p = (c, a)" by fastforce
  have "bucketAmount parts c = 0" using Cons.prems p by (intro bucketAmount_absent) auto
  then show ?case using Cons p by (cases c) (simp_all add: bucketAmount_Cons)
qed

lemma bucketAmount_on_grid:
  "\<forall>p \<in> set parts. on_grid (snd p) \<Longrightarrow> on_grid (bucketAmount parts b)"
  by (induction parts) (auto simp: bucketAmount_Cons bucketAmount_def [of "[]"])

lemma drain_parts_on_grid:
  "balances_on_grid bals \<Longrightarrow> on_grid w \<Longrightarrow> \<forall>p \<in> set (drain bals bs w). on_grid (snd p)"
proof (induction bs arbitrary: w)
  case (Cons b bs)
  let ?t = "min (max 0 (available_in bals b)) w"
  have t: "on_grid ?t" using Cons.prems by (simp add: available_in_on_grid)
  have "on_grid (w - ?t)" using Cons.prems(2) t by (rule on_grid_diff)
  from Cons.IH [OF Cons.prems(1) this]
  have "\<forall>p \<in> set (drain bals bs (w - ?t)). on_grid (snd p)" .
  then show ?case using t by (auto simp: Let_def)
qed simp

lemma max_0_minus: "0 \<le> a \<Longrightarrow> a \<le> max 0 x \<Longrightarrow> max 0 (x - a) = max 0 x - a" for a :: jsnum
  by (simp add: max_def split: if_splits)

text \<open>A flush, field by field.\<close>

lemma gw_flush_fields:
  assumes "gw_ok g" and "on_grid (fl_credits e)" and "0 < fl_credits e"
  defines "parts \<equiv> drain (readBuckets g) SPEND_ORDER (fl_credits e)"
  shows "row_field (gw_flush sid g e) row_trial = row_field g row_trial - bucketAmount parts Bucket_trial"
    and "row_field (gw_flush sid g e) row_subscription = row_field g row_subscription - bucketAmount parts Bucket_subscription"
    and "row_field (gw_flush sid g e) row_topup = row_field g row_topup - bucketAmount parts Bucket_topup"
    and "hold_value (gw_flush sid g e) = hold_value g - min (fl_credits e) (gw_funds g)"
    and "amounts parts = min (fl_credits e) (gw_funds g)"
proof -
  note f = planSpend_facts [OF readBuckets_grid [OF assms(1)] assms(2) less_imp_le [OF assms(3)] readBuckets_distinct]
  have cov: "covered (planSpend (readBuckets g) (fl_credits e)) = min (fl_credits e) (gw_funds g)"
    using f(3) readBuckets_total [OF assms(1)] by simp
  have per: "perBucket (planSpend (readBuckets g) (fl_credits e)) = parts"
    using f(1) by (simp add: parts_def)
  have absent: "bucketAmount parts b = 0" if "gw_row g = None" for b
    using bucketAmount_bounds [of "readBuckets g" SPEND_ORDER "fl_credits e" b] that
    by (cases b) (simp_all add: readBuckets_available row_field_def parts_def)
  show "amounts parts = min (fl_credits e) (gw_funds g)"
    using f(2) cov by (simp add: parts_def)
  show "hold_value (gw_flush sid g e) = hold_value g - min (fl_credits e) (gw_funds g)"
    using assms(3) cov by (simp add: gw_flush_def flush_write_def flush_plan_def)
  show "row_field (gw_flush sid g e) row_trial = row_field g row_trial - bucketAmount parts Bucket_trial"
    "row_field (gw_flush sid g e) row_subscription = row_field g row_subscription - bucketAmount parts Bucket_subscription"
    "row_field (gw_flush sid g e) row_topup = row_field g row_topup - bucketAmount parts Bucket_topup"
    using assms(3) absent by (cases "gw_row g"; simp add: gw_flush_def flush_write_def flush_plan_def per row_field_def)+
qed

lemma gw_flush_law:
  assumes "gw_ok g" and "on_grid (fl_credits e)" and "0 \<le> fl_credits e"
  shows "gw_ok (gw_flush sid g e) \<and> gw_funds (gw_flush sid g e) = gw_funds g - min (fl_credits e) (gw_funds g)
    \<and> hold_value (gw_flush sid g e) = hold_value g - min (fl_credits e) (gw_funds g)"
proof (cases "0 < fl_credits e")
  case False
  then show ?thesis using assms by (simp add: gw_flush_def)
next
  case True
  let ?parts = "drain (readBuckets g) SPEND_ORDER (fl_credits e)"
  note f = gw_flush_fields [OF assms(1,2) True]
  note bound = bucketAmount_bounds [of "readBuckets g" SPEND_ORDER "fl_credits e"]
  have split: "amounts ?parts =
      bucketAmount ?parts Bucket_trial + bucketAmount ?parts Bucket_subscription + bucketAmount ?parts Bucket_topup"
    by (rule bucketAmount_total) (rule drain_buckets_distinct, simp add: SPEND_ORDER_def)
  have grid: "on_grid (bucketAmount ?parts b)" for b
    using drain_parts_on_grid [OF readBuckets_grid [OF assms(1)] assms(2)] by (rule bucketAmount_on_grid)
  have "gw_ok (gw_flush sid g e)"
    using assms(1,2) grid by (simp add: gw_ok_def f(1-4))
  moreover have "gw_funds (gw_flush sid g e) = gw_funds g - amounts ?parts"
    unfolding gw_funds_def f(1-3) split
    using bound [of Bucket_trial] bound [of Bucket_subscription] bound [of Bucket_topup]
    by (simp add: readBuckets_available max_0_minus)
  ultimately show ?thesis using f(4,5) by simp
qed

interpretation lg: meter_gateway gw_ok gw_reserve "gw_flush sid" gw_release hold_value gw_funds for sid
proof
  fix g :: gateway and x :: jsnum and r g'
  assume ok: "gw_ok g" and x: "on_grid x" and res: "gw_reserve g x = (r, g')"
  have r: "r = reserve_decide g x" and g': "g' = reserve_commit g r"
    using res by (auto simp: gw_reserve_def)
  have "granted r = max 0 (min x (gw_funds g - hold_value g))"
    unfolding r by (rule reserve_decide_granted [OF ok x])
  moreover have "on_grid (max 0 (min x (gw_funds g - hold_value g)))"
    using ok x by (intro on_grid_max on_grid_min on_grid_diff) (simp_all add: gw_ok_def gw_funds_def)
  ultimately show "gw_ok g' \<and> on_grid (granted r) \<and> granted r = max 0 (min x (gw_funds g - hold_value g))
      \<and> hold_value g' = hold_value g + granted r \<and> gw_funds g' = gw_funds g"
    using ok by (auto simp: g' reserve_commit_def incr_hold_ok)
next
  fix g :: gateway and e :: ledger_flush
  assume "gw_ok g" and "on_grid (fl_credits e)" and "0 \<le> fl_credits e"
  then show "gw_ok (gw_flush sid g e) \<and> gw_funds (gw_flush sid g e) = gw_funds g - min (fl_credits e) (gw_funds g)
    \<and> hold_value (gw_flush sid g e) = hold_value g - min (fl_credits e) (gw_funds g)"
    by (rule gw_flush_law)
next
  fix g :: gateway and x :: jsnum
  assume "gw_ok g" and "on_grid x" and "0 \<le> x"
  then show "gw_ok (gw_release g x) \<and> hold_value (gw_release g x) = hold_value g - x
    \<and> gw_funds (gw_release g x) = gw_funds g"
    by (simp add: gw_release_def incr_hold_ok)
qed (simp_all add: gw_ok_def gw_funds_def)

end
