(* ===== verification/Billing_Session.thy ===== *)
theory Billing_Session
  imports Ledger_Gateway
begin

text \<open>
  A billed session as a whole: what holds of the meter in every interleaving of its methods with
  the answers of its gateway, what the gateway's hold promises, and where the promises end.
\<close>

section \<open>The meter in every interleaving\<close>

text \<open>
  C5: The books balance. In every interleaving of ticks, audio, close and gateway answers
  (rejections included): what was sent to the ledger plus what is still pending is what was spent;
  what is reserved plus what was handed back is the initial reservation plus what the gateway granted;
  the meter never spends beyond its reservation; and the flushes carry the
  numbers 1, 2, 3, \<dots> without gap or repetition, each with non-negative credits and seconds.
\<close>

theorem meter_books_balance:
  assumes "meter_reach opts now w" and "on_grid (mo_reserved opts)" and "0 \<le> mo_reserved opts"
  shows "billed (w_calls w) + m_pendingCredits (w_meter w) = spent (m_reservation (w_meter w))
     \<and> reserved (m_reservation (w_meter w)) + released (w_calls w) = w_credit w
     \<and> 0 \<le> billed (w_calls w) \<and> billed (w_calls w) \<le> spent (m_reservation (w_meter w))
     \<and> spent (m_reservation (w_meter w)) \<le> reserved (m_reservation (w_meter w))
     \<and> map fl_sequence (flushes (w_calls w)) = [1..<Suc (m_flushSequence (w_meter w))]
     \<and> (\<forall>e \<in> set (flushes (w_calls w)). 0 \<le> fl_credits e \<and> 0 \<le> fl_billableSeconds e)"
proof -
  have b: "books (w_meter w) (w_calls w) (w_credit w)"
    using meter_reach_ok [OF assms] by (simp add: world_ok_def)
  then have "\<forall>e \<in> set (flushes (w_calls w)). 0 \<le> fl_credits e" by (simp add: books_def)
  then have "0 \<le> billed (w_calls w)" by (auto simp: billed_def intro!: sum_list_nonneg)
  then show ?thesis using b by (auto simp: books_def)
qed

definition demo_options :: meter_options where
  "demo_options = \<lparr>mo_burn = \<lparr>targetLanguages = 1, burn_voiceEnabled = False\<rparr>, mo_reserved = 1, mo_balanceRemaining = 9\<rparr>"

definition demo_world :: "int \<Rightarrow> meter_world" where
  "demo_world t = apply_outcome (world_start demo_options 0) (tick_start (new_meter demo_options 0) t)"

lemma demo_world_reach: "meter_reach demo_options 0 (demo_world t)"
proof -
  have "meter_step (world_start demo_options 0) (demo_world t)"
    using meter_step.tick [of "world_start demo_options 0" t] by (simp add: demo_world_def world_start_def)
  then show ?thesis by (rule meter_reach.step [OF meter_reach.start])
qed

theorem meter_books_balance_witness:
  "billed (w_calls (demo_world 15000)) + m_pendingCredits (w_meter (demo_world 15000)) =
     spent (m_reservation (w_meter (demo_world 15000)))"
  using meter_books_balance [OF demo_world_reach, of 15000] by (simp add: demo_options_def)

text \<open>
  The studio is not nagged. In every interleaving a session raises at most one low-credit
  warning, at most one critical warning and at most one exhaustion, and the session is marked
  exhausted exactly when the exhaustion has been raised.
\<close>

theorem meter_warns_once:
  assumes "meter_reach opts now w"
  shows "count_list (w_events w) (On_notice Level_warn LOW_CREDITS) \<le> 1
     \<and> count_list (w_events w) (On_notice Level_error CREDITS_CRITICAL) \<le> 1
     \<and> count_list (w_events w) On_exhausted = (if m_exhausted (w_meter w) then 1 else 0)"
  using meter_reach_events [OF assms] by (simp add: events_ok_def flag_def)

theorem meter_warns_once_witness:
  "count_list (w_events (demo_world 15000)) (On_notice Level_error CREDITS_CRITICAL) \<le> 1"
  using meter_warns_once [OF demo_world_reach] by blast

text \<open>What a tick costs.\<close>

lemma tick_flush_keeps: "tick_flush m now = (ev, m', k) \<Longrightarrow> spent (m_reservation m') = spent (m_reservation m)"
  by (auto simp: tick_flush_def flushNow_def Let_def same_money_def split: if_splits prod.splits option.splits
      dest!: tick_end_same)

lemma tick_spent:
  assumes "books m calls credit" and "\<not> m_closed m" and "tick_start m now = (ev, m', k)"
  shows "spent (m_reservation m') = spent (m_reservation m) +
     (if now - m_lastAudioAt m \<ge> 20000 \<or> now \<le> m_lastTickAt m then 0
      else max 0 (min (round4 (of_int (now - m_lastTickAt m) / 1000 * m_ratePerSecond m))
                      (reserved (m_reservation m) - spent (m_reservation m))))"
proof -
  let ?m = "m\<lparr>m_lastTickAt := now\<rparr>" and ?ms = "max 0 (now - m_lastTickAt m)"
  have b: "books ?m calls credit" using assms(1) by (simp add: books_def)
  have le: "spent (m_reservation m) \<le> reserved (m_reservation m)" using assms(1) by (simp add: books_def)
  obtain ev1 m1 where ch: "(if \<not> idle_at ?m now \<and> ?ms > 0 then charge ?m ?ms now else ([], ?m)) = (ev1, m1)" by fastforce
  have idle: "idle_at ?m now \<longleftrightarrow> now - m_lastAudioAt m \<ge> 20000"
    by (simp add: idle_at_def SILENCE_PAUSE_MS_def)
  have "spent (m_reservation m') = spent (m_reservation m1)"
  proof (cases "topUp_want m1")
    case (Some want)
    then show ?thesis using assms(2,3) ch by (auto simp: tick_start_def Let_def)
  next
    case None
    then obtain ev2 where "tick_flush m1 now = (ev2, m', k)"
      using assms(2,3) ch by (auto simp: tick_start_def Let_def split: prod.splits)
    then show ?thesis by (rule tick_flush_keeps)
  qed
  also have "\<dots> = spent (m_reservation m) + (if now - m_lastAudioAt m \<ge> 20000 \<or> now \<le> m_lastTickAt m then 0
      else max 0 (min (round4 (of_int (now - m_lastTickAt m) / 1000 * m_ratePerSecond m))
                      (reserved (m_reservation m) - spent (m_reservation m))))"
  proof (cases "now - m_lastAudioAt m \<ge> 20000 \<or> now \<le> m_lastTickAt m")
    case True
    then show ?thesis using ch by (auto simp: idle split: if_splits)
  next
    case False
    then have "charge ?m (now - m_lastTickAt m) now = (ev1, m1)" using ch by (auto simp: idle split: if_splits)
    from charge_spec(1) [OF b this] show ?thesis using False le by (auto simp: max_def min_def)
  qed
  finally show ?thesis .
qed

text \<open>
  C25: What a second costs. In every reachable state a tick of an open meter takes nothing when no
  audio came for 20 seconds or no time has passed since the last tick; otherwise it takes the price of the
  elapsed time, rounded to four decimals, but never more than is left of the reservation.
\<close>

theorem tick_costs_exactly:
  assumes "meter_reach opts start w" and "on_grid (mo_reserved opts)" and "0 \<le> mo_reserved opts"
    and "\<not> m_closed (w_meter w)" and "tick_start (w_meter w) now = (ev, m', k)"
  shows "spent (m_reservation m') = spent (m_reservation (w_meter w)) +
     (if now - m_lastAudioAt (w_meter w) \<ge> 20000 \<or> now \<le> m_lastTickAt (w_meter w) then 0
      else max 0 (min (round4 (of_int (now - m_lastTickAt (w_meter w)) / 1000 * m_ratePerSecond (w_meter w)))
                      (reserved (m_reservation (w_meter w)) - spent (m_reservation (w_meter w)))))"
  using meter_reach_ok [OF assms(1-3)] assms(4,5) tick_spent [of "w_meter w" "w_calls w" "w_credit w"]
  by (simp add: world_ok_def)

theorem tick_costs_exactly_witness:
  "spent (m_reservation (fst (snd (tick_start (new_meter demo_options 0) 25000)))) = 0"
proof -
  obtain ev m' k where t: "tick_start (w_meter (world_start demo_options 0)) 25000 = (ev, m', k)"
    by (metis prod_cases3)
  have "spent (m_reservation m') = 0"
    using tick_costs_exactly [OF meter_reach.start _ _ _ t] by (simp add: demo_options_def world_start_def new_meter_def)
  then show ?thesis using t by (simp add: world_start_def)
qed

section \<open>A session with the gateway of the code\<close>

text \<open>One call of the meter, answered by the gateway.\<close>

fun gw_perform :: "string \<Rightarrow> gateway \<Rightarrow> gateway_call \<Rightarrow> gateway_answer \<times> gateway" where
  "gw_perform sid g (Call_reserve x) = (case gw_reserve g x of (r, g') \<Rightarrow> (Reserved r, g'))"
| "gw_perform sid g (Call_flush e) = (Done, gw_flush sid g e)"
| "gw_perform sid g (Call_release x) = (Done, gw_release g x)"

lemma gw_perform_lg: "gw_perform sid g c = lg.perform sid g c"
  by (cases c) (simp_all split: prod.splits)

text \<open>A method run to its end when nothing comes between: every call is answered by the gateway and
  the method goes on. A tick awaits at most twice (reserve, flush), and so does \<open>close\<close> (flush,
  release), so two rounds are enough.\<close>

fun drive :: "nat \<Rightarrow> string \<Rightarrow> gateway \<Rightarrow> outcome \<Rightarrow> gateway_call list \<times> outcome \<times> gateway" where
  "drive n sid g (ev, m, Finished) = ([], (ev, m, Finished), g)"
| "drive 0 sid g (ev, m, Await c wt) = ([], (ev, m, Await c wt), g)"
| "drive (Suc n) sid g (ev, m, Await c wt) =
     (case gw_perform sid g c of
        (a, g') \<Rightarrow> (case resume m wt a of
          (ev', out) \<Rightarrow> (case drive n sid g' (ev @ ev', out) of (cs, res) \<Rightarrow> (c # cs, res))))"

definition tick_alone :: "string \<Rightarrow> gateway \<Rightarrow> meter \<Rightarrow> int \<Rightarrow> gateway_call list \<times> outcome \<times> gateway" where
  "tick_alone sid g m now = drive 2 sid g (tick_start m now)"

definition close_alone :: "string \<Rightarrow> gateway \<Rightarrow> meter \<Rightarrow> int \<Rightarrow> gateway_call list \<times> outcome \<times> gateway" where
  "close_alone sid g m now = drive 2 sid g (close_start m now)"

text \<open>The rounds a suspended method still needs.\<close>

fun rounds :: "continuation \<Rightarrow> nat" where
  "rounds Finished = 0"
| "rounds (Await c (Tick_reserve now)) = 2"
| "rounds (Await c (Tick_flush now)) = 1"
| "rounds (Await c Close_flush) = 2"
| "rounds (Await c Close_release) = 1"

lemma rounds_tick_end: "tick_end m now = (ev, m', k) \<Longrightarrow> rounds k = 0"
  by (auto simp: tick_end_def split: prod.splits)

lemma rounds_tick_flush: "tick_flush m now = (ev, m', k) \<Longrightarrow> rounds k \<le> 1"
  by (auto simp: tick_flush_def split: if_splits prod.splits option.splits dest!: rounds_tick_end)

lemma rounds_close_release: "close_release m = (ev, m', k) \<Longrightarrow> rounds k \<le> 1"
  by (auto simp: close_release_def Let_def split: if_splits)

lemma rounds_resume:
  assumes "resume m wt a = (ev, m', k)"
  shows "rounds k < rounds (Await c wt)"
proof (cases wt)
  case (Tick_reserve now)
  then show ?thesis using assms by (cases a) (auto split: prod.splits dest!: rounds_tick_flush)
next
  case (Tick_flush now)
  then show ?thesis using assms by (auto split: prod.splits dest!: rounds_tick_end)
next
  case Close_flush
  then show ?thesis using assms by (auto split: prod.splits dest!: rounds_close_release)
qed (use assms in auto)

lemma rounds_tick_start: "tick_start m now = (ev, m', k) \<Longrightarrow> rounds k \<le> 2"
  by (auto simp: tick_start_def Let_def split: if_splits prod.splits option.splits dest!: rounds_tick_flush)

lemma rounds_close_start: "close_start m now = (ev, m', k) \<Longrightarrow> rounds k \<le> 2"
  by (auto simp: close_start_def split: if_splits prod.splits option.splits dest!: rounds_close_release)

lemma rounds_0 [simp]: "rounds k = 0 \<longleftrightarrow> k = Finished"
  by (cases k rule: rounds.cases) auto

lemma drive_finishes: "rounds k \<le> n \<Longrightarrow> drive n sid g (ev, m, k) = (cs, (ev', m', k'), g') \<Longrightarrow> k' = Finished"
proof (induction n sid g "(ev, m, k)" arbitrary: ev m k cs rule: drive.induct)
  case (3 n sid g ev m c wt)
  obtain a g1 where p: "gw_perform sid g c = (a, g1)" by fastforce
  obtain ev1 m1 k1 where r: "resume m wt a = (ev1, m1, k1)" by (metis prod_cases3)
  obtain cs1 res where d: "drive n sid g1 (ev @ ev1, m1, k1) = (cs1, res)" by (rule prod.exhaust)
  have res: "res = ((ev', m', k'), g')" using "3.prems"(2) p r d by simp
  have "rounds k1 \<le> n" using rounds_resume [OF r, of c] "3.prems"(1) by simp
  then show ?case using "3.hyps" [OF p [symmetric] r [symmetric]] d res by auto
qed auto

text \<open>What a run does to the books, the hold and the funds together: \<open>hold0\<close>, \<open>funds0\<close> and \<open>credit0\<close>
  are what they were when the account was last looked at.\<close>

definition accounts :: "jsnum \<Rightarrow> gateway_call list \<Rightarrow> jsnum \<Rightarrow> gateway \<Rightarrow> bool" where
  "accounts base calls credit g \<longleftrightarrow>
     gw_ok g \<and> hold_value g - gw_funds g - credit + released calls = base"

lemma accounts_perform:
  assumes "accounts base calls credit g" and "gw_perform sid g c = (a, g')"
    and "lg.call_fine c"
  shows "accounts base (calls @ [c]) (credit + answer_credit a) g' \<and> answer_ok c a"
proof (cases c)
  case (Call_reserve x)
  obtain r g1 where r: "gw_reserve g x = (r, g1)" by fastforce
  show ?thesis
    using lg.reserve_law [OF _ _ r] assms Call_reserve r by (auto simp: accounts_def)
next
  case (Call_flush e)
  then show ?thesis using lg.flush_law [of g e sid] assms by (auto simp: accounts_def)
next
  case (Call_release x)
  then show ?thesis using lg.release_law [of g x] assms by (auto simp: accounts_def)
qed

text \<open>The calls a meter makes are on the grid.\<close>

definition calls_fine :: "continuation \<Rightarrow> bool" where
  "calls_fine k \<longleftrightarrow> list_all lg.call_fine (calls_of k)"

lemma calls_fine_simps [simp]: "calls_fine Finished" "calls_fine (Await c wt) \<longleftrightarrow> lg.call_fine c"
  by (simp_all add: calls_fine_def)

lemma flushNow_fine: "books m calls credit \<Longrightarrow> flushNow m now = (Some e, m') \<Longrightarrow> lg.call_fine (Call_flush e)"
  by (auto simp: flushNow_def Let_def books_def split: if_splits)

lemma tick_flush_fine: "books m calls credit \<Longrightarrow> tick_flush m now = (ev, m', k) \<Longrightarrow> calls_fine k"
  by (auto simp: tick_flush_def split: if_splits prod.splits option.splits dest!: tick_end_same flushNow_fine)

lemma close_release_fine: "close_release m = (ev, m', k) \<Longrightarrow> calls_fine k"
  by (auto simp: close_release_def Let_def split: if_splits)

lemma tick_start_fine:
  assumes "books m calls credit" and "tick_start m now = (ev, m', k)"
  shows "calls_fine k"
proof (cases "m_closed m")
  case True
  then show ?thesis using assms by (simp add: tick_start_def)
next
  case False
  let ?m = "m\<lparr>m_lastTickAt := now\<rparr>" and ?ms = "max 0 (now - m_lastTickAt m)"
  have b: "books ?m calls credit" using assms(1) by (simp add: books_def)
  obtain ev1 m1 where ch: "(if \<not> idle_at ?m now \<and> ?ms > 0 then charge ?m ?ms now else ([], ?m)) = (ev1, m1)" by fastforce
  have b1: "books m1 calls credit" using ch b books_charge [OF b] by (auto split: if_splits)
  show ?thesis
  proof (cases "topUp_want m1")
    case (Some want)
    then have "on_grid want" by (auto simp: topUp_want_def split: if_splits)
    then show ?thesis using assms(2) False ch Some by (auto simp: tick_start_def Let_def)
  next
    case None
    then obtain ev2 where "tick_flush m1 now = (ev2, m', k)"
      using assms(2) False ch by (auto simp: tick_start_def Let_def split: prod.splits)
    then show ?thesis by (rule tick_flush_fine [OF b1])
  qed
qed

lemma close_start_fine:
  assumes "books m calls credit" and "close_start m now = (ev, m', k)"
  shows "calls_fine k"
proof -
  have "books (m\<lparr>m_closed := True\<rparr>) calls credit" using assms(1) by (simp add: books_def)
  from flushNow_fine [OF this] assms(2) show ?thesis
    by (auto simp: close_start_def split: if_splits prod.splits option.splits dest!: close_release_fine)
qed

lemma resume_fine:
  assumes "books m calls credit" and "resume m wt a = (ev, m', k)" and "wait_ok (c, wt)" and "answer_ok c a"
  shows "calls_fine k"
proof (cases wt)
  case (Tick_reserve now)
  show ?thesis
  proof (cases a)
    case (Reserved r)
    obtain ev1 m1 where t: "topUp_result m now r = (ev1, m1)" by fastforce
    obtain ev2 where f: "tick_flush m1 now = (ev2, m', k)"
      using assms(2) Tick_reserve Reserved t by (auto split: prod.splits)
    have "books m1 calls (credit + granted r)"
      using books_topUp [OF assms(1) _ _ t] answer_fits [OF assms(3,4)] Reserved by simp
    from tick_flush_fine [OF this f] show ?thesis .
  qed (use assms Tick_reserve in auto)
next
  case (Tick_flush now)
  then show ?thesis using assms(2) by (auto split: prod.splits dest!: tick_end_same)
next
  case Close_flush
  then show ?thesis using assms(2) by (auto split: prod.splits dest!: close_release_fine)
qed (use assms in auto)

text \<open>A run keeps the accounts and the books.\<close>

definition session_ok :: "jsnum \<Rightarrow> gateway_call list \<Rightarrow> jsnum \<Rightarrow> meter \<Rightarrow> gateway \<Rightarrow> bool" where
  "session_ok base calls credit m g \<longleftrightarrow> books m calls credit \<and> accounts base calls credit g"

lemma drive_session:
  assumes "drive n sid g (ev, m, k) = (cs, (ev', m', Finished), g')"
    and "books m (calls @ calls_of k) credit" and "accounts base calls credit g"
    and "calls_fine k" and "list_all wait_ok (waits_of k)"
  shows "\<exists>credit'. session_ok base (calls @ cs) credit' m' g'"
  using assms
proof (induction n sid g "(ev, m, k)" arbitrary: ev m k cs calls credit rule: drive.induct)
  case (1 n sid g ev m)
  then show ?case by (auto simp: session_ok_def)
next
  case (3 n sid g ev m c wt)
  obtain a g1 where p: "gw_perform sid g c = (a, g1)" by fastforce
  obtain ev1 m1 k1 where r: "resume m wt a = (ev1, m1, k1)" by (metis prod_cases3)
  obtain cs1 res where d: "drive n sid g1 (ev @ ev1, m1, k1) = (cs1, res)" by (rule prod.exhaust)
  have res: "res = ((ev', m', Finished), g')" and cs: "cs = c # cs1"
    using "3.prems"(1) p r d by auto
  have b: "books m (calls @ [c]) credit" using "3.prems"(2) by simp
  have w: "wait_ok (c, wt)" using "3.prems"(5) by simp
  have acc: "accounts base (calls @ [c]) (credit + answer_credit a) g1" and ok: "answer_ok c a"
    using accounts_perform [OF "3.prems"(3) p] "3.prems"(4) by auto
  have b1: "books m1 ((calls @ [c]) @ calls_of k1) (credit + answer_credit a)"
    using books_resume [OF b r answer_fits [OF w ok]] by simp
  have "list_all wait_ok (waits_of k1)" using resume_waits(1) [OF r] by (simp add: list_all_iff)
  from "3.hyps" [OF p [symmetric] r [symmetric] d [unfolded res] b1 acc resume_fine [OF b r w ok] this]
  show ?case by (simp add: cs)
qed simp

text \<open>A whole session: audio and ticks in any order at any times, and then \<open>close\<close>.\<close>

datatype session_act = Act_audio int | Act_tick int

fun session_run :: "string \<Rightarrow> meter \<Rightarrow> gateway \<Rightarrow> session_act list \<Rightarrow> gateway_call list \<times> meter \<times> gateway" where
  "session_run sid m g [] = ([], m, g)"
| "session_run sid m g (Act_audio t # acts) = session_run sid (markAudio m t) g acts"
| "session_run sid m g (Act_tick t # acts) =
     (case tick_alone sid g m t of
        (cs, (ev, m', k), g') \<Rightarrow> (case session_run sid m' g' acts of (cs', res) \<Rightarrow> (cs @ cs', res)))"

lemma closed_kept:
  "close_release m = (ev, m', k) \<Longrightarrow> m_closed m' = m_closed m \<and> m_pendingCredits m' = m_pendingCredits m"
  "tick_flush m t = (ev, m', k) \<Longrightarrow> m_closed m' = m_closed m"
  "topUp_result m t x = (ev, m') \<Longrightarrow> m_closed m' = m_closed m"
  by (auto simp: close_release_def tick_flush_def flushNow_def topUp_result_def Let_def same_money_def
      split: if_splits prod.splits option.splits dest!: tick_end_same enterGrace_same)

lemma resume_closed: "resume m wt a = (ev, m', k) \<Longrightarrow> m_closed m' = m_closed m"
  by (cases "(m, wt, a)" rule: resume.cases)
     (auto simp: same_money_def split: prod.splits dest!: closed_kept tick_end_same)

lemma drive_closed: "drive n sid g (ev, m, k) = (cs, (ev', m', k'), g') \<Longrightarrow> m_closed m' = m_closed m"
proof (induction n sid g "(ev, m, k)" arbitrary: ev m k cs rule: drive.induct)
  case (3 n sid g ev m c wt)
  obtain a g1 where p: "gw_perform sid g c = (a, g1)" by fastforce
  obtain ev1 m1 k1 where r: "resume m wt a = (ev1, m1, k1)" by (metis prod_cases3)
  obtain cs1 res where d: "drive n sid g1 (ev @ ev1, m1, k1) = (cs1, res)" by (rule prod.exhaust)
  have res: "res = ((ev', m', k'), g')" using "3.prems"(1) p r d by auto
  show ?case using "3.hyps" [OF p [symmetric] r [symmetric] d [unfolded res]] resume_closed [OF r] by simp
qed auto

lemma tick_alone_session:
  assumes "session_ok base calls credit m g" and "tick_alone sid g m now = (cs, (ev, m', k), g')"
  shows "(\<exists>credit'. session_ok base (calls @ cs) credit' m' g') \<and> m_closed m' = m_closed m \<and> k = Finished"
proof -
  obtain ev1 m1 k1 where t: "tick_start m now = (ev1, m1, k1)" by (metis prod_cases3)
  have b: "books m calls credit" and acc: "accounts base calls credit g"
    using assms(1) by (auto simp: session_ok_def)
  note bt = books_tick_start [OF b t]
  have d: "drive 2 sid g (ev1, m1, k1) = (cs, (ev, m', k), g')" using assms(2) t by (simp add: tick_alone_def)
  have k: "k = Finished" by (rule drive_finishes [OF rounds_tick_start [OF t] d])
  have "list_all wait_ok (waits_of k1)" using bt by auto
  from drive_session [OF d [unfolded k] conjunct1 [OF bt] acc tick_start_fine [OF b t] this]
  show ?thesis using drive_closed [OF d] bt k by simp
qed

lemma session_run_ok:
  "session_ok base calls credit m g \<Longrightarrow> session_run sid m g acts = (cs, m', g') \<Longrightarrow>
     (\<exists>credit'. session_ok base (calls @ cs) credit' m' g') \<and> m_closed m' = m_closed m"
proof (induction acts arbitrary: m g calls credit cs)
  case (Cons act acts)
  show ?case
  proof (cases act)
    case (Act_audio t)
    have "session_ok base calls credit (markAudio m t) g"
      using Cons.prems(1) by (simp add: session_ok_def books_def markAudio_def)
    from Cons.IH [OF this] Cons.prems(2) Act_audio show ?thesis by (simp add: markAudio_def)
  next
    case (Act_tick t)
    obtain cs1 ev1 m1 k1 g1 where t: "tick_alone sid g m t = (cs1, (ev1, m1, k1), g1)" by (metis surj_pair)
    obtain cs2 where r: "session_run sid m1 g1 acts = (cs2, m', g')" and cs: "cs = cs1 @ cs2"
      using Cons.prems(2) Act_tick t by (auto split: prod.splits)
    obtain credit1 where "session_ok base (calls @ cs1) credit1 m1 g1" and c: "m_closed m1 = m_closed m"
      using tick_alone_session [OF Cons.prems(1) t] by blast
    from Cons.IH [OF this(1) r] c show ?thesis by (simp add: cs)
  qed
qed auto

text \<open>After \<open>close\<close> nothing is pending and nothing is reserved beyond what was spent.\<close>

definition squared :: "meter \<Rightarrow> bool" where
  "squared m \<longleftrightarrow> m_pendingCredits m = 0 \<and> reserved (m_reservation m) = spent (m_reservation m)"

lemma squared_release:
  "books m calls credit \<Longrightarrow> m_pendingCredits m = 0 \<Longrightarrow> close_release m = (ev, m', k) \<Longrightarrow> squared m'"
  using books_close_release [of m calls credit ev m' k] closed_kept(1) [of m ev m' k] by (simp add: squared_def)

lemma drive_release:
  "drive n sid g (ev, m, Await (Call_release x) Close_release) = (cs, (ev', m', k'), g') \<Longrightarrow> m' = m"
  by (cases n) (auto split: prod.splits)

lemma close_alone_session:
  assumes "session_ok base calls credit m g" and "\<not> m_closed m" and "close_alone sid g m now = (cs, (ev, m', k), g')"
  shows "(\<exists>credit'. session_ok base (calls @ cs) credit' m' g') \<and> m_closed m' \<and> k = Finished \<and> squared m'"
proof -
  obtain ev1 m1 k1 where t: "close_start m now = (ev1, m1, k1)" by (metis prod_cases3)
  have b: "books m calls credit" and acc: "accounts base calls credit g"
    using assms(1) by (auto simp: session_ok_def)
  note bt = books_close_start [OF b t]
  have d: "drive 2 sid g (ev1, m1, k1) = (cs, (ev, m', k), g')" using assms(3) t by (simp add: close_alone_def)
  have k: "k = Finished" by (rule drive_finishes [OF rounds_close_start [OF t] d])
  have "list_all wait_ok (waits_of k1)" using bt by auto
  note ses = drive_session [OF d [unfolded k] conjunct1 [OF bt] acc close_start_fine [OF b t] this]
  have "squared m'"
  proof -
    let ?m = "m\<lparr>m_closed := True\<rparr>"
    have b0: "books ?m calls credit" using b by (simp add: books_def)
    obtain entry m0 where f: "flushNow ?m now = (entry, m0)" by fastforce
    note bf = books_flushNow [OF b0 f]
    have p0: "m_pendingCredits m0 = 0"
      using f b by (auto simp: flushNow_def Let_def books_def split: if_splits)
    show ?thesis
    proof (cases entry)
      case None
      then have r: "close_release m0 = (ev1, m1, k1)" using t f assms(2) by (simp add: close_start_def)
      have b1: "books m0 calls credit" using bf None books_same [OF b0] by simp
      have "m' = m1"
        using books_close_release [OF b1 r] d by (auto dest: drive_release)
      then show ?thesis using squared_release [OF b1 p0 r] by simp
    next
      case (Some e)
      then have k1: "k1 = Await (Call_flush e) Close_flush" and m1: "m1 = m0"
        using t f assms(2) by (auto simp: close_start_def)
      obtain ev2 m2 k2 where r: "close_release m0 = (ev2, m2, k2)" by (metis prod_cases3)
      have b1: "books m0 (calls @ [Call_flush e]) credit" using bf Some by simp
      have dr: "\<exists>ev3 cs3. drive 1 sid (gw_flush sid g e) (ev3, m2, k2) = (cs3, (ev, m', k), g')"
        using d by (auto simp: k1 m1 r numeral_2_eq_2 split: prod.splits)
      then have "m' = m2"
        using books_close_release [OF b1 r] by (auto dest: drive_release)
      then show ?thesis using squared_release [OF b1 p0 r] by simp
    qed
  qed
  then show ?thesis using ses drive_closed [OF d] bt k by simp
qed

lemma session_start_ok:
  assumes "gw_ok g" and "on_grid (mo_reserved opts)" and "0 \<le> mo_reserved opts"
  shows "session_ok (hold_value g - gw_funds g - mo_reserved opts) [] (mo_reserved opts) (new_meter opts now) g"
  using assms new_meter_books [of opts now] by (simp add: session_ok_def accounts_def)

text \<open>A whole session: the meter's life from its start to the end of \<open>close\<close>.\<close>

lemma session_account:
  assumes "gw_ok g" and "on_grid (mo_reserved opts)" and "0 \<le> mo_reserved opts"
    and "session_run sid (new_meter opts now) g acts = (cs, m, g1)"
    and "close_alone sid g1 m t = (cs', (ev, m', k), g2)"
  shows "k = Finished
     \<and> billed (cs @ cs') = spent (m_reservation m')
     \<and> reserved (m_reservation m') = spent (m_reservation m') \<and> m_pendingCredits m' = 0
     \<and> hold_value g2 = hold_value g - mo_reserved opts + (billed (cs @ cs') - (gw_funds g - gw_funds g2))
     \<and> gw_ok g2"
proof -
  let ?base = "hold_value g - gw_funds g - mo_reserved opts"
  obtain credit1 where s1: "session_ok ?base cs credit1 m g1" and opn: "\<not> m_closed m"
    using session_run_ok [OF session_start_ok [OF assms(1-3)] assms(4)] by (auto simp: new_meter_def)
  obtain credit2 where s2: "session_ok ?base (cs @ cs') credit2 m' g2" and k: "k = Finished" and sq: "squared m'"
    using close_alone_session [OF s1 opn assms(5)] by blast
  have b: "books m' (cs @ cs') credit2" and a: "accounts ?base (cs @ cs') credit2 g2"
    using s2 by (auto simp: session_ok_def)
  have "billed (cs @ cs') = spent (m_reservation m')"
    using b sq by (simp add: books_def squared_def del: billed_append)
  moreover have "credit2 - released (cs @ cs') = spent (m_reservation m')"
    using b sq by (simp add: books_def squared_def del: released_append)
  moreover have "hold_value g2 = ?base + gw_funds g2 + credit2 - released (cs @ cs')" "gw_ok g2"
    using a by (simp_all add: accounts_def del: released_append)
  ultimately show ?thesis using k sq by (simp add: squared_def del: billed_append released_append)
qed


definition demo_gateway :: gateway where
  "demo_gateway = \<lparr>gw_row = Some \<lparr>row_balance = 10, row_trial = 0, row_subscription = 10, row_topup = 0\<rparr>,
     gw_usage = [], gw_hold = Some 1\<rparr>"

lemma demo_gateway_ok [simp]: "gw_ok demo_gateway" "gw_funds demo_gateway = 10" "hold_value demo_gateway = 1"
  by (simp_all add: gw_ok_def gw_funds_def demo_gateway_def row_field_def hold_value_def)


text \<open>
  The initial reservation is on nobody's hold. \<open>/api/session/start\<close> only computes it and writes it into the token; the relay opens with
  \<open>reserve(0)\<close>, which takes nothing; and \<open>close\<close> hands it back all the same. After a covered session of a user without a hold the
  gateway therefore grants the funds once more and the reservation on top of them, and while the session runs its meter counts
  the reservation twice in the credit that the studio shows.
\<close>

lemma reservation_released_but_never_held:
  assumes "gw_ok g" and "gw_hold g = None" and "on_grid (mo_reserved opts)" and "0 < mo_reserved opts"
    and "session_run sid (new_meter opts now) g acts = (cs, m, g1)"
    and "close_alone sid g1 m t = (cs', (ev, m', k), g2)"
    and "billed (cs @ cs') = gw_funds g - gw_funds g2"
    and "on_grid x" and "gw_funds g2 + mo_reserved opts \<le> x"
  shows "hold_value g2 = - mo_reserved opts
     \<and> granted (fst (gw_reserve g2 x)) = gw_funds g2 + mo_reserved opts
     \<and> gw_funds g2 < granted (fst (gw_reserve g2 x))"
proof -
  have s: "hold_value g2 = - mo_reserved opts" "gw_ok g2"
    using session_account [OF assms(1,3) _ assms(5,6)] assms(2,4,7) by (simp_all add: hold_value_def [of g] del: billed_append)
  moreover have "0 \<le> gw_funds g2" by (simp add: gw_funds_def)
  ultimately show ?thesis
    using reserve_decide_granted [OF s(2) assms(8)] assms(4,9) by (simp add: gw_reserve_def)
qed

lemma airtime_counts_reservation_twice:
  assumes "gw_ok g" and "gw_hold g = None"
    and "mo_balanceRemaining opts = rr_balanceRemaining (fst (gw_reserve g 0))" and "on_grid (mo_reserved opts)"
  shows "m_initialAirtime (new_meter opts now) = gw_funds g + mo_reserved opts"
proof -
  have grid: "on_grid (gw_funds g)" using assms(1) by (simp add: gw_ok_def gw_funds_def)
  have g0: "granted (reserve_decide g 0) = 0"
    using reserve_decide_granted [OF assms(1), of 0] by simp
  have "foldl (\<lambda>s b. s + max 0 (bal_balance b)) 0 (readBuckets g) = gw_funds g"
    by (simp add: readBuckets_def gw_funds_def)
  moreover have "0 \<le> gw_funds g" by (simp add: gw_funds_def)
  ultimately have "rr_balanceRemaining (reserve_decide g 0) = gw_funds g"
    using g0 grid assms(2) by (simp add: reserve_decide_def Let_def hold_value_def)
  then show ?thesis using assms(3,4) grid by (simp add: new_meter_def gw_reserve_def add.commute)
qed

text \<open>The first session of a user, opened with one credit reserved and closed at once: the hold is minus one.\<close>

lemma first_session_ends_below_zero:
  "hold_value (snd (snd (close_alone ''s'' (demo_gateway\<lparr>gw_hold := None\<rparr>) (new_meter demo_options 0) 0))) = -1"
  by code_simp

section \<open>A session without credit\<close>

text \<open>Nothing left to grant.\<close>

definition dry :: "gateway \<Rightarrow> bool" where
  "dry g \<longleftrightarrow> gw_ok g \<and> gw_funds g \<le> hold_value g"

definition keeps_grace :: "meter \<Rightarrow> meter \<Rightarrow> bool" where
  "keeps_grace m m' \<longleftrightarrow>
     (\<forall>t. m_graceStartedAt m = Some t \<longrightarrow> m_graceStartedAt m' = Some t) \<and> (m_exhausted m \<longrightarrow> m_exhausted m')"

lemma keeps_grace_trans: "keeps_grace m m' \<Longrightarrow> keeps_grace m' m'' \<Longrightarrow> keeps_grace m m''"
  by (simp add: keeps_grace_def)

lemma dry_reserve: "dry g \<Longrightarrow> on_grid x \<Longrightarrow> gw_reserve g x = (r, g') \<Longrightarrow> granted r = 0 \<and> dry g'"
  using lg.reserve_law [of g x r g'] by (auto simp: dry_def)

lemma dry_flush: "dry g \<Longrightarrow> lg.call_fine (Call_flush e) \<Longrightarrow> dry (gw_flush sid g e)"
  using lg.flush_law [of g e sid] by (simp add: dry_def)

lemma enterGrace_grace:
  "enterGrace m now = (ev, m') \<Longrightarrow> m_exhausted m' = m_exhausted m
     \<and> m_graceStartedAt m' = (case m_graceStartedAt m of None \<Rightarrow> Some now | Some t \<Rightarrow> Some t)"
  by (auto simp: enterGrace_def Let_def split: if_splits option.splits)

lemma charge_grace:
  "charge m ms now = (ev, m') \<Longrightarrow> m_exhausted m' = m_exhausted m
     \<and> (m_graceStartedAt m' = m_graceStartedAt m
        \<or> m_graceStartedAt m' = (case m_graceStartedAt m of None \<Rightarrow> Some now | Some t \<Rightarrow> Some t))"
  by (auto simp: charge_def Let_def split: if_splits dest!: enterGrace_grace)

lemma topUp_grace:
  "topUp_result m now r = (ev, m') \<Longrightarrow> granted r = 0 \<Longrightarrow> m_exhausted m' = m_exhausted m
     \<and> m_graceStartedAt m' = (case m_graceStartedAt m of None \<Rightarrow> Some now | Some t \<Rightarrow> Some t)"
  by (auto simp: topUp_result_def Let_def dest!: enterGrace_grace)

lemma flushNow_grace: "flushNow m now = (e, m') \<Longrightarrow> m_exhausted m' = m_exhausted m \<and> m_graceStartedAt m' = m_graceStartedAt m"
  by (auto simp: flushNow_def Let_def split: if_splits)

lemma emitCredits_grace: "emitCredits m = (ev, m') \<Longrightarrow> m_exhausted m' = m_exhausted m \<and> m_graceStartedAt m' = m_graceStartedAt m"
  by (auto simp: emitCredits_def Let_def split: if_splits)

lemma tick_end_grace:
  "tick_end m now = (ev, m', k) \<Longrightarrow> m_graceStartedAt m' = m_graceStartedAt m
     \<and> m_exhausted m' = (m_exhausted m \<or> (\<exists>t. m_graceStartedAt m = Some t \<and> 60000 \<le> now - t))"
  by (auto simp: tick_end_def checkGrace_def ZERO_BALANCE_GRACE_SECONDS_def
      split: prod.splits if_splits option.splits dest!: emitCredits_grace)

text \<open>The second half of a tick, run to its end.\<close>

lemma drive_tick_flush:
  assumes "tick_flush m now = (ev1, m1, k1)" and "drive (Suc n) sid g (ev0, m1, k1) = (cs, (ev, m', k), g')"
    and "dry g" and "books m calls credit"
  shows "(\<exists>mx evx. tick_end mx now = (evx, m', Finished) \<and> m_exhausted mx = m_exhausted m
      \<and> m_graceStartedAt mx = m_graceStartedAt m) \<and> dry g'"
proof (cases "now - m_lastFlushAt m < LEDGER_FLUSH_INTERVAL_MS")
  case True
  then have t: "tick_end m now = (ev1, m1, k1)" using assms(1) by (simp add: tick_flush_def)
  then have "k1 = Finished" using tick_end_same [OF t] by simp
  then show ?thesis using t assms(2,3) by auto
next
  case False
  obtain entry m2 where f: "flushNow m now = (entry, m2)" by fastforce
  note fg = flushNow_grace [OF f]
  show ?thesis
  proof (cases entry)
    case None
    then have t: "tick_end m2 now = (ev1, m1, k1)" using assms(1) False f by (simp add: tick_flush_def)
    then have "k1 = Finished" using tick_end_same [OF t] by simp
    then show ?thesis using t fg assms(2,3) by auto
  next
    case (Some e)
    then have k1: "k1 = Await (Call_flush e) (Tick_flush now)" "m1 = m2"
      using assms(1) False f by (auto simp: tick_flush_def)
    obtain evx mx kx where t: "tick_end m2 now = (evx, mx, kx)" by (metis prod_cases3)
    have kx: "kx = Finished" using tick_end_same [OF t] by simp
    have "m' = mx" "g' = gw_flush sid g e"
      using assms(2) t by (auto simp: k1 kx)
    then show ?thesis
      using t kx fg dry_flush [OF assms(3) flushNow_fine [OF assms(4)]] f Some by auto
  qed
qed

lemma dry_tick:
  assumes "session_ok base calls credit m g" and "dry g" and "\<not> m_closed m"
    and "tick_alone sid g m now = (cs, (ev, m', k), g')"
  shows "\<exists>mx evx. tick_end mx now = (evx, m', Finished) \<and> keeps_grace m mx \<and> dry g'
    \<and> (\<not> m_exhausted m \<longrightarrow> m_graceStartedAt m = None
         \<longrightarrow> needsTopUp (m_reservation m) (m_ratePerSecond m) (of_int RESERVATION_WINDOW_SECONDS)
         \<longrightarrow> m_graceStartedAt mx = Some now)"
proof -
  let ?m = "m\<lparr>m_lastTickAt := now\<rparr>" and ?ms = "max 0 (now - m_lastTickAt m)"
  let ?win = "of_int RESERVATION_WINDOW_SECONDS :: jsnum"
  have b: "books ?m calls credit" using assms(1) by (simp add: session_ok_def books_def)
  obtain ev1 m1 where ch: "(if \<not> idle_at ?m now \<and> ?ms > 0 then charge ?m ?ms now else ([], ?m)) = (ev1, m1)" by fastforce
  have b1: "books m1 calls credit" using ch b books_charge [OF b] by (auto split: if_splits)
  have g1: "m_exhausted m1 = m_exhausted m" "m_graceStartedAt m1 = m_graceStartedAt m
      \<or> m_graceStartedAt m1 = (case m_graceStartedAt m of None \<Rightarrow> Some now | Some t \<Rightarrow> Some t)"
    using ch charge_grace [of ?m ?ms now ev1 m1] by (auto split: if_splits)
  then have kg: "keeps_grace m m1" by (auto simp: keeps_grace_def)
  have need: "needsTopUp (m_reservation m) (m_ratePerSecond m) ?win \<Longrightarrow> needsTopUp (m_reservation m1) (m_ratePerSecond m1) ?win"
  proof (cases "\<not> idle_at ?m now \<and> ?ms > 0")
    case True
    then have c: "charge ?m ?ms now = (ev1, m1)" using ch by simp
    note cs = charge_spec [OF b c]
    have "on_grid (reserved (m_reservation m))" "on_grid (spent (m_reservation m))"
      "on_grid (reserved (m_reservation m1))" "on_grid (spent (m_reservation m1))"
      using b b1 by (auto simp: books_def)
    then have "reservationRemaining (m_reservation m1) \<le> reservationRemaining (m_reservation m)"
      using cs(1,3,7) by (simp add: reservationRemaining_exact)
    moreover assume "needsTopUp (m_reservation m) (m_ratePerSecond m) ?win"
    ultimately show ?thesis using cs(6) by (simp add: needsTopUp_def)
  next
    case False
    then show "needsTopUp (m_reservation m) (m_ratePerSecond m) ?win \<Longrightarrow> ?thesis" using ch by (auto split: if_splits)
  qed
  show ?thesis
  proof (cases "topUp_want m1")
    case None
    obtain ev2 m2 k2 where f: "tick_flush m1 now = (ev2, m2, k2)" by (metis prod_cases3)
    have d: "drive (Suc 1) sid g (ev1 @ ev2, m2, k2) = (cs, (ev, m', k), g')"
      using assms(3,4) ch None f by (simp add: tick_alone_def tick_start_def Let_def numeral_2_eq_2)
    obtain mx evx where e: "tick_end mx now = (evx, m', Finished)" "m_exhausted mx = m_exhausted m1"
      "m_graceStartedAt mx = m_graceStartedAt m1" and dr: "dry g'"
      using drive_tick_flush [OF f d assms(2) b1] by blast
    have "keeps_grace m mx" using kg e(2,3) by (simp add: keeps_grace_def)
    moreover have "m_exhausted m \<or> \<not> needsTopUp (m_reservation m) (m_ratePerSecond m) ?win"
      using None need g1(1) by (auto simp: topUp_want_def split: if_splits)
    ultimately show ?thesis using e(1) dr by blast
  next
    case (Some want)
    then have w: "on_grid want" by (auto simp: topUp_want_def split: if_splits)
    obtain r ga where gr: "gw_reserve g want = (r, ga)" by fastforce
    note dr = dry_reserve [OF assms(2) w gr]
    obtain ev2 m2 where t: "topUp_result m1 now r = (ev2, m2)" by fastforce
    obtain ev3 m3 k3 where f: "tick_flush m2 now = (ev3, m3, k3)" by (metis prod_cases3)
    obtain cs2 where d: "drive (Suc 0) sid ga (ev1 @ ev2 @ ev3, m3, k3) = (cs2, (ev, m', k), g')"
      using assms(3,4) ch Some gr t f
      by (auto simp: tick_alone_def tick_start_def Let_def numeral_2_eq_2 split: prod.splits)
    have b2: "books m2 calls (credit + granted r)"
      using books_topUp [OF b1 _ _ t] dr by simp
    obtain mx evx where e: "tick_end mx now = (evx, m', Finished)" "m_exhausted mx = m_exhausted m2"
      "m_graceStartedAt mx = m_graceStartedAt m2" and dr2: "dry g'"
      using drive_tick_flush [OF f d _ b2] dr by blast
    note tg = topUp_grace [OF t conjunct1 [OF dr]]
    have "keeps_grace m mx" using kg e(2,3) tg by (auto simp: keeps_grace_def split: option.splits)
    moreover have "m_graceStartedAt m = None \<longrightarrow> m_graceStartedAt mx = Some now"
      using tg e(3) g1(2) by (auto split: option.splits)
    ultimately show ?thesis using e(1) dr2 by (intro exI [of _ mx] exI [of _ evx]) simp
  qed
qed

text \<open>While the account is dry, no run of a session clears the grace period.\<close>

lemma dry_run:
  "session_ok base calls credit m g \<Longrightarrow> dry g \<Longrightarrow> \<not> m_closed m \<Longrightarrow> session_run sid m g acts = (cs, m', g') \<Longrightarrow>
     keeps_grace m m' \<and> dry g'"
proof (induction acts arbitrary: m g calls credit cs)
  case Nil
  then show ?case by (simp add: keeps_grace_def)
next
  case (Cons act acts)
  show ?case
  proof (cases act)
    case (Act_audio t)
    have s: "session_ok base calls credit (markAudio m t) g"
      using Cons.prems(1) by (simp add: session_ok_def books_def markAudio_def)
    have "keeps_grace (markAudio m t) m' \<and> dry g'"
      using Cons.IH [OF s Cons.prems(2)] Cons.prems(3,4) Act_audio by (simp add: markAudio_def)
    then show ?thesis by (simp add: keeps_grace_def markAudio_def)
  next
    case (Act_tick t)
    obtain cs1 ev1 m1 k1 g1 where t: "tick_alone sid g m t = (cs1, (ev1, m1, k1), g1)" by (metis surj_pair)
    obtain cs2 where r: "session_run sid m1 g1 acts = (cs2, m', g')"
      using Cons.prems(4) Act_tick t by (auto split: prod.splits)
    obtain credit1 where s1: "session_ok base (calls @ cs1) credit1 m1 g1" and c: "\<not> m_closed m1"
      using tick_alone_session [OF Cons.prems(1) t] Cons.prems(3) by blast
    obtain mx evx where e: "tick_end mx t = (evx, m1, Finished)" "keeps_grace m mx" and d: "dry g1"
      using dry_tick [OF Cons.prems(1-3) t] by blast
    have "keeps_grace m m1" using e(2) tick_end_grace [OF e(1)] by (auto simp: keeps_grace_def)
    then show ?thesis using Cons.IH [OF s1 d c r] keeps_grace_trans by blast
  qed
qed

text \<open>
  A session without credit ends. At any point of a session, when the gateway has
  nothing left to grant and the reservation is below the top-up threshold, the next tick starts the
  grace period; and whatever audio and ticks follow, the first tick that comes a minute or more after it
  marks the session as exhausted, which ends it. Until then the captions go on.
\<close>

theorem dry_session_ends:
  assumes "gw_ok g" and "on_grid (mo_reserved opts)" and "0 \<le> mo_reserved opts"
    and "session_run sid (new_meter opts now) g acts = (cs, m, g1)"
    and "gw_funds g1 \<le> hold_value g1" and "\<not> m_exhausted m" and "m_graceStartedAt m = None"
    and "needsTopUp (m_reservation m) (m_ratePerSecond m) 60"
    and "tick_alone sid g1 m t1 = (cs1, (ev1, m1, k1), g2)"
    and "session_run sid m1 g2 acts' = (cs2, m2, g3)"
    and "tick_alone sid g3 m2 t2 = (cs3, (ev3, m3, k3), g4)" and "t1 + 60000 \<le> t2"
  shows "m_exhausted m3"
proof -
  let ?base = "hold_value g - gw_funds g - mo_reserved opts"
  obtain c1 where s1: "session_ok ?base cs c1 m g1" and o1: "\<not> m_closed m"
    using session_run_ok [OF session_start_ok [OF assms(1-3)] assms(4)] by (auto simp: new_meter_def)
  have d1: "dry g1" using s1 assms(5) by (simp add: dry_def session_ok_def accounts_def)
  obtain c2 where s2: "session_ok ?base (cs @ cs1) c2 m1 g2" and o2: "\<not> m_closed m1"
    using tick_alone_session [OF s1 assms(9)] o1 by blast
  obtain mx evx where e: "tick_end mx t1 = (evx, m1, Finished)" "m_graceStartedAt mx = Some t1" and d2: "dry g2"
    using dry_tick [OF s1 d1 o1 assms(9)] assms(6-8) by (auto simp: RESERVATION_WINDOW_SECONDS_def)
  have gr1: "m_graceStartedAt m1 = Some t1" using tick_end_grace [OF e(1)] e(2) by simp
  obtain c3 where s3: "session_ok ?base ((cs @ cs1) @ cs2) c3 m2 g3" and o3: "\<not> m_closed m2"
    using session_run_ok [OF s2 assms(10)] o2 by blast
  have "keeps_grace m1 m2" and d3: "dry g3" using dry_run [OF s2 d2 o2 assms(10)] by auto
  then have gr2: "m_graceStartedAt m2 = Some t1" using gr1 by (simp add: keeps_grace_def)
  obtain my evy where f: "tick_end my t2 = (evy, m3, Finished)" "keeps_grace m2 my"
    using dry_tick [OF s3 d3 o3 assms(11)] by blast
  have "m_graceStartedAt my = Some t1" using f(2) gr2 by (simp add: keeps_grace_def)
  then show ?thesis using tick_end_grace [OF f(1)] assms(12) by simp
qed

definition dry_gateway :: gateway where
  "dry_gateway = \<lparr>gw_row = None, gw_usage = [], gw_hold = None\<rparr>"

definition dry_options :: meter_options where
  "dry_options = \<lparr>mo_burn = \<lparr>targetLanguages = 1, burn_voiceEnabled = False\<rparr>, mo_reserved = 0, mo_balanceRemaining = 0\<rparr>"

lemma dry_gateway_facts [simp]: "gw_ok dry_gateway" "gw_funds dry_gateway = 0" "hold_value dry_gateway = 0"
  by (simp_all add: gw_ok_def gw_funds_def dry_gateway_def row_field_def hold_value_def)

theorem dry_session_ends_witness:
  "let (cs1, (ev1, m1, k1), g2) = tick_alone ''s'' dry_gateway (new_meter dry_options 0) 1000;
       (cs2, m2, g3) = session_run ''s'' m1 g2 [Act_audio 2000, Act_tick 30000];
       (cs3, (ev3, m3, k3), g4) = tick_alone ''s'' g3 m2 61000
   in m_exhausted m3"
proof -
  obtain cs1 ev1 m1 k1 g2 where a: "tick_alone ''s'' dry_gateway (new_meter dry_options 0) 1000 = (cs1, (ev1, m1, k1), g2)"
    by (metis surj_pair)
  obtain cs2 m2 g3 where b: "session_run ''s'' m1 g2 [Act_audio 2000, Act_tick 30000] = (cs2, m2, g3)"
    by (metis prod_cases3)
  obtain cs3 ev3 m3 k3 g4 where c: "tick_alone ''s'' g3 m2 61000 = (cs3, (ev3, m3, k3), g4)"
    by (metis surj_pair)
  have r: "session_run ''s'' (new_meter dry_options 0) dry_gateway [] = ([], new_meter dry_options 0, dry_gateway)"
    by simp
  have need: "needsTopUp (m_reservation (new_meter dry_options 0)) (m_ratePerSecond (new_meter dry_options 0)) 60"
    by (simp add: needsTopUp_def new_meter_def dry_options_def reservationRemaining_def burnRatePerSecond_def
        burnRatePerMinute_def RATE_CAPTIONS_PER_MIN_def RATE_TRANSLATION_PER_LANG_PER_MIN_def RATE_VOICE_PER_MIN_def round4_def js_round_def)
  have "m_exhausted m3"
    using dry_session_ends [OF _ _ _ r _ _ _ need a b c] by (simp add: dry_options_def new_meter_def)
  then show ?thesis by (simp only: Let_def a b c prod.case)
qed

section \<open>Many sessions on one account\<close>

text \<open>Calls of any sessions of the user, each answered before the next is made.\<close>

fun gw_run :: "gateway \<Rightarrow> (string \<times> gateway_call) list \<Rightarrow> gateway_answer list \<times> gateway" where
  "gw_run g [] = ([], g)"
| "gw_run g ((sid, c) # cs) =
     (case gw_perform sid g c of (a, g') \<Rightarrow> (case gw_run g' cs of (as, g'') \<Rightarrow> (a # as, g'')))"

lemma gw_run_within:
  "gw_ok g \<Longrightarrow> hold_value g \<le> gw_funds g \<Longrightarrow> \<forall>x \<in> set cs. lg.call_fine (snd x) \<Longrightarrow> gw_run g cs = (as, g') \<Longrightarrow>
     gw_ok g' \<and> hold_value g' \<le> gw_funds g' \<and> list_all2 answer_ok (map snd cs) as"
proof (induction cs arbitrary: g as)
  case (Cons x cs)
  obtain sid c where x: "x = (sid, c)" by fastforce
  obtain a g1 where p: "gw_perform sid g c = (a, g1)" by fastforce
  obtain as' g2 where ps: "gw_run g1 cs = (as', g2)" by fastforce
  have lp: "lg.perform sid g c = (a, g1)" using p by (simp add: gw_perform_lg)
  have "gw_ok g1 \<and> answer_ok c a" "hold_value g1 \<le> gw_funds g1"
    using lg.perform_ok [OF _ _ lp] lg.held_within_funds [OF _ _ lp] Cons.prems x by auto
  then show ?case using Cons.IH [of g1 as'] Cons.prems p ps x by auto
qed auto

text \<open>
  C24: Promises that are made one after the other stay within the funds. Starting from a hold within the funds, after any
  sequence of reservations, flushes and releases of any sessions of a user, one after the other, the
  hold is still within the funds, and every reservation was granted between nothing and what was asked for.
\<close>

theorem hold_within_funds:
  assumes "gw_ok g" and "hold_value g \<le> gw_funds g" and "\<forall>(sid, c) \<in> set cs. lg.call_fine c" and "gw_run g cs = (as, g')"
  shows "hold_value g' \<le> gw_funds g' \<and> list_all2 answer_ok (map snd cs) as"
  using gw_run_within [OF assms(1,2) _ assms(4)] assms(3) by (auto simp: case_prod_beta)

theorem hold_within_funds_witness:
  "case gw_run demo_gateway [(''s'', Call_reserve 6), (''t'', Call_reserve 6), (''s'', Call_release 2)] of
     (as, g) \<Rightarrow> hold_value g \<le> gw_funds g"
  using hold_within_funds [of demo_gateway "[(''s'', Call_reserve 6), (''t'', Call_reserve 6), (''s'', Call_release 2)]"]
  by (simp split: prod.splits)

section \<open>Where the promises end\<close>

text \<open>
  Two sessions that both read before either writes are both granted: \<open>reserve\<close> decides on a value
  that is stale when \<open>incrbyfloat\<close> runs. The comment in the code says two concurrent sessions
  cannot both promise the same minute.
\<close>

lemma interleaved_reserves_overpromise:
  assumes "gw_ok g" and "on_grid x" and "0 < x" and "hold_value g + x \<le> gw_funds g" and "gw_funds g < hold_value g + 2 * x"
  defines "r1 \<equiv> reserve_decide g x" and "r2 \<equiv> reserve_decide g x"
  shows "gw_funds (reserve_commit (reserve_commit g r1) r2) < hold_value (reserve_commit (reserve_commit g r1) r2)"
proof -
  have "granted (reserve_decide g x) = x"
    using reserve_decide_granted [OF assms(1,2)] assms(3,4) by simp
  then show ?thesis using assms(3-5) by (simp add: r1_def r2_def reserve_commit_def)
qed

text \<open>
  A flush that is repeated (its answer was lost) is written once to the ledger, thanks to the
  idempotency key, but is taken from the balances and the hold twice: the update does not
  depend on whether the insert did anything.
\<close>

lemma retried_flush_charges_twice:
  fixes e :: ledger_flush
  assumes "e = \<lparr>fl_credits = 2, fl_billableSeconds = 120, fl_sequence = 1\<rparr>"
  shows "length (gw_usage (gw_flush ''s'' (gw_flush ''s'' demo_gateway e) e)) = 1
     \<and> gw_funds (gw_flush ''s'' (gw_flush ''s'' demo_gateway e) e) = 6"
proof
  show "length (gw_usage (gw_flush ''s'' (gw_flush ''s'' demo_gateway e) e)) = 1"
    unfolding assms by code_simp
  show "gw_funds (gw_flush ''s'' (gw_flush ''s'' demo_gateway e) e) = 6"
    using lg.flush_law [of demo_gateway e "''s''"] lg.flush_law [of "gw_flush ''s'' demo_gateway e" e "''s''"] assms by simp
qed

text \<open>
  A grant that arrives after \<open>close\<close> has handed everything back is added to the reservation of a
  closed meter and never released: neither \<open>tick\<close> nor \<open>close\<close> does anything any more. The
  credits stay on hold until the key expires.
\<close>

lemma late_grant_is_lost:
  assumes "books m calls credit" and "m_closed m" and "squared m" and "0 < granted r" and "on_grid (granted r)"
    and "resume m (Tick_reserve t0) (Reserved r) = (ev, m', k)"
  shows "reserved (m_reservation m') = spent (m_reservation m') + granted r
     \<and> close_start m' t = ([], m', Finished) \<and> tick_start m' t = ([], m', Finished)"
proof -
  obtain ev1 m1 where t: "topUp_result m t0 r = (ev1, m1)" by fastforce
  obtain ev2 where f: "tick_flush m1 t0 = (ev2, m', k)"
    using assms(6) t by (auto split: prod.splits)
  have b: "books m1 calls (credit + granted r)" and c: "m_closed m1 = m_closed m"
    using books_topUp [OF assms(1) _ assms(5) t] assms(4) by auto
  have "reserved (m_reservation m1) = spent (m_reservation m1) + granted r"
    using t assms(1,3-5) by (auto simp: topUp_result_def Let_def squared_def books_def)
  then show ?thesis
    using books_tick_flush [OF b f] c assms(2) by (simp add: close_start_def tick_start_def)
qed

end
