(* ===== verification/Registry.thy ===== *)
theory Registry
  imports Contracts
begin

text \<open>
  \<open>apps/relay/src/registry.ts\<close>: the process-local index of sessions, three maps that must agree.
  The interface the front door relies on is the locale \<open>session_index\<close>; the registry of the code
  interprets it.
\<close>

section \<open>State and operations\<close>

record session_handle =
  sh_sessionId :: string
  sh_userId :: string
  sh_projectorToken :: string

record registry =
  reg_sessions :: "(string, session_handle) jsmap"
  reg_byProjectorToken :: "(string, string) jsmap"
  reg_perUser :: "(string, int) jsmap"

definition new_registry :: registry where
  "new_registry = \<lparr>reg_sessions = [], reg_byProjectorToken = [], reg_perUser = []\<rparr>"

text \<open>\<open>register\<close> throws (\<open>None\<close>) when the session id is taken.\<close>

definition reg_register :: "session_handle \<Rightarrow> registry \<Rightarrow> registry option" where
  "reg_register s r =
     (if map_of (reg_sessions r) (sh_sessionId s) \<noteq> None then None
      else Some (r\<lparr>
        reg_sessions := map_set (sh_sessionId s) s (reg_sessions r),
        reg_byProjectorToken := map_set (sh_projectorToken s) (sh_sessionId s) (reg_byProjectorToken r),
        reg_perUser := map_set (sh_userId s)
          ((case map_of (reg_perUser r) (sh_userId s) of None \<Rightarrow> 0 | Some n \<Rightarrow> n) + 1) (reg_perUser r)\<rparr>))"

definition reg_unregister :: "string \<Rightarrow> registry \<Rightarrow> registry" where
  "reg_unregister sid r =
     (case map_of (reg_sessions r) sid of
        None \<Rightarrow> r
      | Some s \<Rightarrow>
          let remaining = (case map_of (reg_perUser r) (sh_userId s) of None \<Rightarrow> 1 | Some n \<Rightarrow> n) - 1
          in r\<lparr>
            reg_sessions := map_delete sid (reg_sessions r),
            reg_byProjectorToken := map_delete (sh_projectorToken s) (reg_byProjectorToken r),
            reg_perUser := (if remaining > 0 then map_set (sh_userId s) remaining (reg_perUser r)
                            else map_delete (sh_userId s) (reg_perUser r))\<rparr>)"

definition reg_get :: "registry \<Rightarrow> string \<Rightarrow> session_handle option" where
  "reg_get r sid = map_of (reg_sessions r) sid"

definition reg_byToken :: "registry \<Rightarrow> string \<Rightarrow> session_handle option" where
  "reg_byToken r token =
     (case map_of (reg_byProjectorToken r) token of
        None \<Rightarrow> None
      | Some sid \<Rightarrow> map_of (reg_sessions r) sid)"

definition reg_activeFor :: "registry \<Rightarrow> string \<Rightarrow> int" where
  "reg_activeFor r user = (case map_of (reg_perUser r) user of None \<Rightarrow> 0 | Some n \<Rightarrow> n)"

definition reg_size :: "registry \<Rightarrow> nat" where
  "reg_size r = length (reg_sessions r)"

definition reg_list :: "registry \<Rightarrow> session_handle list" where
  "reg_list r = map snd (reg_sessions r)"

text \<open>\<open>closeAll\<close>: every session is asked to close, whatever the others do; what a closing session does
  to the registry is its \<open>onClosed\<close>, which unregisters it.\<close>

definition reg_closeAll :: "registry \<Rightarrow> string list \<times> registry" where
  "reg_closeAll r =
     (let sids = map sh_sessionId (reg_list r) in (sids, fold reg_unregister sids r))"

section \<open>The interface of the front door\<close>

text \<open>
  What the concurrency gate relies on: the running sessions are a finite set of handles with
  distinct ids; \<open>register\<close> adds one or refuses, \<open>unregister\<close> removes one, \<open>active\<close> counts those of a user.
\<close>

locale session_index =
  fixes ok :: "'r \<Rightarrow> bool"
    and register :: "session_handle \<Rightarrow> 'r \<Rightarrow> 'r option"
    and unregister :: "string \<Rightarrow> 'r \<Rightarrow> 'r"
    and active :: "'r \<Rightarrow> string \<Rightarrow> int"
    and running :: "'r \<Rightarrow> session_handle list"
  assumes running_ids: "ok r \<Longrightarrow> distinct (map sh_sessionId (running r))"
    and active_counts: "ok r \<Longrightarrow> active r u = int (length (filter (\<lambda>s. sh_userId s = u) (running r)))"
    and register_law: "ok r \<Longrightarrow>
      (if sh_sessionId s \<in> sh_sessionId ` set (running r) then register s r = None
       else \<exists>r'. register s r = Some r' \<and> ok r' \<and> running r' = running r @ [s])"
    and unregister_law: "ok r \<Longrightarrow>
      ok (unregister sid r) \<and> running (unregister sid r) = filter (\<lambda>s. sh_sessionId s \<noteq> sid) (running r)"
begin

text \<open>The gate, when check and registration are one step: a session of a user at the limit is refused.\<close>

definition admit :: "(string \<Rightarrow> int) \<Rightarrow> session_handle \<Rightarrow> 'r \<Rightarrow> 'r" where
  "admit limit s r =
     (if active r (sh_userId s) \<ge> limit (sh_userId s) then r
      else (case register s r of None \<Rightarrow> r | Some r' \<Rightarrow> r'))"

lemma active_register:
  assumes "ok r" and "register s r = Some r'"
  shows "active r' u = active r u + (if sh_userId s = u then 1 else 0)"
  using register_law [OF assms(1), of s] active_counts [OF assms(1)] active_counts [of r'] assms
  by (auto split: if_splits)

lemma filter_filter_le: "length (filter P (filter Q xs)) \<le> length (filter P xs)"
  by (induction xs) auto

lemma active_unregister: "ok r \<Longrightarrow> active (unregister sid r) u \<le> active r u"
  using unregister_law [of r sid] active_counts [of r u] active_counts [of "unregister sid r" u]
  by (simp add: filter_filter_le del: filter_filter)

lemma admit_ok: "ok r \<Longrightarrow> ok (admit limit s r)"
  using register_law [of r s] by (auto simp: admit_def split: if_splits option.splits)

lemma admit_within_limit:
  assumes "ok r" and "\<forall>u. active r u \<le> limit u"
  shows "active (admit limit s r) u \<le> limit u"
  using assms active_register [OF assms(1), of s]
  by (auto simp: admit_def split: option.splits)

text \<open>Any sequence of admissions and ends.\<close>

fun admissions :: "(string \<Rightarrow> int) \<Rightarrow> (session_handle + string) list \<Rightarrow> 'r \<Rightarrow> 'r" where
  "admissions limit [] r = r"
| "admissions limit (Inl s # xs) r = admissions limit xs (admit limit s r)"
| "admissions limit (Inr sid # xs) r = admissions limit xs (unregister sid r)"

lemma admissions_within_limit:
  "ok r \<Longrightarrow> \<forall>u. active r u \<le> limit u \<Longrightarrow>
     ok (admissions limit xs r) \<and> (\<forall>u. active (admissions limit xs r) u \<le> limit u)"
proof (induction limit xs r rule: admissions.induct)
  case (2 limit s xs r)
  then show ?case using admit_ok admit_within_limit by simp
next
  case (3 limit sid xs r)
  have "\<forall>u. active (unregister sid r) u \<le> limit u"
    using active_unregister [OF "3.prems"(1)] "3.prems"(2) order_trans by blast
  then show ?case using "3.IH" unregister_law [OF "3.prems"(1)] by simp
qed simp

end

section \<open>The registry meets it\<close>

definition user_count :: "(string, session_handle) jsmap \<Rightarrow> string \<Rightarrow> int" where
  "user_count m u = int (length (filter (\<lambda>p. sh_userId (snd p) = u) m))"

text \<open>The three maps agree.\<close>

definition reg_ok :: "registry \<Rightarrow> bool" where
  "reg_ok r \<longleftrightarrow>
     keys_distinct (reg_sessions r) \<and> keys_distinct (reg_perUser r)
     \<and> (\<forall>p \<in> set (reg_sessions r). sh_sessionId (snd p) = fst p)
     \<and> (\<forall>u. map_of (reg_perUser r) u =
          (if user_count (reg_sessions r) u = 0 then None else Some (user_count (reg_sessions r) u)))
     \<and> (\<forall>t sid. map_of (reg_byProjectorToken r) t = Some sid \<longrightarrow>
          (\<exists>s. map_of (reg_sessions r) sid = Some s \<and> sh_projectorToken s = t))"

lemma new_registry_ok [simp]: "reg_ok new_registry"
  by (simp add: reg_ok_def new_registry_def user_count_def)

lemma user_count_simps [simp]:
  "user_count [] u = 0"
  "user_count (p # m) u = (if sh_userId (snd p) = u then 1 else 0) + user_count m u"
  "user_count (m @ m') u = user_count m u + user_count m' u"
  by (simp_all add: user_count_def)

lemma user_count_nonneg [simp]: "0 \<le> user_count m u"
  by (simp add: user_count_def)

lemma by_token_sound:
  assumes "reg_ok r" and "map_of (reg_byProjectorToken r) t = Some sid"
  obtains x where "map_of (reg_sessions r) sid = Some x" and "sh_projectorToken x = t"
proof -
  have "\<forall>t sid. map_of (reg_byProjectorToken r) t = Some sid \<longrightarrow>
          (\<exists>s. map_of (reg_sessions r) sid = Some s \<and> sh_projectorToken s = t)"
    using assms(1) unfolding reg_ok_def by (elim conjE)
  with assms(2) that show thesis by blast
qed

lemma user_count_delete:
  "keys_distinct m \<Longrightarrow> map_of m sid = Some s \<Longrightarrow>
     user_count (map_delete sid m) u = user_count m u - (if sh_userId s = u then 1 else 0)"
proof (induction m)
  case (Cons p m)
  obtain k v where p: "p = (k, v)" by fastforce
  show ?case
  proof (cases "k = sid")
    case True
    then have "map_delete sid m = m" using Cons.prems(1) p by (auto intro!: delete_id simp: delete_notin_dom)
    then show ?thesis using Cons.prems p True by simp
  next
    case False
    then show ?thesis using Cons p by auto
  qed
qed simp

lemma running_ids_map: "reg_ok r \<Longrightarrow> map sh_sessionId (reg_list r) = map fst (reg_sessions r)"
  by (auto simp: reg_ok_def reg_list_def)

lemma running_key: "reg_ok r \<Longrightarrow> sh_sessionId ` set (reg_list r) = fst ` set (reg_sessions r)"
  using running_ids_map [of r] by (metis list.set_map)

lemma per_user: "reg_ok r \<Longrightarrow> map_of (reg_perUser r) u =
    (if user_count (reg_sessions r) u = 0 then None else Some (user_count (reg_sessions r) u))"
  by (simp add: reg_ok_def)

lemma active_count: "reg_ok r \<Longrightarrow> reg_activeFor r u = user_count (reg_sessions r) u"
  using per_user [of r u] by (simp add: reg_activeFor_def)

lemma register_ok:
  assumes "reg_ok r" and "reg_register s r = Some r'"
  shows "reg_ok r' \<and> reg_list r' = reg_list r @ [s]"
proof -
  have fresh: "sh_sessionId s \<notin> fst ` set (reg_sessions r)"
    using assms(2) by (auto simp: reg_register_def map_of_eq_None_iff split: if_splits)
  then have ses: "map_set (sh_sessionId s) s (reg_sessions r) = reg_sessions r @ [(sh_sessionId s, s)]"
    by (rule map_set_fresh)
  have r': "r' = r\<lparr>reg_sessions := map_set (sh_sessionId s) s (reg_sessions r),
        reg_byProjectorToken := map_set (sh_projectorToken s) (sh_sessionId s) (reg_byProjectorToken r),
        reg_perUser := map_set (sh_userId s)
          ((case map_of (reg_perUser r) (sh_userId s) of None \<Rightarrow> 0 | Some n \<Rightarrow> n) + 1) (reg_perUser r)\<rparr>"
    using assms(2) by (auto simp: reg_register_def split: if_splits)
  have list: "reg_list r' = reg_list r @ [s]"
    by (simp add: r' reg_list_def ses)
  have cnt: "user_count (reg_sessions r') u = user_count (reg_sessions r) u + (if sh_userId s = u then 1 else 0)" for u
    by (simp add: r' ses)
  have pu: "map_of (reg_perUser r') u =
      (if user_count (reg_sessions r') u = 0 then None else Some (user_count (reg_sessions r') u))" for u
  proof (cases "sh_userId s = u")
    case True
    then show ?thesis
      using user_count_nonneg [of "reg_sessions r" u] per_user [OF assms(1), of u] unfolding cnt
      by (simp add: r' add_nonneg_eq_0_iff del: user_count_nonneg)
  next
    case False
    then show ?thesis using per_user [OF assms(1), of u] unfolding cnt by (simp add: r')
  qed
  have tok: "\<exists>x. map_of (reg_sessions r') sid = Some x \<and> sh_projectorToken x = t"
    if "map_of (reg_byProjectorToken r') t = Some sid" for t sid
  proof (cases "t = sh_projectorToken s")
    case True
    then show ?thesis using that by (simp add: r')
  next
    case False
    then have "map_of (reg_byProjectorToken r) t = Some sid" using that by (simp add: r')
    then obtain x where x: "map_of (reg_sessions r) sid = Some x" "sh_projectorToken x = t"
      by (rule by_token_sound [OF assms(1)])
    then have "sid \<noteq> sh_sessionId s" using fresh by (metis map_of_SomeD fst_conv image_eqI)
    then show ?thesis using x by (simp add: r')
  qed
  have "keys_distinct (reg_sessions r')" "keys_distinct (reg_perUser r')"
    "\<forall>p \<in> set (reg_sessions r'). sh_sessionId (snd p) = fst p"
    using assms(1) fresh by (auto simp: r' reg_ok_def ses simp del: keys_distinct_set intro!: keys_distinct_set)
  then show ?thesis using pu tok list by (simp add: reg_ok_def)
qed

lemma unregister_ok:
  assumes "reg_ok r"
  shows "reg_ok (reg_unregister sid r) \<and> reg_list (reg_unregister sid r) = filter (\<lambda>s. sh_sessionId s \<noteq> sid) (reg_list r)"
proof (cases "map_of (reg_sessions r) sid")
  case None
  then have "sid \<notin> sh_sessionId ` set (reg_list r)"
    using running_key [OF assms] by (auto simp: map_of_eq_None_iff)
  then have "filter (\<lambda>s. sh_sessionId s \<noteq> sid) (reg_list r) = reg_list r"
    by (intro filter_True) auto
  then show ?thesis using assms None by (simp add: reg_unregister_def)
next
  case (Some s)
  let ?r = "reg_unregister sid r"
  have ses: "reg_sessions ?r = map_delete sid (reg_sessions r)"
    using Some by (simp add: reg_unregister_def Let_def)
  have dist: "keys_distinct (reg_sessions r)" using assms by (simp add: reg_ok_def)
  have cnt: "user_count (reg_sessions ?r) u = user_count (reg_sessions r) u - (if sh_userId s = u then 1 else 0)" for u
    unfolding ses by (rule user_count_delete [OF dist Some])
  have pos: "1 \<le> user_count (reg_sessions r) (sh_userId s)"
    using cnt [of "sh_userId s"] user_count_nonneg [of "reg_sessions ?r" "sh_userId s"] by simp
  have pu: "map_of (reg_perUser ?r) u =
      (if user_count (reg_sessions ?r) u = 0 then None else Some (user_count (reg_sessions ?r) u))" for u
    using Some pos per_user [OF assms, of u] per_user [OF assms, of "sh_userId s"] unfolding cnt
    by (cases "sh_userId s = u") (simp_all add: reg_unregister_def Let_def)
  have tok: "\<exists>x. map_of (reg_sessions ?r) i = Some x \<and> sh_projectorToken x = t"
    if "map_of (reg_byProjectorToken ?r) t = Some i" for t i
  proof -
    have t: "t \<noteq> sh_projectorToken s" "map_of (reg_byProjectorToken r) t = Some i"
      using that Some by (auto simp: reg_unregister_def Let_def split: if_splits)
    from by_token_sound [OF assms t(2)]
    obtain x where x: "map_of (reg_sessions r) i = Some x" "sh_projectorToken x = t" .
    then have "i \<noteq> sid" using t(1) Some by auto
    then show ?thesis using x by (simp add: ses)
  qed
  have list: "reg_list ?r = filter (\<lambda>s. sh_sessionId s \<noteq> sid) (reg_list r)"
  proof -
    have "map snd (map_delete sid m) = filter (\<lambda>s. sh_sessionId s \<noteq> sid) (map snd m)"
      if "\<forall>p \<in> set m. sh_sessionId (snd p) = fst p" for m
      using that by (induction m) auto
    moreover have "\<forall>p \<in> set (reg_sessions r). sh_sessionId (snd p) = fst p" using assms by (simp add: reg_ok_def)
    ultimately show ?thesis by (simp add: reg_list_def ses)
  qed
  have "keys_distinct (reg_sessions ?r)" "keys_distinct (reg_perUser ?r)"
    "\<forall>p \<in> set (reg_sessions ?r). sh_sessionId (snd p) = fst p"
    using assms Some by (auto simp: reg_ok_def reg_unregister_def Let_def set_map_delete)
  then show ?thesis using pu tok list by (simp add: reg_ok_def)
qed

interpretation registry_index: session_index reg_ok reg_register reg_unregister reg_activeFor reg_list
proof
  fix r :: registry and u :: string
  assume ok: "reg_ok r"
  show "distinct (map sh_sessionId (reg_list r))"
    using ok by (simp only: running_ids_map [OF ok]) (simp add: reg_ok_def)
  show "reg_activeFor r u = int (length (filter (\<lambda>s. sh_userId s = u) (reg_list r)))"
    by (simp add: active_count [OF ok] user_count_def reg_list_def filter_map o_def)
next
  fix r :: registry and s :: session_handle
  assume ok: "reg_ok r"
  show "if sh_sessionId s \<in> sh_sessionId ` set (reg_list r) then reg_register s r = None
       else \<exists>r'. reg_register s r = Some r' \<and> reg_ok r' \<and> reg_list r' = reg_list r @ [s]"
  proof (cases "reg_register s r")
    case None
    then show ?thesis using running_key [OF ok]
      by (auto simp: reg_register_def map_of_eq_None_iff split: if_splits)
  next
    case (Some r')
    then have "sh_sessionId s \<notin> sh_sessionId ` set (reg_list r)"
      unfolding running_key [OF ok] by (auto simp: reg_register_def map_of_eq_None_iff split: if_splits)
    then show ?thesis using register_ok [OF ok Some] Some by simp
  qed
next
  fix r :: registry and sid :: string
  assume "reg_ok r"
  then show "reg_ok (reg_unregister sid r) \<and>
      reg_list (reg_unregister sid r) = filter (\<lambda>s. sh_sessionId s \<noteq> sid) (reg_list r)"
    by (rule unregister_ok)
qed

section \<open>Properties\<close>

text \<open>Any sequence of registrations (a refused one changes nothing) and ends.\<close>

fun reg_history :: "(session_handle + string) list \<Rightarrow> registry \<Rightarrow> registry" where
  "reg_history [] r = r"
| "reg_history (Inl s # xs) r =
     reg_history xs (case reg_register s r of None \<Rightarrow> r | Some r' \<Rightarrow> r')"
| "reg_history (Inr sid # xs) r = reg_history xs (reg_unregister sid r)"

text \<open>The reference: a list of the running sessions.\<close>

fun running_after :: "(session_handle + string) list \<Rightarrow> session_handle list \<Rightarrow> session_handle list" where
  "running_after [] ss = ss"
| "running_after (Inl s # xs) ss =
     running_after xs (if sh_sessionId s \<in> sh_sessionId ` set ss then ss else ss @ [s])"
| "running_after (Inr sid # xs) ss = running_after xs (filter (\<lambda>s. sh_sessionId s \<noteq> sid) ss)"

lemma reg_history_running:
  "reg_ok r \<Longrightarrow> reg_ok (reg_history xs r) \<and> reg_list (reg_history xs r) = running_after xs (reg_list r)"
proof (induction xs r rule: reg_history.induct)
  case (2 s xs r)
  show ?case using 2 registry_index.register_law [OF "2.prems", of s] by (auto split: if_splits)
next
  case (3 sid xs r)
  then show ?case using registry_index.unregister_law by simp
qed simp

text \<open>
  The three maps of the registry agree. After any sequence of registrations and ends the registry holds
  exactly the sessions that a plain list would hold; \<open>get\<close> finds a session exactly when it is
  in that list under its id; \<open>activeFor\<close> is the number of the user's sessions in it, and a projector token
  leads to a running session with that token or to nothing.
\<close>

theorem registry_is_a_list:
  "reg_list (reg_history xs new_registry) = running_after xs []
   \<and> reg_size (reg_history xs new_registry) = length (running_after xs [])
   \<and> reg_activeFor (reg_history xs new_registry) u
       = int (length (filter (\<lambda>s. sh_userId s = u) (running_after xs [])))
   \<and> reg_get (reg_history xs new_registry) sid
       = find (\<lambda>s. sh_sessionId s = sid) (running_after xs [])
   \<and> (case reg_byToken (reg_history xs new_registry) t of None \<Rightarrow> True
      | Some s \<Rightarrow> s \<in> set (running_after xs []) \<and> sh_projectorToken s = t)"
proof -
  let ?r = "reg_history xs new_registry"
  have ok: "reg_ok ?r" and run: "reg_list ?r = running_after xs []"
    using reg_history_running [OF new_registry_ok, of xs] by (simp_all add: reg_list_def new_registry_def)
  have get: "reg_get ?r sid = find (\<lambda>s. sh_sessionId s = sid) (reg_list ?r)"
  proof -
    have "\<forall>p \<in> set (reg_sessions ?r). sh_sessionId (snd p) = fst p" using ok by (simp add: reg_ok_def)
    moreover have "map_of m sid = find (\<lambda>s. sh_sessionId s = sid) (map snd m)"
      if "\<forall>p \<in> set m. sh_sessionId (snd p) = fst p" for m
      using that by (induction m) auto
    ultimately show ?thesis by (simp add: reg_get_def reg_list_def)
  qed
  have tok: "s \<in> set (reg_list ?r) \<and> sh_projectorToken s = t" if tk: "reg_byToken ?r t = Some s" for s
  proof -
    obtain sid where sid: "map_of (reg_byProjectorToken ?r) t = Some sid" "map_of (reg_sessions ?r) sid = Some s"
      using tk by (auto simp: reg_byToken_def split: option.splits)
    from by_token_sound [OF ok sid(1)] sid(2) have "sh_projectorToken s = t" by auto
    moreover have "s \<in> set (reg_list ?r)" using map_of_SomeD [OF sid(2)] by (force simp: reg_list_def)
    ultimately show ?thesis by simp
  qed
  have "case reg_byToken ?r t of None \<Rightarrow> True | Some s \<Rightarrow> s \<in> set (running_after xs []) \<and> sh_projectorToken s = t"
    using tok by (simp add: run split: option.splits)
  moreover have "reg_size ?r = length (reg_list ?r)" by (simp add: reg_size_def reg_list_def)
  ultimately show ?thesis
    using get registry_index.active_counts [OF ok] by (simp add: run)
qed

end
