(* ===== verification/Auth.thy ===== *)
theory Auth
  imports Contracts
begin

text \<open>
  \<open>apps/relay/src/auth.ts\<close>: the single-use session token. The \<open>jose\<close> library (signature, audience,
  expiry) is the parameter \<open>jwt_verify\<close> and the parsing of its payload \<open>parse\<close>; Redis is the
  set of keys with the time until which each lives. Times are in milliseconds.
\<close>

section \<open>Failures\<close>

datatype auth_failure =
  MALFORMED | BAD_SIGNATURE | BAD_AUDIENCE | EXPIRED | BAD_CLAIMS | REVOKED | REPLAYED | PROTOCOL_UNSUPPORTED

text \<open>The errors of the library, with the claim of a failed claim check.\<close>

datatype jose_error =
  JWTExpired | JWTClaimValidationFailed string | JWSSignatureVerificationFailed | JWSInvalid | JWTInvalid | Other_jose_error

definition classify :: "jose_error \<Rightarrow> auth_failure" where
  "classify e =
     (case e of
        JWTExpired \<Rightarrow> EXPIRED
      | JWTClaimValidationFailed claim \<Rightarrow> if claim = ''aud'' then BAD_AUDIENCE else BAD_CLAIMS
      | JWSSignatureVerificationFailed \<Rightarrow> BAD_SIGNATURE
      | _ \<Rightarrow> MALFORMED)"

section \<open>The store of used and revoked tokens\<close>

record jti_store =
  js_used :: "(string, int) jsmap"
  js_revoked :: "string list"

definition used_key :: "string \<Rightarrow> string" where
  "used_key jti = ''used:'' @ jti"

definition revoked_key :: "string \<Rightarrow> string" where
  "revoked_key jti = ''revoked:'' @ jti"

text \<open>\<open>SET key 1 EX ttl NX\<close> at time \<open>now\<close>: done only when the key is absent or has run out.\<close>

definition claim_once :: "jti_store \<Rightarrow> int \<Rightarrow> string \<Rightarrow> int \<Rightarrow> bool \<times> jti_store" where
  "claim_once st now jti ttlSeconds =
     (case map_of (js_used st) (used_key jti) of
        Some until \<Rightarrow>
          if now < until then (False, st)
          else (True, st\<lparr>js_used := map_set (used_key jti) (now + ttlSeconds * 1000) (js_used st)\<rparr>)
      | None \<Rightarrow> (True, st\<lparr>js_used := map_set (used_key jti) (now + ttlSeconds * 1000) (js_used st)\<rparr>))"

definition isRevoked :: "jti_store \<Rightarrow> string \<Rightarrow> bool" where
  "isRevoked st jti \<longleftrightarrow> revoked_key jti \<in> set (js_revoked st)"

section \<open>Verification\<close>

definition clockToleranceSeconds :: int where
  "clockToleranceSeconds = 5"

definition verifySignature ::
    "('t \<Rightarrow> int \<Rightarrow> jose_error + 'p) \<Rightarrow> 't \<Rightarrow> int \<Rightarrow> auth_failure + 'p" where
  "verifySignature jwt_verify token now =
     (case jwt_verify token now of Inl e \<Rightarrow> Inl (classify e) | Inr payload \<Rightarrow> Inr payload)"

definition verifySessionJwt ::
    "('t \<Rightarrow> int \<Rightarrow> jose_error + 'p) \<Rightarrow> ('p \<Rightarrow> relay_jwt_claims option) \<Rightarrow> jti_store \<Rightarrow> int \<Rightarrow> 't
       \<Rightarrow> (auth_failure + relay_jwt_claims) \<times> jti_store" where
  "verifySessionJwt jwt_verify parse st now token =
     (case verifySignature jwt_verify token now of
        Inl f \<Rightarrow> (Inl f, st)
      | Inr payload \<Rightarrow>
          (case parse payload of
             None \<Rightarrow> (Inl BAD_CLAIMS, st)
           | Some claims \<Rightarrow>
               if isRevoked st (claim_jti claims) then (Inl REVOKED, st)
               else
                 let ttl = RELAY_JWT_TTL_SECONDS + clockToleranceSeconds * 2
                 in (case claim_once st now (claim_jti claims) ttl of
                       (False, st) \<Rightarrow> (Inl REPLAYED, st)
                     | (True, st) \<Rightarrow> (Inr claims, st))))"

definition assertProtocolSupported :: "string \<Rightarrow> auth_failure option" where
  "assertProtocolSupported version =
     (if isProtocolSupported version then None else Some PROTOCOL_UNSUPPORTED)"

section \<open>The public key\<close>

definition contains :: "string \<Rightarrow> string \<Rightarrow> bool" where
  "contains pat s \<longleftrightarrow> (\<exists>n \<le> length s. take (length pat) (drop n s) = pat)"

text \<open>\<open>pem.replace(/\\n/g, newline)\<close>: every backslash-n pair becomes a line feed.\<close>

fun unescape_newlines :: "string \<Rightarrow> string" where
  "unescape_newlines (a # b # s) =
     (if a = CHR 0x5C \<and> b = CHR ''n'' then CHR 0x0A # unescape_newlines s else a # unescape_newlines (b # s))"
| "unescape_newlines s = s"

text \<open>\<open>importSPKI\<close> is the library's; what it is given is decided here.\<close>

definition importSessionJwtKey ::
    "(string \<Rightarrow> string) \<Rightarrow> (string \<Rightarrow> 'k) \<Rightarrow> string \<Rightarrow> auth_failure + 'k" where
  "importSessionJwtKey base64_decode importSPKI publicKey =
     (let pem = (if contains ''BEGIN'' publicKey then publicKey else base64_decode publicKey)
      in if \<not> contains ''BEGIN'' pem then Inl MALFORMED
         else Inr (importSPKI (unescape_newlines pem)))"

section \<open>Single use\<close>

text \<open>Tokens presented at the door, in the order of time, and revocations between them.\<close>

datatype 't auth_act = Present int 't | Revoke string

fun present_all ::
    "('t \<Rightarrow> int \<Rightarrow> jose_error + 'p) \<Rightarrow> ('p \<Rightarrow> relay_jwt_claims option) \<Rightarrow> jti_store \<Rightarrow> 't auth_act list
       \<Rightarrow> (int \<times> (auth_failure + relay_jwt_claims)) list" where
  "present_all ver parse st [] = []"
| "present_all ver parse st (Present now token # acts) =
     (case verifySessionJwt ver parse st now token of
        (res, st') \<Rightarrow> (now, res) # present_all ver parse st' acts)"
| "present_all ver parse st (Revoke jti # acts) =
     present_all ver parse (st\<lparr>js_revoked := revoked_key jti # js_revoked st\<rparr>) acts"

fun times_of :: "'t auth_act list \<Rightarrow> int list" where
  "times_of [] = []"
| "times_of (Present now token # acts) = now # times_of acts"
| "times_of (Revoke jti # acts) = times_of acts"

definition accepted :: "(int \<times> (auth_failure + relay_jwt_claims)) list \<Rightarrow> relay_jwt_claims list" where
  "accepted rs = List.map_filter (\<lambda>(t, r). case r of Inl f \<Rightarrow> None | Inr c \<Rightarrow> Some c) rs"

lemma accepted_simps [simp]:
  "accepted [] = []" "accepted ((t, Inl f) # rs) = accepted rs" "accepted ((t, Inr c) # rs) = c # accepted rs"
  by (simp_all add: accepted_def map_filter_simps)

lemma used_key_inject [simp]: "used_key a = used_key b \<longleftrightarrow> a = b"
  by (simp add: used_key_def)

text \<open>What a verification does: it accepts only what the library accepts, whose marker was not set, and sets the marker.\<close>

lemma verify_accepts:
  assumes "verifySessionJwt ver parse st now token = (Inr c, st')"
  shows "\<exists>p. ver token now = Inr p \<and> parse p = Some c"
    and "case map_of (js_used st) (used_key (claim_jti c)) of None \<Rightarrow> True | Some t \<Rightarrow> t \<le> now"
    and "js_used st' = map_set (used_key (claim_jti c)) (now + 70000) (js_used st)"
    and "\<not> isRevoked st (claim_jti c)"
  using assms
  by (auto simp: verifySessionJwt_def verifySignature_def claim_once_def Let_def RELAY_JWT_TTL_SECONDS_def
      clockToleranceSeconds_def split: sum.splits option.splits if_splits)

lemma verify_rejects:
  "verifySessionJwt ver parse st now token = (Inl f, st') \<Longrightarrow> st' = st"
  by (auto simp: verifySessionJwt_def verifySignature_def claim_once_def Let_def
      split: sum.splits option.splits if_splits)

text \<open>The marker of a token stays until its time.\<close>

definition marked :: "jti_store \<Rightarrow> string \<Rightarrow> int \<Rightarrow> bool" where
  "marked st jti t \<longleftrightarrow> (case map_of (js_used st) (used_key jti) of None \<Rightarrow> False | Some u \<Rightarrow> t \<le> u)"

lemma div_bound: "t div 1000 < k \<Longrightarrow> t < k * 1000" for t k :: int
  using mult_div_mod_eq [of 1000 t] pos_mod_bound [of 1000 t] by linarith

lemma marked_not_accepted:
  assumes "sorted (times_of acts)"
    and "\<forall>token t p c. Present t token \<in> set acts \<longrightarrow> ver token t = Inr p \<longrightarrow> parse p = Some c \<longrightarrow> claim_jti c = jti \<longrightarrow> t < u"
    and "marked st jti u"
  shows "jti \<notin> claim_jti ` set (accepted (present_all ver parse st acts))"
  using assms
proof (induction ver parse st acts rule: present_all.induct)
  case (2 ver parse st now token acts)
  obtain res st' where v: "verifySessionJwt ver parse st now token = (res, st')" by fastforce
  have srt: "sorted (times_of acts)" using "2.prems"(1) by simp
  have bound: "\<forall>token t p c. Present t token \<in> set acts \<longrightarrow> ver token t = Inr p \<longrightarrow> parse p = Some c \<longrightarrow> claim_jti c = jti \<longrightarrow> t < u"
    using "2.prems"(2) by simp
  show ?case
  proof (cases res)
    case (Inl f)
    then have "st' = st" using verify_rejects v by metis
    then show ?thesis using "2.IH" [OF v [symmetric] srt bound] "2.prems"(3) v Inl by simp
  next
    case (Inr c)
    note acc = verify_accepts [OF v [unfolded Inr]]
    obtain p where p: "ver token now = Inr p" "parse p = Some c" using acc(1) by blast
    have other: "claim_jti c \<noteq> jti"
    proof
      assume eq: "claim_jti c = jti"
      then have "now < u" using "2.prems"(2) p by simp
      then show False using acc(2) "2.prems"(3) eq by (auto simp: marked_def split: option.splits)
    qed
    then have "marked st' jti u" using "2.prems"(3) acc(3) by (simp add: marked_def)
    from "2.IH" [OF v [symmetric] srt bound this] show ?thesis using v Inr other by auto
  qed
next
  case (3 ver parse st jti' acts)
  have bound: "\<forall>token t p c. Present t token \<in> set acts \<longrightarrow> ver token t = Inr p \<longrightarrow> parse p = Some c \<longrightarrow> claim_jti c = jti \<longrightarrow> t < u"
    using "3.prems"(2) by simp
  have "marked (st\<lparr>js_revoked := revoked_key jti' # js_revoked st\<rparr>) jti u"
    using "3.prems"(3) by (simp add: marked_def)
  from "3.IH" [OF _ bound this] "3.prems"(1) show ?case by simp
qed simp

text \<open>
  C16: A session token opens at most one session. Whatever tokens are presented in the
  order of time, and whatever is revoked between, no two accepted ones have the same \<open>jti\<close>. This rests on three
  facts about tokens, stated as hypotheses: the library accepts a token only until five seconds after its
  expiry; the relay's clock is at most five seconds behind the web app's, which signs tokens
  for 60 seconds; and a \<open>jti\<close> belongs to one expiry. The marker's 70 seconds are exactly enough.
\<close>

theorem session_token_single_use:
  assumes "sorted (times_of acts)"
    and "\<And>token t p c. ver token t = Inr p \<Longrightarrow> parse p = Some c \<Longrightarrow> t div 1000 < claim_exp c + 5"
    and "\<And>token t p c. Present t token \<in> set acts \<Longrightarrow> ver token t = Inr p \<Longrightarrow> parse p = Some c \<Longrightarrow> (claim_exp c - 60 - 5) * 1000 \<le> t"
    and "\<And>t1 k1 p1 c1 t2 k2 p2 c2. Present t1 k1 \<in> set acts \<Longrightarrow> ver k1 t1 = Inr p1 \<Longrightarrow> parse p1 = Some c1 \<Longrightarrow>
       Present t2 k2 \<in> set acts \<Longrightarrow> ver k2 t2 = Inr p2 \<Longrightarrow> parse p2 = Some c2 \<Longrightarrow>
       claim_jti c1 = claim_jti c2 \<Longrightarrow> claim_exp c1 = claim_exp c2"
  shows "distinct (map claim_jti (accepted (present_all ver parse st acts)))"
  using assms
proof (induction ver parse st acts rule: present_all.induct)
  case (2 ver parse st now token acts)
  obtain res st' where v: "verifySessionJwt ver parse st now token = (res, st')" by fastforce
  have srt: "sorted (times_of acts)" using "2.prems"(1) by simp
  have early: "\<And>token t p c. Present t token \<in> set acts \<Longrightarrow> ver token t = Inr p \<Longrightarrow> parse p = Some c \<Longrightarrow> (claim_exp c - 60 - 5) * 1000 \<le> t"
    using "2.prems"(3) by (meson list.set_intros(2))
  have same: "\<And>t1 k1 p1 c1 t2 k2 p2 c2. Present t1 k1 \<in> set acts \<Longrightarrow> ver k1 t1 = Inr p1 \<Longrightarrow> parse p1 = Some c1 \<Longrightarrow>
       Present t2 k2 \<in> set acts \<Longrightarrow> ver k2 t2 = Inr p2 \<Longrightarrow> parse p2 = Some c2 \<Longrightarrow>
       claim_jti c1 = claim_jti c2 \<Longrightarrow> claim_exp c1 = claim_exp c2"
    using "2.prems"(4) by (meson list.set_intros(2))
  have IH: "distinct (map claim_jti (accepted (present_all ver parse st' acts)))"
    by (rule "2.IH" [OF v [symmetric] srt "2.prems"(2) early same])
  show ?case
  proof (cases res)
    case (Inl f)
    then show ?thesis using IH v by simp
  next
    case (Inr c)
    note acc = verify_accepts [OF v [unfolded Inr]]
    obtain p where p: "ver token now = Inr p" "parse p = Some c" using acc(1) by blast
    have now: "(claim_exp c - 60 - 5) * 1000 \<le> now" using "2.prems"(3) p by (meson list.set_intros(1))
    have before: "t < now + 70000" if "Present t k \<in> set acts" "ver k t = Inr q" "parse q = Some d" "claim_jti d = claim_jti c" for k t q d
    proof -
      have "claim_exp d = claim_exp c"
        using "2.prems"(4) [of t k q d now token p c] that p by simp
      moreover have "t < (claim_exp d + 5) * 1000" using "2.prems"(2) that by (intro div_bound) blast
      ultimately show ?thesis using now by (simp add: algebra_simps)
    qed
    have "marked st' (claim_jti c) (now + 70000)" by (simp add: marked_def acc(3))
    then have "claim_jti c \<notin> claim_jti ` set (accepted (present_all ver parse st' acts))"
      by (intro marked_not_accepted [where u = "now + 70000"] srt) (use before in blast)+
    then show ?thesis using IH v Inr by simp
  qed
next
  case (3 ver parse st jti acts)
  have early: "\<And>token t p c. Present t token \<in> set acts \<Longrightarrow> ver token t = Inr p \<Longrightarrow> parse p = Some c \<Longrightarrow> (claim_exp c - 60 - 5) * 1000 \<le> t"
    using "3.prems"(3) by (meson list.set_intros(2))
  have same: "\<And>t1 k1 p1 c1 t2 k2 p2 c2. Present t1 k1 \<in> set acts \<Longrightarrow> ver k1 t1 = Inr p1 \<Longrightarrow> parse p1 = Some c1 \<Longrightarrow>
       Present t2 k2 \<in> set acts \<Longrightarrow> ver k2 t2 = Inr p2 \<Longrightarrow> parse p2 = Some c2 \<Longrightarrow>
       claim_jti c1 = claim_jti c2 \<Longrightarrow> claim_exp c1 = claim_exp c2"
    using "3.prems"(4) by (meson list.set_intros(2))
  have "sorted (times_of acts)" using "3.prems"(1) by simp
  from "3.IH" [OF this "3.prems"(2) early same] show ?case unfolding present_all.simps .
next
  case (1 ver parse st)
  show ?case by simp
qed

text \<open>A concrete door: tokens are claims, the library checks their expiry.\<close>

definition demo_claims :: "string \<Rightarrow> int \<Rightarrow> relay_jwt_claims" where
  "demo_claims jti e = \<lparr>claim_sub = ''u'', claim_sid = ''s'', claim_aud = ''relay'', claim_jti = jti,
     claim_plan = ''trial'', claim_reserved = 1, claim_cfg = default_SessionConfig, claim_exp = e, claim_iat = e - 60\<rparr>"

definition demo_jwt_verify :: "relay_jwt_claims \<Rightarrow> int \<Rightarrow> jose_error + relay_jwt_claims" where
  "demo_jwt_verify c t = (if t div 1000 < claim_exp c + 5 then Inr c else Inl JWTExpired)"

theorem session_token_single_use_witness:
  "distinct (map claim_jti (accepted (present_all demo_jwt_verify Some \<lparr>js_used = [], js_revoked = []\<rparr>
     [Present 1000 (demo_claims ''a'' 60), Present 60000 (demo_claims ''a'' 60), Present 64000 (demo_claims ''b'' 90)])))"
  by (rule session_token_single_use)
     (auto simp: demo_jwt_verify_def demo_claims_def split: if_splits)

end
