(* ===== verification/Secrets.thy ===== *)
theory Secrets
  imports Prelude Audio_Frame
begin

text \<open>
  \<open>apps/relay/src/crypto.ts\<close>: provider keys at rest. AES-256-GCM is the library's: the pair of
  parameters \<open>seal\<close> (key, iv, plaintext to ciphertext and tag) and \<open>unseal\<close>; the random iv is an
  argument. Base64 and the envelope are modelled; plaintexts are their UTF-8 bytes.
\<close>

section \<open>Base64url\<close>

definition b64_alphabet :: string where
  "b64_alphabet = ''ABCDEFGHIJKLMNOPQRSTUVWXYZabcdefghijklmnopqrstuvwxyz0123456789-_''"

definition b64_char :: "nat \<Rightarrow> char" where
  "b64_char n = b64_alphabet ! n"

fun index_of :: "char \<Rightarrow> string \<Rightarrow> nat option" where
  "index_of c [] = None"
| "index_of c (x # xs) = (if c = x then Some 0 else map_option Suc (index_of c xs))"

text \<open>The decoder reads both alphabets.\<close>

definition b64_value :: "char \<Rightarrow> nat option" where
  "b64_value c =
     (if c = CHR ''+'' then Some 62 else if c = CHR ''/'' then Some 63 else index_of c b64_alphabet)"

fun b64 :: "nat list \<Rightarrow> string" where
  "b64 [] = []"
| "b64 [a] = [b64_char (a div 4), b64_char (a mod 4 * 16)]"
| "b64 [a, b] = [b64_char (a div 4), b64_char (a mod 4 * 16 + b div 16), b64_char (b mod 16 * 4)]"
| "b64 (a # b # c # rest) =
     b64_char (a div 4) # b64_char (a mod 4 * 16 + b div 16)
       # b64_char (b mod 16 * 4 + c div 64) # b64_char (c mod 64) # b64 rest"

fun from_sextets :: "nat list \<Rightarrow> nat list" where
  "from_sextets (p # q # r # s # rest) =
     (p * 4 + q div 16) # (q mod 16 * 16 + r div 4) # (r mod 4 * 64 + s) # from_sextets rest"
| "from_sextets [p, q, r] = [p * 4 + q div 16, q mod 16 * 16 + r div 4]"
| "from_sextets [p, q] = [p * 4 + q div 16]"
| "from_sextets _ = []"

text \<open>Characters outside the alphabet are skipped.\<close>

definition unb64 :: "string \<Rightarrow> nat list" where
  "unb64 s = from_sextets (List.map_filter b64_value s)"

definition is_bytes :: "nat list \<Rightarrow> bool" where
  "is_bytes bs \<longleftrightarrow> list_all (\<lambda>b. b < 256) bs"

lemma is_bytes_simps [simp]: "is_bytes []" "is_bytes (b # bs) \<longleftrightarrow> b < 256 \<and> is_bytes bs"
  by (simp_all add: is_bytes_def)

lemma b64_alphabet_values: "list_all (\<lambda>n. b64_value (b64_alphabet ! n) = Some n) [0..<64]"
  by code_simp

lemma b64_value_char [simp]: "n < 64 \<Longrightarrow> b64_value (b64_char n) = Some n"
  using b64_alphabet_values by (simp add: list_all_iff b64_char_def)

text \<open>The six-bit groups of three bytes.\<close>

lemma sextet_bounds [simp]:
  "a < 256 \<Longrightarrow> a div 4 < (64 :: nat)" "a mod 4 * 16 < (64 :: nat)" "b mod 16 * 4 < (64 :: nat)" "c mod 64 < (64 :: nat)"
  "b < 256 \<Longrightarrow> a mod 4 * 16 + b div 16 < (64 :: nat)" "c < 256 \<Longrightarrow> b mod 16 * 4 + c div 64 < (64 :: nat)"
  by linarith+

lemma byte_split [simp]:
  fixes b :: nat
  assumes "b < 256"
  shows "b div 16 div 16 = 0" "b div 16 mod 16 = b div 16" "b div 64 div 4 = 0" "b div 64 mod 4 = b div 64"
proof -
  have "b div 16 < 16" "b div 64 < 4" using assms by linarith+
  then show "b div 16 div 16 = 0" "b div 16 mod 16 = b div 16" "b div 64 div 4 = 0" "b div 64 mod 4 = b div 64"
    by simp_all
qed

lemma b64_chars: "is_bytes bs \<Longrightarrow> c \<in> set (b64 bs) \<Longrightarrow> c \<in> b64_char ` {..<64}"
  by (induction bs rule: b64.induct) auto

lemma b64_no_dot_table: "list_all (\<lambda>n. b64_alphabet ! n \<noteq> CHR ''.'') [0..<64]"
  by code_simp

lemma b64_no_dot: "is_bytes bs \<Longrightarrow> CHR ''.'' \<notin> set (b64 bs)"
  using b64_chars [of bs "CHR ''.''"] b64_no_dot_table by (fastforce simp: list_all_iff b64_char_def)

lemma unb64_b64 [simp]: "is_bytes bs \<Longrightarrow> unb64 (b64 bs) = bs"
  by (induction bs rule: b64.induct) (simp_all add: unb64_def map_filter_simps)

section \<open>The envelope\<close>

definition CURRENT_KEY_VERSION :: nat where
  "CURRENT_KEY_VERSION = 1"

definition KEY_BYTES :: nat where
  "KEY_BYTES = 32"

definition IV_BYTES :: nat where
  "IV_BYTES = 12"

definition TAG_BYTES :: nat where
  "TAG_BYTES = 16"

datatype crypto_error = Key_length | Malformed_envelope | Decryption_failed

record decrypted_secret =
  ds_plaintext :: "nat list"
  ds_version :: nat

definition parseEncryptionKey :: "string \<Rightarrow> crypto_error + nat list" where
  "parseEncryptionKey base64Key =
     (let key = unb64 base64Key
      in if length key \<noteq> KEY_BYTES then Inl Key_length else Inr key)"

definition is_digit :: "char \<Rightarrow> bool" where
  "is_digit c \<longleftrightarrow> 48 \<le> (of_char c :: nat) \<and> (of_char c :: nat) < 58"

definition parseVersion :: "string \<Rightarrow> crypto_error + nat" where
  "parseVersion part =
     (case part of
        [] \<Rightarrow> Inl Malformed_envelope
      | v # ds \<Rightarrow>
          if v = CHR ''v'' \<and> ds \<noteq> [] \<and> list_all is_digit ds then Inr (read_digits ds) else Inl Malformed_envelope)"

type_synonym 'k seal = "'k \<Rightarrow> nat list \<Rightarrow> nat list \<Rightarrow> nat list \<times> nat list"
type_synonym 'k unseal = "'k \<Rightarrow> nat list \<Rightarrow> nat list \<Rightarrow> nat list \<Rightarrow> nat list option"

definition encryptSecret :: "'k seal \<Rightarrow> nat list \<Rightarrow> nat list \<Rightarrow> 'k \<Rightarrow> nat \<Rightarrow> string" where
  "encryptSecret seal iv plaintext key version =
     (case seal key iv plaintext of
        (ciphertext, tag) \<Rightarrow>
          join ''.'' [CHR ''v'' # show_nat version, b64 iv, b64 tag, b64 ciphertext])"

definition decryptSecret :: "'k unseal \<Rightarrow> string \<Rightarrow> 'k \<Rightarrow> crypto_error + decrypted_secret" where
  "decryptSecret unseal payload key =
     (case split_on (CHR ''.'') payload of
        [versionPart, ivPart, tagPart, dataPart] \<Rightarrow>
          (case parseVersion versionPart of
             Inl e \<Rightarrow> Inl e
           | Inr version \<Rightarrow>
               let iv = unb64 ivPart; tag = unb64 tagPart
               in if length iv \<noteq> IV_BYTES \<or> length tag \<noteq> TAG_BYTES then Inl Malformed_envelope
                  else (case unseal key iv tag (unb64 dataPart) of
                          None \<Rightarrow> Inl Decryption_failed
                        | Some plaintext \<Rightarrow> Inr \<lparr>ds_plaintext = plaintext, ds_version = version\<rparr>))
      | _ \<Rightarrow> Inl Malformed_envelope)"

definition encryptionVersionOf :: "string \<Rightarrow> crypto_error + nat" where
  "encryptionVersionOf payload = parseVersion (hd (split_on (CHR ''.'') payload))"

text \<open>sha-256 and base64url of a projector token; the digest is the library's.\<close>

definition hashProjectorToken :: "(string \<Rightarrow> nat list) \<Rightarrow> string \<Rightarrow> string" where
  "hashProjectorToken sha256 token = b64 (sha256 token)"

lemma show_nat_is_digit: "list_all is_digit (show_nat n)"
  using show_nat_digits by (simp add: list_all_iff is_digit_def)

lemma show_nat_not_Nil [simp]: "show_nat n \<noteq> []"
  by (subst show_nat.simps) simp

lemma parseVersion_show [simp]: "parseVersion (CHR ''v'' # show_nat n) = Inr n"
  by (simp add: parseVersion_def show_nat_is_digit read_show_nat)

lemma envelope_parts:
  assumes "is_bytes iv" and "is_bytes tag" and "is_bytes ct"
  shows "split_on (CHR ''.'') (join ''.'' [CHR ''v'' # show_nat version, b64 iv, b64 tag, b64 ct]) =
     [CHR ''v'' # show_nat version, b64 iv, b64 tag, b64 ct]"
proof (rule split_on_join)
  have "CHR ''.'' \<notin> set (show_nat version)" using show_nat_digits [of "CHR ''.''" version] by auto
  then show "\<forall>p \<in> set [CHR ''v'' # show_nat version, b64 iv, b64 tag, b64 ct]. CHR ''.'' \<notin> set p"
    using assms b64_no_dot by simp
qed simp

text \<open>
  C38: A stored key comes back. With a cipher whose \<open>unseal\<close> undoes \<open>seal\<close> and tells a wrong tag,
  what \<open>encryptSecret\<close> writes is read back to the same plaintext and key version, for every version;
  the version can be read without the key; and under a key that does not unseal it, the
  result is the one error that says nothing about why.
\<close>

theorem secret_roundtrip:
  assumes "seal key iv plaintext = (ct, tag)" and "is_bytes iv" and "length iv = 12" and "is_bytes tag" and "length tag = 16"
    and "is_bytes ct" and "unseal key iv tag ct = Some plaintext"
  shows "decryptSecret unseal (encryptSecret seal iv plaintext key version) key
       = Inr \<lparr>ds_plaintext = plaintext, ds_version = version\<rparr>
     \<and> encryptionVersionOf (encryptSecret seal iv plaintext key version) = Inr version
     \<and> (\<forall>key'. unseal key' iv tag ct = None \<longrightarrow>
          decryptSecret unseal (encryptSecret seal iv plaintext key version) key' = Inl Decryption_failed)"
proof -
  have e: "encryptSecret seal iv plaintext key version =
      join ''.'' [CHR ''v'' # show_nat version, b64 iv, b64 tag, b64 ct]"
    by (simp add: encryptSecret_def assms(1))
  note p = envelope_parts [OF assms(2,4,6), of version]
  show ?thesis
    unfolding e decryptSecret_def encryptionVersionOf_def p
    using assms by (simp add: IV_BYTES_def TAG_BYTES_def)
qed

text \<open>A cipher that only adds the key as its tag, to show that the hypotheses can be met.\<close>

definition demo_seal :: "nat list seal" where
  "demo_seal key iv plaintext = (plaintext, take 16 key)"

definition demo_unseal :: "nat list unseal" where
  "demo_unseal key iv tag ct = (if tag = take 16 key then Some ct else None)"

theorem secret_roundtrip_witness:
  "decryptSecret demo_unseal (encryptSecret demo_seal (replicate 12 7) [104, 105] (replicate 32 200) 3) (replicate 32 200)
     = Inr \<lparr>ds_plaintext = [104, 105], ds_version = 3\<rparr>"
  using secret_roundtrip [of demo_seal "replicate 32 200" "replicate 12 7" "[104, 105]" "[104, 105]" "replicate 16 200" demo_unseal 3]
  by (simp add: demo_seal_def demo_unseal_def is_bytes_def list_all_iff min_def)

end
