(* ===== verification/Stability.thy ===== *)
theory Stability
  imports Prelude
begin

text \<open>
  \<open>packages/caption-engine/src/stability.ts\<close>: the stability window that decides how much of a
  partial transcript may be shown as settled, and the rewrite tracker that widens it.
\<close>

section \<open>Stable prefix\<close>

definition tokenize :: "jstring \<Rightarrow> jstring list" where
  "tokenize text = filter (\<lambda>t. 0 < length t) (split_ws text)"

text \<open>\<open>while (i < common && i < hypothesis.length && hypothesis[i] === current[i]) i++\<close>.\<close>

function match_from :: "nat \<Rightarrow> 'a list \<Rightarrow> 'a list \<Rightarrow> nat \<Rightarrow> nat" where
  "match_from common hypothesis current i =
     (if i < common \<and> i < length hypothesis \<and> at_index hypothesis i = at_index current i
      then match_from common hypothesis current (Suc i) else i)"
  by pat_completeness auto
termination by (relation "measure (\<lambda>(common, hypothesis, current, i). common - i)") auto

declare match_from.simps [simp del]

fun common_loop :: "'a list list \<Rightarrow> 'a list \<Rightarrow> nat \<Rightarrow> nat" where
  "common_loop [] current common = common"
| "common_loop (hypothesis # window) current common =
     (let common' = match_from common hypothesis current 0
      in if common' = 0 then 0 else common_loop window current common')"

definition stablePrefixTokens :: "'a list list \<Rightarrow> nat \<Rightarrow> nat \<Rightarrow> nat" where
  "stablePrefixTokens history frames volatileTail =
     (if length history = 0 then 0
      else let current = last history
           in if length history < frames then 0
              else let common = common_loop (slice_last frames history) current (length current)
                   in nat (max 0 (min (int common) (int (length current) - int volatileTail))))"

fun sum_chars :: "jstring list \<Rightarrow> nat \<Rightarrow> nat" where
  "sum_chars tokens 0 = 0"
| "sum_chars tokens (Suc i) = sum_chars tokens i + length (tokens ! i)"

definition stablePrefixChars :: "jstring list \<Rightarrow> nat \<Rightarrow> nat" where
  "stablePrefixChars tokens stableTokens =
     (if stableTokens = 0 then 0
      else let n = min stableTokens (length tokens)
           in sum_chars tokens n + (n - 1))"

section \<open>Rewrite tracker\<close>

record rewrite_tracker =
  rw_window :: "bool list"
  rw_capacity :: nat

definition new_tracker :: "nat \<Rightarrow> rewrite_tracker" where
  "new_tracker capacity = \<lparr>rw_window = [], rw_capacity = capacity\<rparr>"

definition default_tracker :: rewrite_tracker where
  "default_tracker = new_tracker 20"

function rewrote_from :: "'a list \<Rightarrow> 'a list \<Rightarrow> nat \<Rightarrow> nat \<Rightarrow> bool" where
  "rewrote_from previous next compare i =
     (if i < compare
      then (if previous ! i \<noteq> next ! i then True else rewrote_from previous next compare (Suc i))
      else False)"
  by pat_completeness auto
termination by (relation "measure (\<lambda>(previous, next, compare, i). compare - i)") auto

declare rewrote_from.simps [simp del]

definition record_rewrite :: "rewrite_tracker \<Rightarrow> 'a list \<Rightarrow> 'a list \<Rightarrow> rewrite_tracker" where
  "record_rewrite t previous next =
     (let rewrote = rewrote_from previous next (min (length previous) (length next)) 0
      in t\<lparr>rw_window := push_shift (rw_capacity t) (rw_window t) rewrote\<rparr>)"

definition rewrite_rate :: "rewrite_tracker \<Rightarrow> jsnum" where
  "rewrite_rate t =
     (if length (rw_window t) = 0 then 0
      else of_nat (length (filter (\<lambda>b. b) (rw_window t))) / of_nat (length (rw_window t)))"

definition reset_tracker :: "rewrite_tracker \<Rightarrow> rewrite_tracker" where
  "reset_tracker t = t\<lparr>rw_window := []\<rparr>"

definition adaptiveFrames :: "nat \<Rightarrow> jsnum \<Rightarrow> jsnum \<Rightarrow> nat" where
  "adaptiveFrames base rewriteRate threshold = (if rewriteRate > threshold then base + 1 else base)"

section \<open>The stable prefix is the longest one the whole window agrees on\<close>

lemma tokenize_words: "tokenize text = words text"
  by (simp add: tokenize_def words_def)

lemma tokenize_is_word: "w \<in> set (tokenize text) \<Longrightarrow> is_word w"
  by (simp add: tokenize_words words_are_words)

lemma match_from_bounds: "i \<le> common \<Longrightarrow> i \<le> match_from common h c i \<and> match_from common h c i \<le> common"
proof (induction common h c i rule: match_from.induct)
  case (1 common h c i)
  then show ?case by (subst (1 2) match_from.simps) auto
qed

text \<open>\<open>agrees h c n\<close>: the hypothesis \<open>h\<close> has at least \<open>n\<close> tokens and the first \<open>n\<close> are those of \<open>c\<close>.\<close>

definition agrees :: "'a list \<Rightarrow> 'a list \<Rightarrow> nat \<Rightarrow> bool" where
  "agrees h c n \<longleftrightarrow> n \<le> length h \<and> take n h = take n c"

lemma agrees_0 [simp]: "agrees h c 0"
  by (simp add: agrees_def)

lemma agrees_Suc: "agrees h c (Suc n) \<longleftrightarrow> agrees h c n \<and> n < length h \<and> at_index h n = at_index c n"
proof (cases "n < length h")
  case h: True
  then have th: "take (Suc n) h = take n h @ [h ! n]" by (rule take_Suc_conv_app_nth)
  show ?thesis
  proof (cases "n < length c")
    case True
    then have "take (Suc n) c = take n c @ [c ! n]" by (rule take_Suc_conv_app_nth)
    with h th True show ?thesis by (simp add: agrees_def at_index_def)
  next
    case False
    then have "length (take (Suc n) c) \<le> n" and "length (take (Suc n) h) = Suc n"
      using h by auto
    then have "take (Suc n) h \<noteq> take (Suc n) c" by fastforce
    with h False show ?thesis by (simp add: agrees_def at_index_def)
  qed
qed (simp add: agrees_def)

lemma agrees_antimono: "agrees h c n \<Longrightarrow> m \<le> n \<Longrightarrow> agrees h c m"
proof -
  assume a: "agrees h c n" and "m \<le> n"
  then have "take m (take n h) = take m (take n c)" by (simp only: agrees_def)
  then have "take m h = take m c" using \<open>m \<le> n\<close> by (simp only: take_take min_absorb1)
  with a \<open>m \<le> n\<close> show ?thesis by (simp add: agrees_def)
qed

lemma match_from_agrees:
  assumes "agrees h c i" and "i \<le> common" and "n \<le> common"
  shows "n \<le> match_from common h c i \<longleftrightarrow> agrees h c n"
  using assms
proof (induction common h c i rule: match_from.induct)
  case (1 common h c i)
  show ?case
  proof (cases "i < common \<and> i < length h \<and> at_index h i = at_index c i")
    case True
    then have "match_from common h c i = match_from common h c (Suc i)"
      by (subst match_from.simps) simp
    with 1 True show ?thesis by (simp add: agrees_Suc)
  next
    case False
    then have m: "match_from common h c i = i" by (subst match_from.simps) auto
    have "\<not> agrees h c n" if "i < n"
    proof
      assume "agrees h c n"
      then have "agrees h c (Suc i)" using that by (auto elim: agrees_antimono)
      with False that "1.prems" show False by (auto simp: agrees_Suc)
    qed
    then show ?thesis using m "1.prems" agrees_antimono not_le by metis
  qed
qed

lemma common_loop_le: "common_loop window c common \<le> common"
proof (induction window c common rule: common_loop.induct)
  case (2 h window c common)
  then show ?case using match_from_bounds [of 0 common h c] by (auto simp: Let_def intro: order_trans)
qed simp

lemma common_loop_agrees:
  "n \<le> common \<Longrightarrow> n \<le> common_loop window c common \<longleftrightarrow> (\<forall>h \<in> set window. agrees h c n)"
proof (induction window c common rule: common_loop.induct)
  case (2 h window c common)
  have m: "n \<le> match_from common h c 0 \<longleftrightarrow> agrees h c n"
    using "2.prems" by (intro match_from_agrees) auto
  show ?case
  proof (cases "match_from common h c 0 = 0")
    case True
    then show ?thesis using m by (cases n) auto
  next
    case False
    show ?thesis
    proof (cases "n \<le> match_from common h c 0")
      case True
      then show ?thesis using "2.IH" [OF refl] False m by simp
    next
      case le: False
      then show ?thesis using m common_loop_le [of window c "match_from common h c 0"] False by auto
    qed
  qed
qed simp

lemma stable_le_iff:
  assumes "history \<noteq> []" and "frames \<le> length history"
  shows "n \<le> stablePrefixTokens history frames tail \<longleftrightarrow>
     n = 0 \<or> (n + tail \<le> length (last history) \<and>
              (\<forall>h \<in> set (slice_last frames history). agrees h (last history) n))"
proof -
  let ?c = "last history"
  let ?m = "common_loop (slice_last frames history) ?c (length ?c)"
  have st: "stablePrefixTokens history frames tail = min ?m (length ?c - tail)"
    using assms by (auto simp: stablePrefixTokens_def Let_def nat_diff_distrib min_def max_def)
  have "n \<le> min ?m (length ?c - tail) \<longleftrightarrow> n = 0 \<or> (n + tail \<le> length ?c \<and> n \<le> ?m)"
    by auto
  also have "\<dots> \<longleftrightarrow> n = 0 \<or> (n + tail \<le> length ?c \<and>
      (\<forall>h \<in> set (slice_last frames history). agrees h ?c n))"
    using common_loop_agrees [of n "length ?c" "slice_last frames history" ?c] by auto
  finally show ?thesis using st by simp
qed

lemma stable_short_history: "length history < frames \<Longrightarrow> stablePrefixTokens history frames tail = 0"
  by (auto simp: stablePrefixTokens_def Let_def)

lemma stable_le_length: "stablePrefixTokens history frames tail \<le> length (last history)"
  using common_loop_le [of "slice_last frames history" "last history" "length (last history)"]
  by (auto simp: stablePrefixTokens_def Let_def)

text \<open>
  Waiting longer or hiding more of the tail never makes more text stable.
\<close>

lemma stable_antimono_tail:
  assumes "t \<le> t'"
  shows "stablePrefixTokens history frames t' \<le> stablePrefixTokens history frames t"
proof (cases "history \<noteq> [] \<and> frames \<le> length history")
  case True
  then show ?thesis
    using stable_le_iff [of history frames _ t] stable_le_iff [of history frames _ t'] assms
    by (metis (no_types, lifting) add_le_mono le_refl le_trans)
next
  case False
  then show ?thesis by (auto simp: stable_short_history stablePrefixTokens_def not_le)
qed

lemma slice_last_mono: "0 < f \<Longrightarrow> f \<le> f' \<Longrightarrow> set (slice_last f xs) \<subseteq> set (slice_last f' xs)"
  by (simp add: slice_last_def set_drop_subset_set_drop diff_le_mono2)

lemma stable_antimono_frames:
  assumes "0 < f" and "f \<le> f'"
  shows "stablePrefixTokens history f' tail \<le> stablePrefixTokens history f tail"
proof (cases "history \<noteq> [] \<and> f' \<le> length history")
  case True
  then have "stablePrefixTokens history f' tail \<le> stablePrefixTokens history f tail
      \<longleftrightarrow> stablePrefixTokens history f' tail = 0 \<or>
         (stablePrefixTokens history f' tail + tail \<le> length (last history) \<and>
          (\<forall>h \<in> set (slice_last f history). agrees h (last history) (stablePrefixTokens history f' tail)))"
    using assms by (intro stable_le_iff) auto
  moreover have "stablePrefixTokens history f' tail = 0 \<or>
      (stablePrefixTokens history f' tail + tail \<le> length (last history) \<and>
       (\<forall>h \<in> set (slice_last f' history). agrees h (last history) (stablePrefixTokens history f' tail)))"
    using stable_le_iff [of history f' "stablePrefixTokens history f' tail" tail] True by simp
  ultimately show ?thesis using slice_last_mono [OF assms, of history] by blast
next
  case False
  then show ?thesis by (auto simp: stable_short_history stablePrefixTokens_def not_le)
qed

section \<open>Characters of the stable prefix\<close>

lemma sum_chars_take: "n \<le> length tokens \<Longrightarrow> sum_chars tokens n = sum_list (map length (take n tokens))"
  by (induction n) (auto simp: take_Suc_conv_app_nth)

lemma stablePrefixChars_length: "stablePrefixChars tokens n = length (unwords (take n tokens))"
  by (auto simp: stablePrefixChars_def Let_def sum_chars_take length_unwords min_def)

lemma unwords_take: "take (length (unwords (take n tokens))) (unwords tokens) = unwords (take n tokens)"
proof (cases "n = 0 \<or> length tokens \<le> n \<or> tokens = []")
  case True
  then show ?thesis by auto
next
  case False
  then have "unwords tokens = unwords (take n tokens) @ [32] @ unwords (drop n tokens)"
    by (metis append_take_drop_id join_append drop_eq_Nil take_eq_Nil)
  then show ?thesis by simp
qed

lemma stable_text: "take (stablePrefixChars tokens n) (unwords tokens) = unwords (take n tokens)"
  by (simp add: stablePrefixChars_length unwords_take)

lemma stablePrefixChars_le: "stablePrefixChars tokens n \<le> length (unwords tokens)"
proof -
  have "length (unwords (take n tokens)) = length (take (length (unwords (take n tokens))) (unwords tokens))"
    by (simp only: unwords_take)
  also have "\<dots> \<le> length (unwords tokens)" by simp
  finally show ?thesis by (simp only: stablePrefixChars_length)
qed

section \<open>Rewrite rate\<close>

lemma rewrote_from_iff: "rewrote_from p n compare i \<longleftrightarrow> (\<exists>j. i \<le> j \<and> j < compare \<and> p ! j \<noteq> n ! j)"
proof (induction p n compare i rule: rewrote_from.induct)
  case (1 p n compare i)
  show ?case
  proof (cases "i < compare \<and> p ! i = n ! i")
    case True
    then have "rewrote_from p n compare i \<longleftrightarrow> rewrote_from p n compare (Suc i)"
      by (subst rewrote_from.simps) simp
    also have "\<dots> \<longleftrightarrow> (\<exists>j. Suc i \<le> j \<and> j < compare \<and> p ! j \<noteq> n ! j)"
      using 1 True by simp
    also have "\<dots> \<longleftrightarrow> (\<exists>j. i \<le> j \<and> j < compare \<and> p ! j \<noteq> n ! j)"
      using True by (metis Suc_leD Suc_leI le_neq_implies_less)
    finally show ?thesis .
  next
    case False
    then show ?thesis by (subst rewrote_from.simps) auto
  qed
qed

text \<open>Only appending tokens is never a rewrite, in either direction.\<close>

lemma append_not_rewrote: "\<not> rewrote_from p (p @ q) (min (length p) (length (p @ q))) 0"
  by (auto simp: rewrote_from_iff nth_append)

definition tracker_ok :: "rewrite_tracker \<Rightarrow> bool" where
  "tracker_ok t \<longleftrightarrow> length (rw_window t) \<le> rw_capacity t"

lemma tracker_ok_ops [simp]:
  "tracker_ok (new_tracker c)" "tracker_ok default_tracker" "tracker_ok (reset_tracker t)"
  "tracker_ok t \<Longrightarrow> tracker_ok (record_rewrite t p n)"
  by (auto simp: tracker_ok_def new_tracker_def default_tracker_def reset_tracker_def
      record_rewrite_def Let_def queue_simps)

lemma rewrite_rate_range: "0 \<le> rewrite_rate t \<and> rewrite_rate t \<le> 1"
proof (cases "rw_window t = []")
  case False
  have "(of_nat (length (filter (\<lambda>b. b) (rw_window t))) :: rat) \<le> of_nat (length (rw_window t))"
    by (simp only: of_nat_le_iff length_filter_le)
  with False show ?thesis by (simp add: rewrite_rate_def)
qed (simp add: rewrite_rate_def)

lemma adaptiveFrames_range: "base \<le> adaptiveFrames base r t \<and> adaptiveFrames base r t \<le> Suc base"
  by (simp add: adaptiveFrames_def)

section \<open>Properties\<close>

text \<open>
  C27: The stable prefix is the longest prefix of the newest hypothesis that every hypothesis of
  the window (the last \<open>frames\<close> of the history) starts with and that leaves the last
  \<open>volatileTail\<close> tokens out; with fewer than \<open>frames\<close> hypotheses nothing is stable.
\<close>

theorem stable_prefix_is_longest:
  assumes "history \<noteq> []"
  shows "n \<le> stablePrefixTokens history frames volatileTail \<longleftrightarrow>
     n = 0 \<or> (frames \<le> length history \<and> n + volatileTail \<le> length (last history) \<and>
              (\<forall>h \<in> set (slice_last frames history). n \<le> length h \<and> take n h = take n (last history)))"
proof (cases "frames \<le> length history")
  case True
  then show ?thesis using stable_le_iff [OF assms, of frames n volatileTail] by (simp add: agrees_def)
next
  case False
  then show ?thesis by (simp add: stable_short_history)
qed

theorem stable_prefix_is_longest_witness:
  "(2 :: nat) \<le> stablePrefixTokens [[1, 2, 3, 9 :: nat], [1, 2, 3, 4, 5]] 2 2"
  by (subst stable_prefix_is_longest) (simp_all add: slice_last_def)

end
