(* ===== verification/Linebreak.thy ===== *)
theory Linebreak
  imports Prelude
begin

text \<open>
  \<open>packages/caption-engine/src/linebreak.ts\<close>: breaking a caption into at most \<open>maxLines\<close>
  lines at the best boundary, and the roll-up of lines.
\<close>

section \<open>Tables and patterns\<close>

definition LEADING_WORDS :: "jstring list" where
  "LEADING_WORDS =
     map js [''i'', ''a'', ''ale'', ''oraz'', ''lub'', ''albo'', ''czy''] @ [[380, 101]] @
     map js [''bo'', ''gdy'', ''kiedy''] @ [[106, 101, 347, 108, 105], js ''aby'',
       [107, 116, 243, 114, 121], [107, 116, 243, 114, 97], [107, 116, 243, 114, 101]] @
     map js [''w'', ''we'', ''z'', ''ze'', ''na'', ''do'', ''od'', ''po'', ''za'', ''przez'',
       ''dla'', ''o'', ''u'', ''przy'', ''nad'', ''pod'',
       ''and'', ''or'', ''but'', ''that'', ''which'', ''who'', ''when'', ''if'', ''because'',
       ''while'', ''the'', ''a'', ''an'', ''in'', ''on'', ''at'', ''to'', ''for'', ''of'',
       ''with'', ''from'', ''by'']"

definition is_stop :: "int \<Rightarrow> bool" where
  "is_stop c \<longleftrightarrow> c \<in> {46, 33, 63, 8230}"

definition is_closer :: "int \<Rightarrow> bool" where
  "is_closer c \<longleftrightarrow> c \<in> {34, 39, 187, 41, 93}"

text \<open>\<open>SENTENCE_END\<close>: a full stop of some kind, then at most one closing quote or bracket.\<close>

definition SENTENCE_END :: "jstring \<Rightarrow> bool" where
  "SENTENCE_END w =
     (case rev w of
        [] \<Rightarrow> False
      | c # r \<Rightarrow> is_stop c \<or> (is_closer c \<and> (case r of [] \<Rightarrow> False | d # _ \<Rightarrow> is_stop d)))"

definition STRONG_PAUSE :: "jstring \<Rightarrow> bool" where
  "STRONG_PAUSE w = (w \<noteq> [] \<and> last w \<in> {58, 59})"

definition WEAK_PAUSE :: "jstring \<Rightarrow> bool" where
  "WEAK_PAUSE w = (w \<noteq> [] \<and> last w = 44)"

definition is_digit :: "int \<Rightarrow> bool" where
  "is_digit c \<longleftrightarrow> 48 \<le> c \<and> c \<le> 57"

text \<open>\<open>NUMERIC\<close>: digits, and at most one fraction after a point or a comma.\<close>

definition NUMERIC :: "jstring \<Rightarrow> bool" where
  "NUMERIC w =
     (let d = takeWhile is_digit w; r = dropWhile is_digit w
      in d \<noteq> [] \<and>
         (case r of
            [] \<Rightarrow> True
          | c # f \<Rightarrow> c \<in> {46, 44} \<and> f \<noteq> [] \<and> list_all is_digit f))"

record candidate =
  cand_index :: nat
  cand_score :: jsnum
  cand_width :: nat

section \<open>Operations\<close>

definition boundaryScore :: "unicode \<Rightarrow> jstring list \<Rightarrow> nat \<Rightarrow> jsnum" where
  "boundaryScore u ws i =
     (case at_index ws (i + 1) of
        None \<Rightarrow> 5
      | Some nxt \<Rightarrow>
          if NUMERIC (ws ! i) then 0
          else if SENTENCE_END (ws ! i) then 4
          else if STRONG_PAUSE (ws ! i) then 3
          else if WEAK_PAUSE (ws ! i) then 2
          else if keep_letters u (lower u nxt) \<in> set LEADING_WORDS then 1
          else 1 / 2)"

text \<open>The loop of \<open>chooseBreak\<close>: what fits, and a candidate after each word that does.\<close>

function fit_loop ::
    "unicode \<Rightarrow> jstring list \<Rightarrow> nat \<Rightarrow> nat \<Rightarrow> nat \<Rightarrow> nat \<Rightarrow> candidate list \<Rightarrow> nat \<times> candidate list" where
  "fit_loop u ws maxChars i width lastFitting candidates =
     (if i < length ws then
        let word = ws ! i;
            nxt = (if width = 0 then length word else width + 1 + length word)
        in if nxt > maxChars then (lastFitting, candidates)
           else fit_loop u ws maxChars (i + 1) nxt (i + 1)
                  (candidates @ [\<lparr>cand_index = i + 1, cand_score = boundaryScore u ws i, cand_width = nxt\<rparr>])
      else (lastFitting, candidates))"
  by pat_completeness auto
termination by (relation "measure (\<lambda>(u, ws, maxChars, i, width, lastFitting, candidates). length ws - i)") auto

declare fit_loop.simps [simp del]

definition better :: "candidate \<Rightarrow> candidate \<Rightarrow> candidate" where
  "better best c =
     (if cand_score c > cand_score best \<or> (cand_score c = cand_score best \<and> cand_width c > cand_width best)
      then c else best)"

definition chooseBreak :: "unicode \<Rightarrow> jstring list \<Rightarrow> nat \<Rightarrow> nat \<Rightarrow> nat" where
  "chooseBreak u ws start maxChars =
     (case fit_loop u ws maxChars start 0 start [] of
        (lastFitting, candidates) \<Rightarrow>
          if lastFitting = start then start + 1
          else let minWidth = of_nat maxChars * (6 / 10 :: jsnum);
                   usable = filter (\<lambda>c. of_nat (cand_width c) \<ge> minWidth \<and> cand_score c > 0) candidates
               in (case usable of
                     [] \<Rightarrow> lastFitting
                   | c0 # _ \<Rightarrow> cand_index (foldl better c0 usable)))"

function break_loop ::
    "unicode \<Rightarrow> jstring list \<Rightarrow> nat \<Rightarrow> nat \<Rightarrow> jstring list \<Rightarrow> nat \<Rightarrow> jstring list \<times> nat" where
  "break_loop u ws maxChars maxLines lines cursor =
     (if cursor < length ws \<and> length lines < maxLines then
        let upto = chooseBreak u ws cursor maxChars
        in break_loop u ws maxChars maxLines
             (lines @ [unwords (take (upto - cursor) (drop cursor ws))]) upto
      else (lines, cursor))"
  by pat_completeness auto
termination by (relation "measure (\<lambda>(u, ws, maxChars, maxLines, lines, cursor). maxLines - length lines)") auto

declare break_loop.simps [simp del]

definition breakIntoLines :: "unicode \<Rightarrow> jstring \<Rightarrow> nat \<Rightarrow> nat \<Rightarrow> jstring list \<times> jstring" where
  "breakIntoLines u text maxChars maxLines =
     (let ws = words (trim text)
      in if length ws = 0 then ([], [])
         else (case break_loop u ws maxChars maxLines [] 0 of
                 (lines, cursor) \<Rightarrow> (lines, unwords (drop cursor ws))))"

definition rollUp :: "'a list \<Rightarrow> 'a list \<Rightarrow> nat \<Rightarrow> 'a list" where
  "rollUp current incoming maxLines =
     (let merged = current @ incoming in drop (length merged - maxLines) merged)"

section \<open>What fits on one line\<close>

text \<open>The words \<open>start \<dots> to - 1\<close>, and the width of that line.\<close>

definition line_of :: "jstring list \<Rightarrow> nat \<Rightarrow> nat \<Rightarrow> jstring list" where
  "line_of ws a b = take (b - a) (drop a ws)"

definition line_width :: "jstring list \<Rightarrow> nat \<Rightarrow> nat \<Rightarrow> nat" where
  "line_width ws a b = length (unwords (line_of ws a b))"

lemma line_of_Suc: "a \<le> b \<Longrightarrow> b < length ws \<Longrightarrow> line_of ws a (Suc b) = line_of ws a b @ [ws ! b]"
  by (simp add: line_of_def Suc_diff_le take_Suc_conv_app_nth)

lemma line_of_same [simp]: "line_of ws a a = []"
  by (simp add: line_of_def)

lemma length_line_of: "b \<le> length ws \<Longrightarrow> length (line_of ws a b) = b - a"
  by (auto simp: line_of_def)

lemma set_line_of: "set (line_of ws a b) \<subseteq> set ws"
  unfolding line_of_def by (meson set_drop_subset set_take_subset subset_trans)

lemma line_width_Suc:
  assumes "a \<le> b" and "b < length ws"
  shows "line_width ws a (Suc b) =
     (if a = b then length (ws ! b) else line_width ws a b + 1 + length (ws ! b))"
proof (cases "a = b")
  case False
  then have "line_of ws a b \<noteq> []"
    using assms by (metis length_line_of diff_is_0_eq le_antisym length_0_conv less_imp_le_nat)
  then show ?thesis
    using assms False by (simp add: line_width_def line_of_Suc join_append)
qed (use assms in \<open>simp add: line_width_def line_of_Suc\<close>)

lemma line_width_pos:
  assumes "\<forall>w \<in> set ws. w \<noteq> []" and "a < b" and "b \<le> length ws"
  shows "0 < line_width ws a b"
proof -
  have "line_of ws a b \<noteq> []" using assms by (simp add: line_of_def)
  moreover have "\<forall>w \<in> set (line_of ws a b). w \<noteq> []" using assms(1) set_line_of by blast
  ultimately show ?thesis by (simp add: line_width_def join_eq_Nil)
qed

lemma line_width_mono: "a \<le> b \<Longrightarrow> b \<le> c \<Longrightarrow> c \<le> length ws \<Longrightarrow> line_width ws a b \<le> line_width ws a c"
proof (induction c)
  case (Suc c)
  show ?case
  proof (cases "b = Suc c")
    case False
    then have "line_width ws a b \<le> line_width ws a c" using Suc by simp
    also have "\<dots> \<le> line_width ws a (Suc c)"
      using Suc.prems False line_width_Suc [of a c ws] by (cases "a = c") (simp_all add: line_width_def)
    finally show ?thesis .
  qed simp
qed simp

text \<open>Every candidate is a prefix of the rest of the text that fits, with its true width.\<close>

definition cand_ok :: "unicode \<Rightarrow> jstring list \<Rightarrow> nat \<Rightarrow> nat \<Rightarrow> nat \<Rightarrow> candidate \<Rightarrow> bool" where
  "cand_ok u ws a maxChars b c \<longleftrightarrow>
     a < cand_index c \<and> cand_index c \<le> b \<and> cand_width c = line_width ws a (cand_index c) \<and>
     cand_width c \<le> maxChars \<and> cand_score c = boundaryScore u ws (cand_index c - 1)"

lemma fit_loop_spec:
  assumes "\<forall>w \<in> set ws. w \<noteq> []" and "a \<le> i" and "i \<le> length ws"
    and "width = line_width ws a i" and "lastFitting = i" and "a < i \<longrightarrow> width \<le> maxChars"
    and "\<forall>c \<in> set cands. cand_ok u ws a maxChars i c"
    and "fit_loop u ws maxChars i width lastFitting cands = (b, cs)"
  shows "i \<le> b \<and> b \<le> length ws \<and> (\<forall>c \<in> set cs. cand_ok u ws a maxChars b c)
     \<and> (a < b \<longrightarrow> line_width ws a b \<le> maxChars)
     \<and> (b < length ws \<longrightarrow> maxChars < line_width ws a (Suc b))"
  using assms
proof (induction u ws maxChars i width lastFitting cands rule: fit_loop.induct)
  case (1 u ws maxChars i width lastFitting cands)
  let ?next = "if width = 0 then length (ws ! i) else width + 1 + length (ws ! i)"
  show ?case
  proof (cases "i < length ws")
    case i: True
    have w0: "width = 0 \<longleftrightarrow> a = i"
    proof (cases "a = i")
      case True
      then show ?thesis using "1.prems"(4) by (simp add: line_width_def)
    next
      case False
      then have "0 < line_width ws a i" using "1.prems"(1-3) by (intro line_width_pos) auto
      then show ?thesis using "1.prems"(4) False by simp
    qed
    have nx: "?next = line_width ws a (Suc i)"
      using line_width_Suc [of a i ws] "1.prems" i w0 by simp
    show ?thesis
    proof (cases "?next > maxChars")
      case True
      then show ?thesis
        using "1.prems" i nx by (subst (asm) fit_loop.simps) auto
    next
      case False
      let ?c = "\<lparr>cand_index = i + 1, cand_score = boundaryScore u ws i, cand_width = ?next\<rparr>"
      have eq: "fit_loop u ws maxChars (i + 1) ?next (i + 1) (cands @ [?c]) = (b, cs)"
        using "1.prems"(8) i False by (subst (asm) fit_loop.simps) (simp add: Let_def)
      have new: "\<forall>c \<in> set (cands @ [?c]). cand_ok u ws a maxChars (i + 1) c"
        using "1.prems"(2,7) False nx by (fastforce simp: cand_ok_def)
      have "i + 1 \<le> b \<and> b \<le> length ws \<and> (\<forall>c \<in> set cs. cand_ok u ws a maxChars b c)
          \<and> (a < b \<longrightarrow> line_width ws a b \<le> maxChars)
          \<and> (b < length ws \<longrightarrow> maxChars < line_width ws a (Suc b))"
        by (rule "1.IH" [OF i refl refl False]) (use "1.prems" i False nx new eq in auto)
      then show ?thesis by auto
    qed
  next
    case False
    then show ?thesis
      using "1.prems" by (subst (asm) fit_loop.simps) auto
  qed
qed

lemma fold_better_in: "foldl better c0 cs \<in> insert c0 (set cs)"
proof (induction cs arbitrary: c0)
  case (Cons c cs)
  have "better c0 c \<in> {c0, c}" by (simp add: better_def)
  then show ?case using Cons [of "better c0 c"] by auto
qed simp

text \<open>The order in which \<open>chooseBreak\<close> prefers candidates, and that the fold finds its greatest.\<close>

definition at_least :: "candidate \<Rightarrow> candidate \<Rightarrow> bool" where
  "at_least c d \<longleftrightarrow> cand_score d < cand_score c \<or> (cand_score d = cand_score c \<and> cand_width d \<le> cand_width c)"

lemma at_least_trans: "at_least c d \<Longrightarrow> at_least d e \<Longrightarrow> at_least c e"
  by (auto simp: at_least_def)

lemma better_at_least: "at_least (better c d) c" "at_least (better c d) d"
  by (auto simp: better_def at_least_def)

lemma fold_better_greatest: "d \<in> insert c0 (set cs) \<Longrightarrow> at_least (foldl better c0 cs) d"
proof (induction cs arbitrary: c0 d)
  case Nil
  then show ?case by (simp add: at_least_def)
next
  case (Cons c cs)
  have top: "at_least (foldl better (better c0 c) cs) (better c0 c)"
    by (rule Cons.IH) simp
  then show ?case
    using Cons.prems Cons.IH [of d "better c0 c"] better_at_least [of c0 c] at_least_trans by auto
qed

section \<open>One line\<close>

text \<open>What a break at \<open>b\<close> promises: the line is not empty, it fits unless it is one single
  word, and either at least 60 percent of it is used or nothing more would fit.\<close>

definition good_break :: "jstring list \<Rightarrow> nat \<Rightarrow> nat \<Rightarrow> nat \<Rightarrow> bool" where
  "good_break ws maxChars a b \<longleftrightarrow> a < b \<and> b \<le> length ws
     \<and> (line_width ws a b \<le> maxChars \<or> b = Suc a)
     \<and> (b < length ws \<longrightarrow> 6 * maxChars \<le> 10 * line_width ws a b \<or> maxChars < line_width ws a (Suc b))"

lemma sixty_percent: "of_nat n * (6 / 10) \<le> (of_nat m :: rat) \<longleftrightarrow> 6 * n \<le> 10 * m"
proof -
  have "of_nat n * (6 / 10) \<le> (of_nat m :: rat) \<longleftrightarrow> 6 * of_nat n \<le> (10 * of_nat m :: rat)"
    by linarith
  also have "\<dots> \<longleftrightarrow> (of_nat (6 * n) :: rat) \<le> of_nat (10 * m)" by simp
  finally show ?thesis by (simp only: of_nat_le_iff)
qed

lemma chooseBreak_good:
  assumes "\<forall>w \<in> set ws. w \<noteq> []" and "a < length ws"
  shows "good_break ws maxChars a (chooseBreak u ws a maxChars)"
proof -
  obtain b cs where fit: "fit_loop u ws maxChars a 0 a [] = (b, cs)" by fastforce
  have spec: "a \<le> b \<and> b \<le> length ws \<and> (\<forall>c \<in> set cs. cand_ok u ws a maxChars b c)
     \<and> (a < b \<longrightarrow> line_width ws a b \<le> maxChars)
     \<and> (b < length ws \<longrightarrow> maxChars < line_width ws a (Suc b))"
    by (rule fit_loop_spec [OF assms(1) _ _ _ refl _ _ fit])
       (use assms(2) in \<open>simp_all add: line_width_def\<close>)
  show ?thesis
  proof (cases "b = a")
    case True
    then have "chooseBreak u ws a maxChars = Suc a" by (simp add: chooseBreak_def fit)
    then show ?thesis using spec True assms(2)
      line_width_mono [of a "Suc a" "Suc (Suc a)" ws] by (auto simp: good_break_def)
  next
    case False
    then have ab: "a < b" using spec by simp
    let ?usable = "filter (\<lambda>c. of_nat (cand_width c) \<ge> of_nat maxChars * (6 / 10 :: rat) \<and> cand_score c > 0) cs"
    show ?thesis
    proof (cases ?usable)
      case Nil
      then have "chooseBreak u ws a maxChars = b" using False by (simp add: chooseBreak_def fit)
      then show ?thesis using spec ab by (simp add: good_break_def)
    next
      case (Cons c0 rest)
      let ?best = "foldl better c0 ?usable"
      have eq: "chooseBreak u ws a maxChars = cand_index ?best"
        using False by (simp only: chooseBreak_def fit Let_def Cons case_prod_conv list.case if_False)
      have "?best \<in> set ?usable" using fold_better_in [of c0 ?usable] Cons by (metis insertE list.set_intros(1))
      then have "cand_ok u ws a maxChars b ?best" "of_nat maxChars * (6 / 10 :: rat) \<le> of_nat (cand_width ?best)"
        using spec by auto
      then show ?thesis unfolding eq good_break_def
        using spec by (auto simp: cand_ok_def sixty_percent)
    qed
  qed
qed

text \<open>Among the breaks that use at least 60 percent of the line, the one with the best boundary is taken.\<close>

lemma chooseBreak_best:
  assumes "fit_loop u ws maxChars a 0 a [] = (b, cs)" and "c \<in> set cs"
    and "6 * maxChars \<le> 10 * cand_width c" and "0 < cand_score c" and "b \<noteq> a"
  shows "\<exists>best \<in> set cs. chooseBreak u ws a maxChars = cand_index best \<and> at_least best c"
proof -
  let ?usable = "filter (\<lambda>c. of_nat (cand_width c) \<ge> of_nat maxChars * (6 / 10 :: rat) \<and> cand_score c > 0) cs"
  have c: "c \<in> set ?usable" using assms by (simp add: sixty_percent)
  then have "?usable \<noteq> []" by (metis list.distinct(1) list.set_cases)
  then obtain c0 rest where us: "?usable = c0 # rest" by (meson neq_Nil_conv)
  have "foldl better c0 ?usable \<in> set ?usable"
    using fold_better_in [of c0 ?usable] us by (metis insertE list.set_intros(1))
  moreover have "chooseBreak u ws a maxChars = cand_index (foldl better c0 ?usable)"
    using assms(5) by (simp only: chooseBreak_def assms(1) Let_def us case_prod_conv list.case if_False)
  moreover have "at_least (foldl better c0 ?usable) c"
    using c by (intro fold_better_greatest) simp
  ultimately show ?thesis by auto
qed

section \<open>The whole text\<close>

text \<open>\<open>cuts_ok ws maxChars a cuts b\<close>: from word \<open>a\<close> to word \<open>b\<close> by good breaks.\<close>

fun cuts_ok :: "jstring list \<Rightarrow> nat \<Rightarrow> nat \<Rightarrow> nat list \<Rightarrow> nat \<Rightarrow> bool" where
  "cuts_ok ws maxChars a [] b = (a = b)"
| "cuts_ok ws maxChars a (c # cuts) b = (good_break ws maxChars a c \<and> cuts_ok ws maxChars c cuts b)"

fun lines_at :: "jstring list \<Rightarrow> nat \<Rightarrow> nat list \<Rightarrow> jstring list list" where
  "lines_at ws a [] = []"
| "lines_at ws a (c # cuts) = line_of ws a c # lines_at ws c cuts"

lemma length_lines_at [simp]: "length (lines_at ws a cuts) = length cuts"
  by (induction ws a cuts rule: lines_at.induct) auto

lemma concat_lines_at:
  "cuts_ok ws maxChars a cuts b \<Longrightarrow> concat (lines_at ws a cuts) @ drop b ws = drop a ws"
proof (induction ws maxChars a cuts b rule: cuts_ok.induct)
  case (2 ws maxChars a c cuts b)
  then have "a < c" by (auto simp: good_break_def)
  then have "line_of ws a c @ drop c ws = drop a ws"
    by (metis append_take_drop_id drop_drop le_add_diff_inverse2 less_imp_le_nat line_of_def)
  with 2 show ?case by simp
qed simp

lemma lines_at_good:
  "cuts_ok ws maxChars a cuts b \<Longrightarrow> g \<in> set (lines_at ws a cuts) \<Longrightarrow>
     g \<noteq> [] \<and> set g \<subseteq> set ws \<and> (length (unwords g) \<le> maxChars \<or> length g = 1)"
proof (induction ws maxChars a cuts b rule: cuts_ok.induct)
  case (2 ws maxChars a c cuts b)
  have "line_of ws a c \<noteq> [] \<and> set (line_of ws a c) \<subseteq> set ws
      \<and> (length (unwords (line_of ws a c)) \<le> maxChars \<or> length (line_of ws a c) = 1)"
    using "2.prems"(1) set_line_of [of ws a c] length_line_of [of c ws a]
    by (auto simp: good_break_def line_width_def)
  with 2 show ?case by auto
qed simp

lemma break_loop_spec:
  assumes "\<forall>w \<in> set ws. w \<noteq> []" and "cursor \<le> length ws" and "length lines \<le> maxLines"
    and "break_loop u ws maxChars maxLines lines cursor = (res, b)"
  shows "\<exists>cuts. cuts_ok ws maxChars cursor cuts b \<and> res = lines @ map unwords (lines_at ws cursor cuts)
     \<and> length res \<le> maxLines \<and> (b < length ws \<longrightarrow> length res = maxLines)"
  using assms
proof (induction u ws maxChars maxLines lines cursor rule: break_loop.induct)
  case (1 u ws maxChars maxLines lines cursor)
  show ?case
  proof (cases "cursor < length ws \<and> length lines < maxLines")
    case True
    let ?t = "chooseBreak u ws cursor maxChars"
    have good: "good_break ws maxChars cursor ?t"
      using chooseBreak_good "1.prems"(1) True by blast
    have eq: "break_loop u ws maxChars maxLines (lines @ [unwords (line_of ws cursor ?t)]) ?t = (res, b)"
      using "1.prems"(4) True by (subst (asm) break_loop.simps) (simp add: Let_def line_of_def)
    have "\<exists>cuts. cuts_ok ws maxChars ?t cuts b
        \<and> res = (lines @ [unwords (line_of ws cursor ?t)]) @ map unwords (lines_at ws ?t cuts)
        \<and> length res \<le> maxLines \<and> (b < length ws \<longrightarrow> length res = maxLines)"
      unfolding line_of_def
      by (rule "1.IH" [OF True refl]) (use "1.prems" True good eq in \<open>auto simp: good_break_def line_of_def\<close>)
    then obtain cuts where "cuts_ok ws maxChars ?t cuts b"
      "res = (lines @ [unwords (line_of ws cursor ?t)]) @ map unwords (lines_at ws ?t cuts)"
      "length res \<le> maxLines" "b < length ws \<longrightarrow> length res = maxLines" by blast
    then show ?thesis using good by (intro exI [of _ "?t # cuts"]) simp
  next
    case False
    then have "res = lines" "b = cursor"
      using "1.prems"(4) by (subst (asm) break_loop.simps, auto)+
    with False "1.prems" show ?thesis by (intro exI [of _ "[]"]) auto
  qed
qed

text \<open>
  The lines and the overflow together are the words of the text, in order; there are at most
  \<open>maxLines\<close> lines, and exactly that many when something overflows; every line fits unless it
  is one word longer than a line.
\<close>

lemma breakIntoLines_spec:
  assumes "breakIntoLines u text maxChars maxLines = (lines, overflow)"
  obtains groups rest where
    "lines = map unwords groups" "overflow = unwords rest" "concat groups @ rest = words text"
    "length lines \<le> maxLines" "rest \<noteq> [] \<longrightarrow> length lines = maxLines"
    "\<forall>g \<in> set groups. g \<noteq> [] \<and> set g \<subseteq> set (words text) \<and> (length (unwords g) \<le> maxChars \<or> length g = 1)"
proof (cases "words text = []")
  case True
  then show ?thesis using assms that [of "[]" "[]"] by (simp add: breakIntoLines_def)
next
  case False
  have ne: "\<forall>w \<in> set (words text). w \<noteq> []"
    using words_are_words by (auto simp: is_word_def)
  obtain res b where loop: "break_loop u (words text) maxChars maxLines [] 0 = (res, b)" by fastforce
  then have res: "res = lines" "overflow = unwords (drop b (words text))"
    using assms False by (auto simp: breakIntoLines_def Let_def)
  obtain cuts where cuts: "cuts_ok (words text) maxChars 0 cuts b"
    "lines = map unwords (lines_at (words text) 0 cuts)"
    "length lines \<le> maxLines" "b < length (words text) \<longrightarrow> length lines = maxLines"
    using break_loop_spec [OF ne _ _ loop] res(1) by auto
  show ?thesis
    by (rule that [of "lines_at (words text) 0 cuts" "drop b (words text)"])
       (use cuts res concat_lines_at [OF cuts(1)] lines_at_good [OF cuts(1)] in auto)
qed

lemma breakIntoLines_words:
  assumes "breakIntoLines u text maxChars maxLines = (lines, overflow)"
  shows "concat (map words lines) @ words overflow = words text"
proof -
  obtain groups rest where g: "lines = map unwords groups" "overflow = unwords rest"
    "concat groups @ rest = words text"
    "\<forall>g \<in> set groups. g \<noteq> [] \<and> set g \<subseteq> set (words text) \<and> (length (unwords g) \<le> maxChars \<or> length g = 1)"
    using breakIntoLines_spec [OF assms] by metis
  have w: "\<forall>w \<in> set (words text). is_word w" using words_are_words by blast
  then have "map words lines = groups"
    using g(4) unfolding g(1) map_map by (intro map_idI) (auto intro!: words_unwords)
  moreover have "words overflow = rest"
    unfolding g(2) by (rule words_unwords) (use w g(3) in \<open>metis Un_iff set_append\<close>)
  ultimately show ?thesis using g(3) by simp
qed

lemma rollUp_spec: "rollUp current incoming maxLines = drop (length current + length incoming - maxLines) (current @ incoming)"
  by (simp add: rollUp_def)

lemma length_rollUp: "length (rollUp current incoming maxLines) \<le> maxLines"
  by (simp add: rollUp_spec)

section \<open>Properties\<close>

text \<open>
  C28: Line breaking loses, repeats and reorders nothing: the words of the lines followed by the
  words of the overflow are the words of the text. There are at most \<open>maxLines\<close> lines, exactly
  that many when something overflows, and every line fits into \<open>maxChars\<close> unless it is a single
  word.
\<close>

theorem line_break_contract:
  assumes "breakIntoLines u text maxChars maxLines = (lines, overflow)"
  shows "concat (map words lines) @ words overflow = words text
     \<and> length lines \<le> maxLines \<and> (words overflow \<noteq> [] \<longrightarrow> length lines = maxLines)
     \<and> (\<forall>l \<in> set lines. l \<noteq> [] \<and> (length l \<le> maxChars \<or> length (words l) = 1))"
proof (rule breakIntoLines_spec [OF assms])
  fix groups rest
  assume g: "lines = map unwords groups" "overflow = unwords rest" "concat groups @ rest = words text"
    "length lines \<le> maxLines" "rest \<noteq> [] \<longrightarrow> length lines = maxLines"
    "\<forall>g \<in> set groups. g \<noteq> [] \<and> set g \<subseteq> set (words text) \<and> (length (unwords g) \<le> maxChars \<or> length g = 1)"
  have line: "l \<noteq> [] \<and> (length l \<le> maxChars \<or> length (words l) = 1)" if "l \<in> set lines" for l
  proof -
    obtain g' where g': "g' \<in> set groups" "l = unwords g'" using \<open>l \<in> set lines\<close> g(1) by auto
    have w: "\<forall>w \<in> set g'. is_word w" using g(6) g'(1) words_are_words by blast
    have g6: "g' \<noteq> []" "length (unwords g') \<le> maxChars \<or> length g' = 1"
      using g(6) g'(1) by blast+
    show ?thesis
      using words_unwords [OF w] unwords_word_first [OF w g6(1)] g6(2) unfolding g'(2) by simp
  qed
  show ?thesis using breakIntoLines_words [OF assms] g(2,4,5) line by (cases "rest = []") auto
qed

theorem line_break_contract_witness:
  "concat (map words [js ''one two,'', js ''three'']) @ words (js ''four'') = words (js ''one two, three four'')"
proof -
  have "breakIntoLines latin_tables (js ''one two, three four'') 9 2 = ([js ''one two,'', js ''three''], js ''four'')"
    by code_simp
  from line_break_contract [OF this] show ?thesis by (rule conjunct1)
qed

text \<open>
  A line is never cut early for nothing: a break after word \<open>b\<close> of the text either uses at
  least 60 percent of the line, or the next word would not have fitted; it always makes
  progress, and only a single word may be longer than the line.
\<close>

theorem line_break_uses_the_line:
  assumes "\<forall>w \<in> set ws. w \<noteq> []" and "a < length ws" and "chooseBreak u ws a maxChars = b"
  shows "a < b \<and> b \<le> length ws
     \<and> (length (unwords (line_of ws a b)) \<le> maxChars \<or> b = Suc a)
     \<and> (b < length ws \<longrightarrow> 6 * maxChars \<le> 10 * length (unwords (line_of ws a b))
          \<or> maxChars < length (unwords (line_of ws a (Suc b))))"
  using chooseBreak_good [OF assms(1,2), of maxChars u] assms(3)
  by (auto simp: good_break_def line_width_def)

theorem line_break_uses_the_line_witness:
  "chooseBreak latin_tables [js ''one'', js ''two,'', js ''three''] 0 9 = 2 \<and> (0::nat) < 2"
proof -
  have "chooseBreak latin_tables [js ''one'', js ''two,'', js ''three''] 0 9 = 2" by code_simp
  then show ?thesis
    using line_break_uses_the_line [of "[js ''one'', js ''two,'', js ''three'']" 0 latin_tables 9 2]
    by (simp add: js_def)
qed

text \<open>The comment of \<open>boundaryScore\<close> says a number is never separated from its unit. When no break
  with a positive score uses 60 percent of the line, \<open>lastFitting\<close> is taken without looking at
  its score, and that may be the break after the number.\<close>

lemma number_cut_from_unit:
  "breakIntoLines latin_tables (js ''ab 1234567 kg'') 10 2 = ([js ''ab 1234567'', js ''kg''], [])"
  by code_simp

text \<open>The comment of \<open>chooseBreak\<close> says an over-long word is hard-split; it is put on a line of
  its own, whole, and the line exceeds \<open>maxChars\<close>.\<close>

lemma overlong_word_kept_whole:
  "breakIntoLines latin_tables (js ''abcdefghijklmno'') 10 2 = ([js ''abcdefghijklmno''], [])"
  by code_simp

end
