(* ===== verification/Governor.thy ===== *)
theory Governor
  imports Prelude
begin

text \<open>
  \<open>packages/caption-engine/src/governor.ts\<close>: how long a card stays on screen, the backlog
  policy, and the rolling percentile.
\<close>

section \<open>Reading rate\<close>

record governor_config =
  gov_maxCps :: jsnum
  gov_minCardMs :: jsnum
  gov_maxCardMs :: jsnum
  gov_cardGapMs :: jsnum

text \<open>A division by zero gives \<open>Infinity\<close>, which \<open>Math.min\<close> cuts to \<open>maxCardMs\<close>.\<close>

definition displayMs :: "jstring \<Rightarrow> governor_config \<Rightarrow> jsnum" where
  "displayMs text cfg =
     (let chars = length (trim text)
      in if chars = 0 then gov_minCardMs cfg
         else if gov_maxCps cfg = 0 then of_int (js_round (gov_maxCardMs cfg))
         else let needed = (of_nat chars / gov_maxCps cfg) * 1000
              in of_int (js_round (min (gov_maxCardMs cfg) (max (gov_minCardMs cfg) needed))))"

text \<open>\<open>None\<close> stands for \<open>Infinity\<close>.\<close>

definition effectiveCps :: "jstring \<Rightarrow> jsnum \<Rightarrow> jsnum option" where
  "effectiveCps text shownMs =
     (if shownMs \<le> 0 then None else Some ((of_nat (length (trim text)) / shownMs) * 1000))"

datatype backlog_action = Show | Compress | Drop_oldest

definition backlogAction :: "nat \<Rightarrow> backlog_action" where
  "backlogAction queueDepth =
     (if queueDepth > 6 then Drop_oldest else if queueDepth > 3 then Compress else Show)"

section \<open>Percentile\<close>

record percentile =
  pct_samples :: "jsnum list"
  pct_capacity :: nat

definition new_percentile :: "nat \<Rightarrow> percentile" where
  "new_percentile capacity = \<lparr>pct_samples = [], pct_capacity = capacity\<rparr>"

definition default_percentile :: percentile where
  "default_percentile = new_percentile 200"

text \<open>\<open>add\<close> of a value that is not finite (\<open>None\<close>) does nothing.\<close>

definition pct_add :: "percentile \<Rightarrow> jsnum option \<Rightarrow> percentile" where
  "pct_add p value =
     (case value of
        None \<Rightarrow> p
      | Some v \<Rightarrow> p\<lparr>pct_samples := push_shift (pct_capacity p) (pct_samples p) v\<rparr>)"

definition pct_at :: "percentile \<Rightarrow> nat \<Rightarrow> jsnum" where
  "pct_at p n =
     (if length (pct_samples p) = 0 then 0
      else let sorted = sort (pct_samples p);
               index = min (length sorted - 1) (nat \<lfloor>(of_nat n / 100 :: jsnum) * of_nat (length sorted)\<rfloor>)
           in sorted ! index)"

section \<open>Facts\<close>

lemma displayMs_range:
  assumes "gov_minCardMs cfg = of_int lo" and "gov_maxCardMs cfg = of_int hi" and "lo \<le> hi"
  shows "of_int lo \<le> displayMs text cfg \<and> displayMs text cfg \<le> of_int hi"
proof -
  have "lo \<le> js_round (min (of_int hi) (max (of_int lo) x)) \<and> js_round (min (of_int hi) (max (of_int lo) x)) \<le> hi"
    for x :: jsnum
    using assms(3) js_round_mono [of "of_int lo" "min (of_int hi) (max (of_int lo) x)"]
      js_round_mono [of "min (of_int hi) (max (of_int lo) x)" "of_int hi"] by simp
  then show ?thesis using assms by (simp add: displayMs_def Let_def)
qed

text \<open>Below the upper limit, no card is shown faster than \<open>maxCps\<close>, up to the rounding to a millisecond.\<close>

lemma displayMs_readable:
  assumes "0 < gov_maxCps cfg" and "trim text \<noteq> []"
    and "(of_nat (length (trim text)) / gov_maxCps cfg) * 1000 \<le> gov_maxCardMs cfg"
    and "gov_minCardMs cfg \<le> gov_maxCardMs cfg"
  shows "(of_nat (length (trim text)) / gov_maxCps cfg) * 1000 - 1 / 2 \<le> displayMs text cfg"
proof -
  let ?n = "(of_nat (length (trim text)) / gov_maxCps cfg) * 1000"
  let ?m = "min (gov_maxCardMs cfg) (max (gov_minCardMs cfg) ?n)"
  have "?n \<le> ?m" using assms(3) by simp
  moreover have "?m - 1 / 2 \<le> of_int (js_round ?m)"
    using js_round_error [of ?m] unfolding abs_le_iff by linarith
  moreover have "displayMs text cfg = of_int (js_round ?m)"
    using assms(1,2) by (simp add: displayMs_def Let_def)
  ultimately show ?thesis by linarith
qed

lemma displayMs_mono:
  assumes "0 < gov_maxCps cfg" and "trim s \<noteq> []" and "length (trim s) \<le> length (trim t)"
  shows "displayMs s cfg \<le> displayMs t cfg"
proof -
  have "(of_nat (length (trim s)) / gov_maxCps cfg) * 1000 \<le> (of_nat (length (trim t)) / gov_maxCps cfg) * 1000"
    using assms(1,3) by (simp add: divide_right_mono)
  moreover have "trim t \<noteq> []" using assms(2,3) by auto
  ultimately show ?thesis
    using assms by (auto simp: displayMs_def Let_def intro!: js_round_mono min.mono max.mono)
qed

lemma backlogAction_drop: "backlogAction n = Drop_oldest \<longleftrightarrow> 6 < n"
  by (simp add: backlogAction_def)

definition percentile_ok :: "percentile \<Rightarrow> bool" where
  "percentile_ok p \<longleftrightarrow> length (pct_samples p) \<le> pct_capacity p"

lemma percentile_ok_ops [simp]:
  "percentile_ok (new_percentile c)" "percentile_ok default_percentile"
  "percentile_ok p \<Longrightarrow> percentile_ok (pct_add p v)"
  by (auto simp: percentile_ok_def new_percentile_def default_percentile_def pct_add_def queue_simps
      split: option.splits)

lemma nat_floor_percent: "nat \<lfloor>(of_nat n / 100 :: jsnum) * of_nat m\<rfloor> = n * m div 100"
proof -
  have "(of_nat n / 100 :: jsnum) * of_nat m = of_int (int (n * m)) / of_int 100" by simp
  then have "\<lfloor>(of_nat n / 100 :: jsnum) * of_nat m\<rfloor> = int (n * m) div 100"
    by (simp only: floor_divide_of_int_eq)
  then show ?thesis by (simp add: nat_div_distrib nat_mult_distrib)
qed

lemma pct_at_nth:
  assumes "pct_samples p \<noteq> []"
  shows "pct_at p n = sort (pct_samples p) ! min (length (pct_samples p) - 1) (n * length (pct_samples p) div 100)"
  unfolding pct_at_def Let_def nat_floor_percent using assms by simp

lemma count_le_sorted_nth:
  fixes xs :: "'a :: linorder list"
  assumes "sorted xs" and "i < length xs"
  shows "i < length (filter (\<lambda>x. x \<le> xs ! i) xs)" "length (filter (\<lambda>x. x < xs ! i) xs) \<le> i"
proof -
  have "filter (\<lambda>x. x \<le> xs ! i) (take (Suc i) xs) = take (Suc i) xs"
    using assms by (auto simp: filter_id_conv in_set_conv_nth less_Suc_eq_le sorted_iff_nth_mono)
  then have "length (filter (\<lambda>x. x \<le> xs ! i) (take (Suc i) xs)) = Suc i"
    using assms(2) by simp
  moreover have "filter (\<lambda>x. x \<le> xs ! i) xs =
      filter (\<lambda>x. x \<le> xs ! i) (take (Suc i) xs) @ filter (\<lambda>x. x \<le> xs ! i) (drop (Suc i) xs)"
    by (metis append_take_drop_id filter_append)
  ultimately show "i < length (filter (\<lambda>x. x \<le> xs ! i) xs)" by simp
  have "filter (\<lambda>x. x < xs ! i) (drop i xs) = []"
    using assms by (auto simp: filter_empty_conv in_set_conv_nth not_less sorted_iff_nth_mono)
  moreover have "filter (\<lambda>x. x < xs ! i) xs =
      filter (\<lambda>x. x < xs ! i) (take i xs) @ filter (\<lambda>x. x < xs ! i) (drop i xs)"
    by (metis append_take_drop_id filter_append)
  ultimately have "filter (\<lambda>x. x < xs ! i) xs = filter (\<lambda>x. x < xs ! i) (take i xs)" by simp
  then have "length (filter (\<lambda>x. x < xs ! i) xs) \<le> length (take i xs)" by (simp only: length_filter_le)
  then show "length (filter (\<lambda>x. x < xs ! i) xs) \<le> i" by simp
qed

lemma length_filter_sort: "length (filter P (sort xs)) = length (filter P xs)"
  by (metis filter_sort length_sort)

text \<open>The value is one of the samples, at most \<open>n\<close> percent of them lie below it, and more than
  \<open>n\<close> percent (all of them, for 100) do not lie above it.\<close>

lemma pct_at_spec:
  assumes "pct_samples p \<noteq> []" and "n \<le> 100"
  defines "m \<equiv> length (pct_samples p)" and "v \<equiv> pct_at p n"
  shows "v \<in> set (pct_samples p)"
    and "length (filter (\<lambda>x. x < v) (pct_samples p)) * 100 \<le> n * m"
    and "min m (Suc (n * m div 100)) \<le> length (filter (\<lambda>x. x \<le> v) (pct_samples p))"
proof -
  let ?s = "sort (pct_samples p)" and ?i = "min (m - 1) (n * m div 100)"
  have v: "v = ?s ! ?i" unfolding v_def m_def by (rule pct_at_nth [OF assms(1)])
  have i: "?i < length ?s" using assms(1) by (simp add: m_def min_less_iff_disj)
  show "v \<in> set (pct_samples p)" unfolding v using nth_mem [OF i] by simp
  have "length (filter (\<lambda>x. x < v) ?s) \<le> ?i"
    unfolding v by (rule count_le_sorted_nth) (use i in auto)
  then have "length (filter (\<lambda>x. x < v) (pct_samples p)) \<le> n * m div 100"
    by (simp add: length_filter_sort)
  then show "length (filter (\<lambda>x. x < v) (pct_samples p)) * 100 \<le> n * m" by linarith
  have "?i < length (filter (\<lambda>x. x \<le> v) ?s)"
    unfolding v by (rule count_le_sorted_nth) (use i in auto)
  then show "min m (Suc (n * m div 100)) \<le> length (filter (\<lambda>x. x \<le> v) (pct_samples p))"
    by (simp add: length_filter_sort)
qed

section \<open>Properties\<close>

text \<open>
  With whole-millisecond limits \<open>minCardMs \<le> maxCardMs\<close> a card is shown for a time between
  the two, and as long as its text can be read within \<open>maxCardMs\<close> it stays at least the time
  \<open>maxCps\<close> asks for, up to the rounding to a millisecond.
\<close>

theorem display_time_readable:
  assumes "gov_minCardMs cfg = of_int lo" and "gov_maxCardMs cfg = of_int hi" and "lo \<le> hi"
    and "0 < gov_maxCps cfg"
  shows "of_int lo \<le> displayMs t cfg \<and> displayMs t cfg \<le> of_int hi
     \<and> (let needed = (of_nat (length (trim t)) / gov_maxCps cfg) * 1000
        in trim t \<noteq> [] \<and> needed \<le> of_int hi \<longrightarrow> needed - 1 / 2 \<le> displayMs t cfg)"
  using displayMs_range [OF assms(1-3), of t] displayMs_readable [OF assms(4), of t] assms
  by (auto simp: Let_def)

theorem display_time_readable_witness:
  "1000 \<le> displayMs (js ''hello'') \<lparr>gov_maxCps = 17, gov_minCardMs = 1000, gov_maxCardMs = 6000, gov_cardGapMs = 80\<rparr>"
  using display_time_readable [of "\<lparr>gov_maxCps = 17, gov_minCardMs = 1000, gov_maxCardMs = 6000, gov_cardGapMs = 80\<rparr>"
      1000 6000 "js ''hello''"] by simp

text \<open>
  The percentile is one: \<open>at(n)\<close> is a sample of the window, at most \<open>n\<close> percent of the
  samples are below it, and at least one more than \<open>n\<close> percent (or all) are not above it.
\<close>

theorem percentile_meaning:
  assumes "pct_samples p \<noteq> []" and "n \<le> 100"
  shows "pct_at p n \<in> set (pct_samples p)
     \<and> length (filter (\<lambda>x. x < pct_at p n) (pct_samples p)) * 100 \<le> n * length (pct_samples p)
     \<and> min (length (pct_samples p)) (Suc (n * length (pct_samples p) div 100))
         \<le> length (filter (\<lambda>x. x \<le> pct_at p n) (pct_samples p))"
  using pct_at_spec [OF assms] by blast

theorem percentile_meaning_witness:
  "pct_at \<lparr>pct_samples = [3, 1, 2], pct_capacity = 200\<rparr> 95 \<in> {3, 1, 2}"
  using percentile_meaning [of "\<lparr>pct_samples = [3, 1, 2], pct_capacity = 200\<rparr>" 95] by simp

end
