(* ===== verification/Speech.thy ===== *)
theory Speech
  imports Prelude
begin

text \<open>
  \<open>packages/caption-engine/src/speech.ts\<close>: the gate of the voice-over and its bounded queue.
\<close>

record speech_item =
  si_cardId :: string
  si_lang :: string
  si_text :: jstring

datatype speech_pressure = Pressure_normal | Pressure_compress | Pressure_skip

definition speechPressure :: "nat \<Rightarrow> speech_pressure" where
  "speechPressure depth =
     (if depth > 6 then Pressure_skip else if depth > 3 then Pressure_compress else Pressure_normal)"

definition adaptiveRate :: "nat \<Rightarrow> jsnum \<Rightarrow> jsnum" where
  "adaptiveRate depth base =
     (let boost = min (15 / 100) (max 0 (of_nat depth - 1) * (5 / 100))
      in min (115 / 100) (max (9 / 10) (base + boost)))"

definition countWords :: "jstring \<Rightarrow> nat" where
  "countWords text = length (words (trim text))"

definition shouldMergeForward :: "jstring \<Rightarrow> nat \<Rightarrow> bool" where
  "shouldMergeForward text minWords = (countWords text < minWords)"

record speech_queue =
  sq_items :: "speech_item list"
  sq_dropped :: nat
  sq_capacity :: nat

definition new_speech_queue :: "nat \<Rightarrow> speech_queue" where
  "new_speech_queue capacity = \<lparr>sq_items = [], sq_dropped = 0, sq_capacity = capacity\<rparr>"

definition default_speech_queue :: speech_queue where
  "default_speech_queue = new_speech_queue 8"

function drop_overflow :: "nat \<Rightarrow> speech_item list \<times> nat \<Rightarrow> speech_item list \<times> nat" where
  "drop_overflow capacity (items, dropped) =
     (if length items > capacity then drop_overflow capacity (tl items, dropped + 1) else (items, dropped))"
  by pat_completeness auto
termination by (relation "measure (\<lambda>(capacity, items, dropped). length items)") auto

declare drop_overflow.simps [simp del]

definition sq_push :: "speech_queue \<Rightarrow> speech_item \<Rightarrow> speech_queue" where
  "sq_push q item =
     (case drop_overflow (sq_capacity q) (sq_items q @ [item], sq_dropped q) of
        (items, dropped) \<Rightarrow> q\<lparr>sq_items := items, sq_dropped := dropped\<rparr>)"

definition sq_shift :: "speech_queue \<Rightarrow> speech_item option \<times> speech_queue" where
  "sq_shift q =
     (case sq_items q of [] \<Rightarrow> (None, q) | x # xs \<Rightarrow> (Some x, q\<lparr>sq_items := xs\<rparr>))"

definition sq_depth :: "speech_queue \<Rightarrow> nat" where
  "sq_depth q = length (sq_items q)"

section \<open>Facts\<close>

lemma adaptiveRate_range: "9 / 10 \<le> adaptiveRate depth base \<and> adaptiveRate depth base \<le> 115 / 100"
  unfolding adaptiveRate_def Let_def
  by (rule conjI [OF _ min.cobounded1]) (simp add: le_max_iff_disj)

lemma adaptiveRate_mono: "d \<le> d' \<Longrightarrow> adaptiveRate d base \<le> adaptiveRate d' base"
proof -
  assume "d \<le> d'"
  then have "max 0 (of_nat d - 1) * (5 / 100) \<le> max 0 (of_nat d' - 1) * (5 / 100 :: jsnum)"
    by (intro mult_right_mono max.mono) auto
  then have "min (15 / 100) (max 0 (of_nat d - 1) * (5 / 100)) \<le> min (15 / 100) (max 0 (of_nat d' - 1) * (5 / 100 :: jsnum))"
    by (intro min.mono) auto
  then show ?thesis unfolding adaptiveRate_def Let_def by (intro min.mono max.mono) auto
qed

lemma drop_overflow_spec:
  "drop_overflow c (items, d) = (drop (length items - c) items, d + (length items - c))"
proof (induction c "(items, d)" arbitrary: items d rule: drop_overflow.induct)
  case (1 c items d)
  show ?case
  proof (cases "length items > c")
    case True
    then obtain x xs where xs: "items = x # xs" by (cases items) auto
    with 1 [OF True] True show ?thesis by (subst drop_overflow.simps) (simp add: Suc_diff_le)
  next
    case False
    then show ?thesis by (subst drop_overflow.simps) simp
  qed
qed

lemma sq_push_items [queue_simps]:
  "sq_items (sq_push q x) = drop (Suc (length (sq_items q)) - sq_capacity q) (sq_items q @ [x])"
  by (simp add: sq_push_def drop_overflow_spec)

lemma sq_push_dropped [queue_simps]:
  "sq_dropped (sq_push q x) = sq_dropped q + (Suc (length (sq_items q)) - sq_capacity q)"
  by (simp add: sq_push_def drop_overflow_spec)

lemma sq_push_capacity [simp]: "sq_capacity (sq_push q x) = sq_capacity q"
  by (simp add: sq_push_def drop_overflow_spec)

lemma sq_push_depth [queue_simps]: "sq_depth (sq_push q x) \<le> sq_capacity q"
  by (simp add: sq_depth_def sq_push_items)

text \<open>Nothing is lost without being counted: what was pushed is in the queue, taken, or dropped.\<close>

lemma sq_push_conserves: "sq_depth (sq_push q x) + sq_dropped (sq_push q x) = sq_depth q + sq_dropped q + 1"
  by (simp add: sq_depth_def queue_simps)

lemma sq_shift_spec:
  "sq_items q = x # xs \<Longrightarrow> sq_shift q = (Some x, q\<lparr>sq_items := xs\<rparr>)"
  "sq_items q = [] \<Longrightarrow> sq_shift q = (None, q)"
  by (simp_all add: sq_shift_def)

text \<open>Pushing a whole stream keeps its last \<open>capacity\<close> elements and counts the others.\<close>

lemma sq_push_stream:
  assumes "length (sq_items q) \<le> sq_capacity q"
  shows "sq_items (foldl sq_push q xs) = drop (length (sq_items q) + length xs - sq_capacity q) (sq_items q @ xs)
       \<and> sq_dropped (foldl sq_push q xs) = sq_dropped q + (length (sq_items q) + length xs - sq_capacity q)"
  using assms
proof (induction xs arbitrary: q)
  case (Cons x xs)
  let ?q = "sq_push q x"
  have le: "length (sq_items ?q) \<le> sq_capacity ?q"
    using sq_push_depth [of q x] by (simp add: sq_depth_def)
  let ?n = "length (sq_items q)" and ?c = "sq_capacity q"
  let ?j = "Suc ?n - ?c"
  have j: "?j \<le> Suc ?n" "?n + 1 + length xs - ?c = ?j + (Suc ?n - ?j + length xs - ?c)"
    using Cons.prems by linarith+
  have it: "sq_items ?q @ xs = drop ?j (sq_items q @ x # xs)"
    using j(1) Cons.prems by (cases "?c") (auto simp: sq_push_items Suc_diff_le)
  have len: "length (sq_items ?q) = Suc ?n - ?j" by (simp add: sq_push_items)
  have "sq_items (foldl sq_push ?q xs) = drop (Suc ?n - ?j + length xs - ?c) (drop ?j (sq_items q @ x # xs))"
    using Cons.IH [OF le] by (simp only: it len sq_push_capacity)
  moreover have "sq_dropped (foldl sq_push ?q xs) = sq_dropped q + ?j + (Suc ?n - ?j + length xs - ?c)"
    using Cons.IH [OF le] by (simp only: len sq_push_dropped sq_push_capacity)
  moreover have "foldl sq_push q (x # xs) = foldl sq_push ?q xs"
    "?n + length (x # xs) - ?c = ?j + (Suc ?n - ?j + length xs - ?c)"
    using j(2) by simp_all
  ultimately show ?case
    by (simp only: drop_drop add.assoc add.commute [of ?j])
qed simp

section \<open>Properties\<close>

text \<open>
  The speech queue is a bounded FIFO that drops the oldest: after any stream of pushes it
  holds the last \<open>capacity\<close> sentences in order, and its counter has counted every other one.
\<close>

theorem speech_queue_keeps_newest:
  "sq_items (foldl sq_push (new_speech_queue capacity) items) = drop (length items - capacity) items
   \<and> sq_dropped (foldl sq_push (new_speech_queue capacity) items) = length items - capacity"
  using sq_push_stream [of "new_speech_queue capacity" items] by (simp add: new_speech_queue_def)

end
