(* ===== verification/Engine.thy ===== *)
theory Engine
  imports Stability Linebreak Governor Translation Speech
begin

text \<open>
  \<open>packages/caption-engine/src/engine.ts\<close> and \<open>types.ts\<close>: the engine that turns speech
  events into caption operations. The engine object is the record \<open>engine\<close>, every method a
  function that returns the operations it emits and the new state. The generator of card ids is
  a parameter \<open>ids\<close> (the id of the n-th card); \<open>default_ids\<close> is the default of the
  constructor.
\<close>

section \<open>Events, operations, configuration\<close>

datatype stt_event = Partial jstring int | Committed jstring int | Silence int

datatype caption_op =
    CardOpen string int
  | CardUpdate string "jstring list" jstring nat
  | CardCommit string "jstring list" jstring
  | CardRetract string "jstring list" jstring
  | CardTranslate string string jstring bool
  | CardClose string int
  | TranslateRequest string jstring "jstring list" bool
  | Speak string string jstring

record engine_config =
  stabilityFrames :: nat
  volatileTailTokens :: nat
  adaptiveRewriteThreshold :: jsnum
  maxCharsPerLine :: nat
  maxLines :: nat
  maxCps :: jsnum
  minCardMs :: jsnum
  maxCardMs :: jsnum
  cardGapMs :: jsnum
  speculativeGrowthChars :: int
  speculativeMinIntervalMs :: int
  contextSentences :: nat
  targetLangs :: "string list"
  voiceLang :: "string option"
  minWordsForSpeech :: nat

definition DEFAULT_ENGINE_CONFIG :: engine_config where
  "DEFAULT_ENGINE_CONFIG =
     \<lparr>stabilityFrames = 2, volatileTailTokens = 3, adaptiveRewriteThreshold = 15 / 100,
      maxCharsPerLine = 42, maxLines = 2, maxCps = 17, minCardMs = 1000, maxCardMs = 6000,
      cardGapMs = 80, speculativeGrowthChars = 25, speculativeMinIntervalMs = 400,
      contextSentences = 2, targetLangs = [], voiceLang = None, minWordsForSpeech = 3\<rparr>"

definition governor_of :: "engine_config \<Rightarrow> governor_config" where
  "governor_of cfg =
     \<lparr>gov_maxCps = maxCps cfg, gov_minCardMs = minCardMs cfg,
      gov_maxCardMs = maxCardMs cfg, gov_cardGapMs = cardGapMs cfg\<rparr>"

record engine_metrics =
  em_rewriteRate :: jsnum
  em_medianStabilizeMs :: int
  em_cardsEmitted :: nat
  em_droppedCards :: nat
  em_cpsP95 :: jsnum
  em_translateRequests :: nat
  em_translateCacheHits :: nat

section \<open>State\<close>

datatype card_state = Live | Settled | Fading

record card_view =
  cardId :: string
  card_text :: jstring
  card_lines :: "jstring list"
  card_stable :: nat
  card_tr :: "(string, jstring) jsmap"
  card_trFinal :: bool
  card_state :: card_state
  card_atMs :: int

record live_card = card_view +
  card_history :: "jstring list list"
  card_speculation :: speculation_state

record engine =
  eng_counter :: nat
  eng_rewrites :: rewrite_tracker
  eng_context :: context_window
  eng_speech :: speech_queue
  eng_cps :: percentile
  eng_live :: "live_card option"
  eng_settled :: "card_view list"
  eng_pendingSpeech :: "jstring option"
  eng_cardsEmitted :: nat
  eng_droppedCards :: nat
  eng_translateRequests :: nat
  eng_stabilizeSamples :: "int list"

definition default_ids :: "nat \<Rightarrow> string" where
  "default_ids n = ''c'' @ show_nat n"

definition new_engine :: "engine_config \<Rightarrow> engine" where
  "new_engine cfg =
     \<lparr>eng_counter = 0, eng_rewrites = default_tracker, eng_context = new_context (contextSentences cfg),
      eng_speech = default_speech_queue, eng_cps = default_percentile, eng_live = None,
      eng_settled = [], eng_pendingSpeech = None, eng_cardsEmitted = 0, eng_droppedCards = 0,
      eng_translateRequests = 0, eng_stabilizeSamples = []\<rparr>"

definition nextId :: "(nat \<Rightarrow> string) \<Rightarrow> engine \<Rightarrow> string \<times> engine" where
  "nextId ids e = (ids (eng_counter e + 1), e\<lparr>eng_counter := eng_counter e + 1\<rparr>)"

definition fresh_card :: "string \<Rightarrow> int \<Rightarrow> live_card" where
  "fresh_card i atMs =
     \<lparr>cardId = i, card_text = [], card_lines = [], card_stable = 0, card_tr = [], card_trFinal = False,
      card_state = Live, card_atMs = atMs, card_history = [], card_speculation = fresh_speculation\<rparr>"

definition toView :: "live_card \<Rightarrow> card_view" where
  "toView crd =
     \<lparr>cardId = cardId crd, card_text = card_text crd, card_lines = card_lines crd,
      card_stable = card_stable crd, card_tr = card_tr crd, card_trFinal = card_trFinal crd,
      card_state = card_state crd, card_atMs = card_atMs crd\<rparr>"

section \<open>Handlers\<close>

text \<open>The live card, opened when there is none; what \<open>onPartial\<close> and \<open>onCommitted\<close> start with.
  \<open>onPartial\<close> stores the new card in \<open>this.live\<close>, \<open>onCommitted\<close> does not.\<close>

definition open_card ::
    "(nat \<Rightarrow> string) \<Rightarrow> engine \<Rightarrow> int \<Rightarrow> live_card \<times> caption_op list \<times> engine" where
  "open_card ids e atMs =
     (case eng_live e of
        Some crd \<Rightarrow> (crd, [], e)
      | None \<Rightarrow>
          (case nextId ids e of
             (i, e') \<Rightarrow> (fresh_card i atMs, [CardOpen i atMs], e')))"

definition speculate ::
    "engine_config \<Rightarrow> live_card \<Rightarrow> nat \<Rightarrow> int \<Rightarrow> engine \<Rightarrow> live_card \<times> caption_op list \<times> engine" where
  "speculate cfg crd stableChars atMs e =
     (if length (targetLangs cfg) > 0 \<and> stableChars > 0 then
        let trigger = shouldTranslate (card_speculation crd) stableChars atMs
                        (speculativeGrowthChars cfg) (speculativeMinIntervalMs cfg)
        in if trig_speculative trigger then
             (crd\<lparr>card_speculation := \<lparr>lastTranslatedChars = stableChars, lastRequestAtMs = Some atMs\<rparr>\<rparr>,
              [TranslateRequest (cardId crd) (take stableChars (card_text crd)) (ctx_get (eng_context e)) True],
              e\<lparr>eng_translateRequests := eng_translateRequests e + 1\<rparr>)
           else (crd, [], e)
      else (crd, [], e))"

definition onPartial ::
    "unicode \<Rightarrow> (nat \<Rightarrow> string) \<Rightarrow> engine_config \<Rightarrow> engine \<Rightarrow> jstring \<Rightarrow> int \<Rightarrow> caption_op list \<times> engine" where
  "onPartial u ids cfg e text atMs =
     (let tokens = tokenize text
      in if length tokens = 0 then ([], e)
         else
           (case open_card ids e atMs of
              (crd, ops, e) \<Rightarrow>
                let previous = (if card_history crd = [] then [] else last (card_history crd));
                    e = e\<lparr>eng_rewrites := record_rewrite (eng_rewrites e) previous tokens\<rparr>;
                    crd = crd\<lparr>card_history := push_shift 8 (card_history crd) tokens\<rparr>;
                    frames = adaptiveFrames (stabilityFrames cfg) (rewrite_rate (eng_rewrites e))
                               (adaptiveRewriteThreshold cfg);
                    stableTokens = stablePrefixTokens (card_history crd) frames (volatileTailTokens cfg);
                    stableChars = stablePrefixChars tokens stableTokens;
                    e = (if stableTokens > 0 \<and> card_stable crd = 0
                         then e\<lparr>eng_stabilizeSamples := eng_stabilizeSamples e @ [atMs - card_atMs crd]\<rparr>
                         else e);
                    crd = crd\<lparr>card_text := unwords tokens, card_stable := stableChars\<rparr>;
                    crd = crd\<lparr>card_lines :=
                      fst (breakIntoLines u (card_text crd) (maxCharsPerLine cfg) (maxLines cfg))\<rparr>;
                    update = CardUpdate (cardId crd) (card_lines crd) (card_text crd) (card_stable crd)
                in (case speculate cfg crd stableChars atMs e of
                      (crd, request, e) \<Rightarrow>
                        (ops @ [update] @ request, e\<lparr>eng_live := Some crd\<rparr>))))"

definition closeLive :: "engine \<Rightarrow> int \<Rightarrow> caption_op list \<times> engine" where
  "closeLive e atMs =
     (case eng_live e of
        None \<Rightarrow> ([], e)
      | Some crd \<Rightarrow>
          ([CardClose (cardId crd) atMs],
           e\<lparr>eng_live := None, eng_rewrites := reset_tracker (eng_rewrites e)\<rparr>))"

text \<open>The voice-over part of a commit.\<close>

definition commit_speech ::
    "engine_config \<Rightarrow> string \<Rightarrow> jstring \<Rightarrow> engine \<Rightarrow> caption_op list \<times> engine" where
  "commit_speech cfg i clean e =
     (if truthy (voiceLang cfg) then
        let lang = the (voiceLang cfg);
            merged = (if truthy (eng_pendingSpeech e) then the (eng_pendingSpeech e) @ [32] @ clean else clean)
        in if shouldMergeForward merged (minWordsForSpeech cfg)
           then ([], e\<lparr>eng_pendingSpeech := Some merged\<rparr>)
           else
             ((if length (targetLangs cfg) = 0 then [Speak i lang merged] else []),
              e\<lparr>eng_pendingSpeech := None,
                eng_speech := sq_push (eng_speech e) \<lparr>si_cardId = i, si_lang = lang, si_text = merged\<rparr>\<rparr>)
      else ([], e))"

text \<open>The card that makes room: at most one, the oldest.\<close>

definition drop_oldest :: "int \<Rightarrow> engine \<Rightarrow> caption_op list \<times> engine" where
  "drop_oldest atMs e =
     (if backlogAction (length (eng_settled e)) = Drop_oldest then
        (case eng_settled e of
           [] \<Rightarrow> ([], e)
         | dropped # rest \<Rightarrow>
             ([CardClose (cardId dropped) atMs],
              e\<lparr>eng_settled := rest, eng_droppedCards := eng_droppedCards e + 1\<rparr>))
      else ([], e))"

definition cps_sample :: "engine_config \<Rightarrow> jstring \<Rightarrow> jsnum option" where
  "cps_sample cfg clean =
     (let ms = displayMs clean (governor_of cfg)
      in if ms = 0 then None else Some (of_nat (length clean) / (ms / 1000)))"

definition onCommitted ::
    "unicode \<Rightarrow> (nat \<Rightarrow> string) \<Rightarrow> engine_config \<Rightarrow> engine \<Rightarrow> jstring \<Rightarrow> int \<Rightarrow> caption_op list \<times> engine" where
  "onCommitted u ids cfg e text atMs =
     (let clean = trim text
      in if length clean = 0 then closeLive e atMs
         else
           (case open_card ids e atMs of
              (crd, ops, e) \<Rightarrow>
                let rewritten = (length (card_text crd) > 0 \<and> card_text crd \<noteq> clean);
                    lines = fst (breakIntoLines u clean (maxCharsPerLine cfg) (maxLines cfg));
                    crd = crd\<lparr>card_text := clean, card_lines := lines, card_stable := length clean,
                                card_state := Settled\<rparr>;
                    ops = ops @ [if rewritten then CardRetract (cardId crd) lines clean
                                 else CardCommit (cardId crd) lines clean];
                    request = (if length (targetLangs cfg) > 0
                      then [TranslateRequest (cardId crd) clean (ctx_get (eng_context e)) False] else []);
                    e = (if length (targetLangs cfg) > 0
                      then e\<lparr>eng_translateRequests := eng_translateRequests e + 1\<rparr> else e)
                in (case commit_speech cfg (cardId crd) clean e of
                      (speak, e) \<Rightarrow>
                        let e = e\<lparr>eng_context := ctx_push (eng_context e) clean,
                                  eng_cps := pct_add (eng_cps e) (cps_sample cfg clean),
                                  eng_cardsEmitted := eng_cardsEmitted e + 1\<rparr>
                        in (case drop_oldest atMs e of
                              (close, e) \<Rightarrow>
                                (ops @ request @ speak @ close,
                                 e\<lparr>eng_settled := eng_settled e @ [toView crd], eng_live := None,
                                   eng_rewrites := reset_tracker (eng_rewrites e)\<rparr>)))))"

definition onSilence :: "engine \<Rightarrow> int \<Rightarrow> caption_op list \<times> engine" where
  "onSilence e atMs = closeLive e atMs"

fun push_event ::
    "unicode \<Rightarrow> (nat \<Rightarrow> string) \<Rightarrow> engine_config \<Rightarrow> engine \<Rightarrow> stt_event \<Rightarrow> caption_op list \<times> engine" where
  "push_event u ids cfg e (Partial text atMs) = onPartial u ids cfg e text atMs"
| "push_event u ids cfg e (Committed text atMs) = onCommitted u ids cfg e text atMs"
| "push_event u ids cfg e (Silence atMs) = onSilence e atMs"

text \<open>\<open>find\<close> and then a change of the found object: the first card with the id changes.\<close>

fun update_first :: "('a \<Rightarrow> bool) \<Rightarrow> ('a \<Rightarrow> 'a) \<Rightarrow> 'a list \<Rightarrow> 'a list" where
  "update_first P f [] = []"
| "update_first P f (x # xs) = (if P x then f x # xs else x # update_first P f xs)"

definition translate_ops :: "engine_config \<Rightarrow> string \<Rightarrow> string \<Rightarrow> jstring \<Rightarrow> bool \<Rightarrow> caption_op list" where
  "translate_ops cfg i lang text final =
     CardTranslate i lang text final #
     (if final \<and> voiceLang cfg = Some lang then [Speak i lang text] else [])"

definition applyTranslation ::
    "engine_config \<Rightarrow> engine \<Rightarrow> string \<Rightarrow> string \<Rightarrow> jstring \<Rightarrow> bool \<Rightarrow> caption_op list \<times> engine" where
  "applyTranslation cfg e i lang text final =
     (if (case eng_live e of None \<Rightarrow> False | Some crd \<Rightarrow> cardId crd = i) then
        let crd = the (eng_live e)
        in if card_trFinal crd \<and> \<not> final then ([], e)
           else (translate_ops cfg i lang text final,
                 e\<lparr>eng_live := Some (crd\<lparr>card_tr := map_set lang text (card_tr crd),
                                           card_trFinal := final\<rparr>)\<rparr>)
      else
        (case find (\<lambda>c. cardId c = i) (eng_settled e) of
           None \<Rightarrow> ([], e)
         | Some crd \<Rightarrow>
             if card_trFinal crd \<and> \<not> final then ([], e)
             else (translate_ops cfg i lang text final,
                   e\<lparr>eng_settled := update_first (\<lambda>c. cardId c = i)
                       (\<lambda>c. c\<lparr>card_tr := map_set lang text (card_tr c), card_trFinal := final\<rparr>)
                       (eng_settled e)\<rparr>)))"

definition snapshot :: "engine \<Rightarrow> card_view list" where
  "snapshot e =
     (case eng_live e of
        None \<Rightarrow> eng_settled e
      | Some crd \<Rightarrow> eng_settled e @ [toView crd])"

definition metrics :: "engine \<Rightarrow> engine_metrics" where
  "metrics e =
     (let sorted = sort (eng_stabilizeSamples e);
          median = (if length sorted = 0 then 0 else sorted ! (length sorted div 2))
      in \<lparr>em_rewriteRate = rewrite_rate (eng_rewrites e), em_medianStabilizeMs = median,
          em_cardsEmitted = eng_cardsEmitted e,
          em_droppedCards = eng_droppedCards e + sq_dropped (eng_speech e),
          em_cpsP95 = pct_at (eng_cps e) 95, em_translateRequests = eng_translateRequests e,
          em_translateCacheHits = 0\<rparr>)"

section \<open>What each step leaves\<close>

lemma open_card_spec:
  assumes "open_card ids e atMs = (crd, ops, e')"
  shows "(case eng_live e of
            Some c \<Rightarrow> crd = c \<and> ops = [] \<and> e' = e
          | None \<Rightarrow> crd = fresh_card (ids (eng_counter e + 1)) atMs
                 \<and> ops = [CardOpen (ids (eng_counter e + 1)) atMs]
                 \<and> e' = e\<lparr>eng_counter := eng_counter e + 1\<rparr>)"
  using assms by (auto simp: open_card_def nextId_def split: option.splits)

lemma speculate_spec:
  assumes "speculate cfg crd n atMs e = (crd', ops, e')"
  shows "card_view.truncate crd' = card_view.truncate crd \<and> card_history crd' = card_history crd
     \<and> (ops = [] \<and> e' = e \<or>
        ops = [TranslateRequest (cardId crd) (take n (card_text crd)) (ctx_get (eng_context e)) True]
        \<and> 0 < n \<and> e' = e\<lparr>eng_translateRequests := eng_translateRequests e + 1\<rparr>)"
  using assms by (auto simp: speculate_def Let_def card_view.truncate_def split: if_splits)

lemma view_eq_fields:
  assumes "card_view.truncate c = card_view.truncate d"
  shows "cardId c = cardId d" "card_text c = card_text d" "card_lines c = card_lines d"
    "card_stable c = card_stable d" "card_tr c = card_tr d" "card_trFinal c = card_trFinal d"
    "card_state c = card_state d" "card_atMs c = card_atMs d"
  using assms by (auto simp: card_view.truncate_def)

text \<open>The fragment that waits goes in front of the sentence.\<close>

definition joined_speech :: "jstring option \<Rightarrow> jstring \<Rightarrow> jstring" where
  "joined_speech p clean = (case p of None \<Rightarrow> clean | Some w \<Rightarrow> if w = [] then clean else w @ [32] @ clean)"

text \<open>The speech of a commit as a relation of what waited, what is said and what waits afterwards.\<close>

definition speech_of_commit ::
    "engine_config \<Rightarrow> string \<Rightarrow> jstring \<Rightarrow> jstring option \<Rightarrow> caption_op list \<Rightarrow> jstring option \<Rightarrow> bool" where
  "speech_of_commit cfg i clean p ops p' \<longleftrightarrow>
     (if truthy (voiceLang cfg) then
        if shouldMergeForward (joined_speech p clean) (minWordsForSpeech cfg)
        then ops = [] \<and> p' = Some (joined_speech p clean)
        else p' = None \<and> ops = (if targetLangs cfg = [] then [Speak i (the (voiceLang cfg)) (joined_speech p clean)] else [])
      else ops = [] \<and> p' = p)"

lemma speech_of_commit_speak:
  "speech_of_commit cfg i clean p ops p' \<Longrightarrow> Speak j lang s \<in> set ops \<Longrightarrow>
     j = i \<and> voiceLang cfg = Some lang \<and> lang \<noteq> [] \<and> targetLangs cfg = [] \<and> s = joined_speech p clean"
  by (auto simp: speech_of_commit_def truthy_iff split: if_splits)

lemma speech_of_commit_ops:
  "speech_of_commit cfg i clean p ops p' \<Longrightarrow> ops = [] \<or> (\<exists>lang. ops = [Speak i lang (joined_speech p clean)])"
  by (auto simp: speech_of_commit_def split: if_splits)

lemma commit_speech_spec:
  assumes "commit_speech cfg i clean e = (ops, e')"
  shows "speech_of_commit cfg i clean (eng_pendingSpeech e) ops (eng_pendingSpeech e')
     \<and> eng_counter e' = eng_counter e \<and> eng_rewrites e' = eng_rewrites e \<and> eng_context e' = eng_context e
     \<and> eng_cps e' = eng_cps e \<and> eng_live e' = eng_live e \<and> eng_settled e' = eng_settled e
     \<and> (eng_speech e' = eng_speech e \<or> (\<exists>x. eng_speech e' = sq_push (eng_speech e) x))"
proof -
  have "joined_speech (eng_pendingSpeech e) clean =
      (if truthy (eng_pendingSpeech e) then the (eng_pendingSpeech e) @ [32] @ clean else clean)"
    by (auto simp: joined_speech_def truthy_iff split: option.split)
  then show ?thesis using assms by (auto simp: commit_speech_def speech_of_commit_def Let_def split: if_splits)
qed

lemma drop_oldest_spec:
  assumes "drop_oldest atMs e = (ops, e')"
  shows "(length (eng_settled e) \<le> 6 \<and> ops = [] \<and> e' = e) \<or>
     (\<exists>d rest. eng_settled e = d # rest \<and> 6 < length (eng_settled e) \<and> ops = [CardClose (cardId d) atMs]
        \<and> e' = e\<lparr>eng_settled := rest, eng_droppedCards := eng_droppedCards e + 1\<rparr>)"
  using assms by (auto simp: drop_oldest_def backlogAction_drop split: if_splits list.splits)

text \<open>
  \<open>onPartial\<close> on text that holds a word: the live card (opened if there was none) shows exactly
  the words of the partial, its stable part ends at a word boundary, and the request that may
  follow carries that stable part.
\<close>

lemma onPartial_spec:
  assumes "onPartial u ids cfg e text atMs = (ops, e')" and "tokenize text \<noteq> []"
  obtains c0 c opened request frames where
    "open_card ids e atMs = (c0, opened, e\<lparr>eng_counter := eng_counter e'\<rparr>)"
    "eng_live e' = Some c" "cardId c = cardId c0" "card_state c = card_state c0" "card_atMs c = card_atMs c0"
    "card_tr c = card_tr c0" "card_trFinal c = card_trFinal c0"
    "card_history c = push_shift 8 (card_history c0) (tokenize text)"
    "card_text c = unwords (tokenize text)"
    "frames \<in> {stabilityFrames cfg, Suc (stabilityFrames cfg)}"
    "card_stable c = stablePrefixChars (tokenize text)
       (stablePrefixTokens (card_history c) frames (volatileTailTokens cfg))"
    "card_lines c = fst (breakIntoLines u (card_text c) (maxCharsPerLine cfg) (maxLines cfg))"
    "ops = opened @ CardUpdate (cardId c) (card_lines c) (card_text c) (card_stable c) # request"
    "request = [] \<or> request =
       [TranslateRequest (cardId c) (take (card_stable c) (card_text c)) (ctx_get (eng_context e)) True]
       \<and> 0 < card_stable c"
    "eng_settled e' = eng_settled e" "eng_context e' = eng_context e" "eng_speech e' = eng_speech e"
    "eng_cps e' = eng_cps e" "eng_pendingSpeech e' = eng_pendingSpeech e"
    "\<exists>p. eng_rewrites e' = record_rewrite (eng_rewrites e) p (tokenize text)"
proof -
  obtain c0 opened e0 where oc: "open_card ids e atMs = (c0, opened, e0)" by (metis prod_cases3)
  have e0: "e0 = e\<lparr>eng_counter := eng_counter e0\<rparr>"
    using open_card_spec [OF oc] by (cases "eng_live e") auto
  let ?tok = "tokenize text"
  let ?prev = "if card_history c0 = [] then [] else last (card_history c0)"
  let ?e1 = "e0\<lparr>eng_rewrites := record_rewrite (eng_rewrites e0) ?prev ?tok\<rparr>"
  let ?hist = "push_shift 8 (card_history c0) ?tok"
  define frames where "frames = adaptiveFrames (stabilityFrames cfg) (rewrite_rate (eng_rewrites ?e1)) (adaptiveRewriteThreshold cfg)"
  let ?st = "stablePrefixTokens ?hist frames (volatileTailTokens cfg)"
  define n where "n = stablePrefixChars ?tok ?st"
  define e2 where "e2 = (if ?st > 0 \<and> card_stable c0 = 0
      then ?e1\<lparr>eng_stabilizeSamples := eng_stabilizeSamples ?e1 @ [atMs - card_atMs c0]\<rparr> else ?e1)"
  define c1 where "c1 = c0\<lparr>card_history := ?hist, card_text := unwords ?tok, card_stable := n,
      card_lines := fst (breakIntoLines u (unwords ?tok) (maxCharsPerLine cfg) (maxLines cfg))\<rparr>"
  obtain c request e3 where sp: "speculate cfg c1 n atMs e2 = (c, request, e3)" by (metis prod_cases3)
  have res: "ops = opened @ CardUpdate (cardId c1) (card_lines c1) (card_text c1) (card_stable c1) # request"
    "e' = e3\<lparr>eng_live := Some c\<rparr>"
    using assms sp unfolding onPartial_def Let_def oc
    by (auto simp: frames_def n_def e2_def c1_def split: if_splits prod.splits)
  have e2: "eng_settled e2 = eng_settled e0" "eng_context e2 = eng_context e0" "eng_speech e2 = eng_speech e0"
    "eng_cps e2 = eng_cps e0" "eng_pendingSpeech e2 = eng_pendingSpeech e0" "eng_counter e2 = eng_counter e0"
    "eng_rewrites e2 = record_rewrite (eng_rewrites e0) ?prev ?tok"
    by (auto simp: e2_def)
  note s = speculate_spec [OF sp]
  have e3: "eng_settled e3 = eng_settled e2" "eng_context e3 = eng_context e2" "eng_speech e3 = eng_speech e2"
    "eng_cps e3 = eng_cps e2" "eng_pendingSpeech e3 = eng_pendingSpeech e2" "eng_counter e3 = eng_counter e2"
    "eng_rewrites e3 = eng_rewrites e2"
    using s by auto
  have cv: "card_view.truncate c = card_view.truncate c1" "card_history c = card_history c1" using s by auto
  note v = view_eq_fields [OF cv(1)]
  have c: "eng_counter e' = eng_counter e0" using res(2) e2 e3 by simp
  have fr: "frames \<in> {stabilityFrames cfg, Suc (stabilityFrames cfg)}"
    by (simp add: frames_def adaptiveFrames_def)
  have em: "eng_settled e0 = eng_settled e" "eng_context e0 = eng_context e" "eng_speech e0 = eng_speech e"
    "eng_cps e0 = eng_cps e" "eng_pendingSpeech e0 = eng_pendingSpeech e" "eng_rewrites e0 = eng_rewrites e"
    by (subst e0, simp)+
  show ?thesis
  proof (rule that [of c0 opened c frames request])
    show "open_card ids e atMs = (c0, opened, e\<lparr>eng_counter := eng_counter e'\<rparr>)"
      using oc e0 c by simp
    show "request = [] \<or> request =
       [TranslateRequest (cardId c) (take (card_stable c) (card_text c)) (ctx_get (eng_context e)) True]
       \<and> 0 < card_stable c"
      using s v e2 em by (auto simp: c1_def)
  qed (use res v cv fr e2 e3 em in \<open>auto simp: c1_def n_def\<close>)
qed

lemma onPartial_blank: "tokenize text = [] \<Longrightarrow> onPartial u ids cfg e text atMs = ([], e)"
  by (simp add: onPartial_def)

text \<open>
  \<open>onCommitted\<close> on text that is not blank: the card becomes settled with the committed text,
  at most the oldest settled card is closed to make room, and no card is live afterwards.
\<close>

lemma onCommitted_spec:
  assumes "onCommitted u ids cfg e text atMs = (ops, e')" and "trim text \<noteq> []"
  obtains c0 c opened speak close lines kept where
    "open_card ids e atMs = (c0, opened, e\<lparr>eng_counter := eng_counter e'\<rparr>)"
    "lines = fst (breakIntoLines u (trim text) (maxCharsPerLine cfg) (maxLines cfg))"
    "c = \<lparr>cardId = cardId c0, card_text = trim text, card_lines = lines, card_stable = length (trim text),
          card_tr = card_tr c0, card_trFinal = card_trFinal c0, card_state = Settled, card_atMs = card_atMs c0\<rparr>"
    "ops = opened
       @ (if card_text c0 \<noteq> [] \<and> card_text c0 \<noteq> trim text
          then CardRetract (cardId c0) lines (trim text) else CardCommit (cardId c0) lines (trim text))
       # (if targetLangs cfg \<noteq> [] then [TranslateRequest (cardId c0) (trim text) (ctx_get (eng_context e)) False] else [])
       @ speak @ close"
    "speech_of_commit cfg (cardId c0) (trim text) (eng_pendingSpeech e) speak (eng_pendingSpeech e')"
    "(length (eng_settled e) \<le> 6 \<and> close = [] \<and> kept = eng_settled e) \<or>
       (\<exists>d. eng_settled e = d # kept \<and> 6 < length (eng_settled e) \<and> close = [CardClose (cardId d) atMs])"
    "eng_settled e' = kept @ [c]" "eng_live e' = None"
    "eng_context e' = ctx_push (eng_context e) (trim text)"
    "eng_rewrites e' = reset_tracker (eng_rewrites e)"
    "eng_cps e' = pct_add (eng_cps e) (cps_sample cfg (trim text))"
    "eng_speech e' = eng_speech e \<or> (\<exists>x. eng_speech e' = sq_push (eng_speech e) x)"
proof -
  obtain c0 opened e0 where oc: "open_card ids e atMs = (c0, opened, e0)" by (metis prod_cases3)
  have e0: "e0 = e\<lparr>eng_counter := eng_counter e0\<rparr>"
    using open_card_spec [OF oc] by (cases "eng_live e") auto
  let ?clean = "trim text"
  define lines where "lines = fst (breakIntoLines u ?clean (maxCharsPerLine cfg) (maxLines cfg))"
  define e1 where "e1 = (if length (targetLangs cfg) > 0
      then e0\<lparr>eng_translateRequests := eng_translateRequests e0 + 1\<rparr> else e0)"
  obtain speak e2 where cs: "commit_speech cfg (cardId c0) ?clean e1 = (speak, e2)" by fastforce
  let ?e3 = "e2\<lparr>eng_context := ctx_push (eng_context e2) ?clean,
      eng_cps := pct_add (eng_cps e2) (cps_sample cfg ?clean), eng_cardsEmitted := eng_cardsEmitted e2 + 1\<rparr>"
  obtain close e4 where dr: "drop_oldest atMs ?e3 = (close, e4)" by fastforce
  define c1 where "c1 = c0\<lparr>card_text := ?clean, card_lines := lines, card_stable := length ?clean, card_state := Settled\<rparr>"
  have res: "ops = (opened @ [if card_text c0 \<noteq> [] \<and> card_text c0 \<noteq> ?clean
          then CardRetract (cardId c0) lines ?clean else CardCommit (cardId c0) lines ?clean])
       @ (if targetLangs cfg \<noteq> [] then [TranslateRequest (cardId c0) ?clean (ctx_get (eng_context e0)) False] else [])
       @ speak @ close"
    "e' = e4\<lparr>eng_settled := eng_settled e4 @ [toView c1], eng_live := None, eng_rewrites := reset_tracker (eng_rewrites e4)\<rparr>"
    using assms cs dr unfolding onCommitted_def Let_def oc
    by (auto simp: lines_def e1_def c1_def split: if_splits prod.splits)
  have em: "eng_settled e1 = eng_settled e" "eng_context e1 = eng_context e" "eng_speech e1 = eng_speech e"
    "eng_cps e1 = eng_cps e" "eng_rewrites e1 = eng_rewrites e" "eng_counter e1 = eng_counter e0"
    "eng_context e0 = eng_context e" "eng_pendingSpeech e1 = eng_pendingSpeech e"
    unfolding e1_def by (subst e0, simp)+
  note s = commit_speech_spec [OF cs]
  have e4: "eng_context e4 = ctx_push (eng_context e) ?clean" "eng_rewrites e4 = eng_rewrites e"
    "eng_cps e4 = pct_add (eng_cps e) (cps_sample cfg ?clean)" "eng_speech e4 = eng_speech e2"
    "eng_counter e4 = eng_counter e0"
    using drop_oldest_spec [OF dr] s em by auto
  have pend: "eng_pendingSpeech e4 = eng_pendingSpeech e2" using drop_oldest_spec [OF dr] by auto
  have cl: "(length (eng_settled e) \<le> 6 \<and> close = [] \<and> eng_settled e4 = eng_settled e) \<or>
       (\<exists>d. eng_settled e = d # eng_settled e4 \<and> 6 < length (eng_settled e) \<and> close = [CardClose (cardId d) atMs])"
    using drop_oldest_spec [OF dr] s em by auto
  show ?thesis
  proof (rule that [of c0 opened lines "toView c1" speak close "eng_settled e4"])
    show "open_card ids e atMs = (c0, opened, e\<lparr>eng_counter := eng_counter e'\<rparr>)"
      using oc e0 res(2) e4(5) by simp
    show "speech_of_commit cfg (cardId c0) (trim text) (eng_pendingSpeech e) speak (eng_pendingSpeech e')"
      using s em pend res(2) by simp
  qed (use res e4 s em cl in \<open>auto simp: lines_def toView_def c1_def\<close>)
qed

lemma onCommitted_blank: "trim text = [] \<Longrightarrow> onCommitted u ids cfg e text atMs = closeLive e atMs"
  by (simp add: onCommitted_def)

end
