(* ===== verification/Caption_Protocol.thy ===== *)
theory Caption_Protocol
  imports Engine
begin

text \<open>
  What a consumer of caption operations may rely on, as an abstract screen that accepts or
  refuses each operation, and the proof that the engine implements it: the well-formedness of
  the engine is invariant, and every operation stream it emits is accepted.
\<close>

section \<open>The abstract screen\<close>

text \<open>A card as a viewer has it in front of him.\<close>

record screen_card =
  cap_id :: string
  cap_text :: jstring
  cap_lines :: "jstring list"
  cap_stable :: nat
  cap_tr :: "(string, jstring) jsmap"
  cap_final :: bool

text \<open>At most one card is open; the committed cards are kept in order of commit and only the oldest may be closed; an id is
  never used twice. The screen remembers the sentences that were committed and how many of them a request is to quote.\<close>

record screen =
  scr_open :: "screen_card option"
  scr_kept :: "screen_card list"
  scr_used :: "string set"
  scr_said :: "jstring list"
  scr_window :: nat

definition blank_screen :: "nat \<Rightarrow> screen" where
  "blank_screen w = \<lparr>scr_open = None, scr_kept = [], scr_used = {}, scr_said = [], scr_window = w\<rparr>"

definition empty_card :: "string \<Rightarrow> screen_card" where
  "empty_card i = \<lparr>cap_id = i, cap_text = [], cap_lines = [], cap_stable = 0, cap_tr = [], cap_final = False\<rparr>"

definition card_shown :: "screen \<Rightarrow> string \<Rightarrow> screen_card option" where
  "card_shown s i =
     find (\<lambda>c. cap_id c = i) ((case scr_open s of None \<Rightarrow> [] | Some c \<Rightarrow> [c]) @ scr_kept s)"

text \<open>Every card with the id gets the translation.\<close>

definition put_translation :: "string \<Rightarrow> string \<Rightarrow> jstring \<Rightarrow> bool \<Rightarrow> screen_card \<Rightarrow> screen_card" where
  "put_translation i lang text final c =
     (if cap_id c = i then c\<lparr>cap_tr := map_set lang text (cap_tr c), cap_final := final\<rparr> else c)"

text \<open>The open card turns into a committed one with its last text.\<close>

definition settle_card :: "screen \<Rightarrow> screen_card \<Rightarrow> jstring list \<Rightarrow> jstring \<Rightarrow> screen" where
  "settle_card s c lines text =
     s\<lparr>scr_open := None,
        scr_kept := scr_kept s @ [c\<lparr>cap_text := text, cap_lines := lines, cap_stable := length text\<rparr>],
        scr_said := scr_said s @ [text]\<rparr>"

definition newest :: "nat \<Rightarrow> 'a list \<Rightarrow> 'a list" where
  "newest n xs = drop (length xs - n) xs"

definition ends_with :: "'a list \<Rightarrow> 'a list \<Rightarrow> bool" where
  "ends_with xs ys \<longleftrightarrow> newest (length ys) xs = ys"

definition guarded :: "bool \<Rightarrow> 'a \<Rightarrow> 'a option" where
  "guarded b x = (if b then Some x else None)"

lemma guarded_simps [simp]:
  "guarded b x = Some y \<longleftrightarrow> b \<and> x = y" "guarded True x = Some x" "guarded False x = None"
  by (simp_all add: guarded_def)

text \<open>
  A commit is for a card that is empty or shows this very text, a retraction for one that shows another text. A translation
  never turns a final one into a provisional one. A speculative request quotes the stable part of the open card, any other
  request the card committed last; both with the newest sentences before it. What is spoken is the final translation of a card
  on the screen, or ends with the text of a committed card.
\<close>

fun screen_op :: "screen \<Rightarrow> caption_op \<Rightarrow> screen option" where
  "screen_op s (CardOpen i atMs) =
     guarded (scr_open s = None \<and> i \<notin> scr_used s)
       (s\<lparr>scr_open := Some (empty_card i), scr_used := insert i (scr_used s)\<rparr>)"
| "screen_op s (CardUpdate i lines text n) =
     (case scr_open s of
        None \<Rightarrow> None
      | Some c \<Rightarrow>
          guarded (cap_id c = i \<and> n \<le> length text)
            (s\<lparr>scr_open := Some (c\<lparr>cap_text := text, cap_lines := lines, cap_stable := n\<rparr>)\<rparr>))"
| "screen_op s (CardCommit i lines text) =
     (case scr_open s of
        None \<Rightarrow> None
      | Some c \<Rightarrow> guarded (cap_id c = i \<and> (cap_text c = [] \<or> cap_text c = text)) (settle_card s c lines text))"
| "screen_op s (CardRetract i lines text) =
     (case scr_open s of
        None \<Rightarrow> None
      | Some c \<Rightarrow> guarded (cap_id c = i \<and> cap_text c \<noteq> [] \<and> cap_text c \<noteq> text) (settle_card s c lines text))"
| "screen_op s (CardTranslate i lang text final) =
     (case card_shown s i of
        None \<Rightarrow> None
      | Some c \<Rightarrow>
          guarded (cap_final c \<longrightarrow> final)
            (s\<lparr>scr_open := map_option (put_translation i lang text final) (scr_open s),
               scr_kept := map (put_translation i lang text final) (scr_kept s)\<rparr>))"
| "screen_op s (CardClose i atMs) =
     (if map_option cap_id (scr_open s) = Some i then Some (s\<lparr>scr_open := None\<rparr>)
      else guarded (scr_kept s \<noteq> [] \<and> cap_id (hd (scr_kept s)) = i) (s\<lparr>scr_kept := tl (scr_kept s)\<rparr>))"
| "screen_op s (TranslateRequest i text context speculative) =
     guarded
       (if speculative then
          (case scr_open s of
             None \<Rightarrow> False
           | Some c \<Rightarrow> cap_id c = i \<and> 0 < cap_stable c \<and> text = take (cap_stable c) (cap_text c))
          \<and> context = newest (scr_window s) (scr_said s)
        else
          scr_kept s \<noteq> [] \<and> cap_id (last (scr_kept s)) = i \<and> text = cap_text (last (scr_kept s))
          \<and> context = newest (scr_window s) (butlast (scr_said s)))
       s"
| "screen_op s (Speak i lang text) =
     (case card_shown s i of
        None \<Rightarrow> None
      | Some c \<Rightarrow>
          guarded (cap_final c \<and> map_of (cap_tr c) lang = Some text \<or> c \<in> set (scr_kept s) \<and> ends_with text (cap_text c)) s)"

fun screen_run :: "screen \<Rightarrow> caption_op list \<Rightarrow> screen option" where
  "screen_run s [] = Some s"
| "screen_run s (op # ops) =
     (case screen_op s op of None \<Rightarrow> None | Some s' \<Rightarrow> screen_run s' ops)"

lemma screen_run_append:
  "screen_run s (xs @ ys) = (case screen_run s xs of None \<Rightarrow> None | Some s' \<Rightarrow> screen_run s' ys)"
  by (induction s xs rule: screen_run.induct) (auto split: option.splits)

section \<open>The engine's screen and its invariant\<close>

definition used_ids :: "(nat \<Rightarrow> string) \<Rightarrow> nat \<Rightarrow> string set" where
  "used_ids ids n = ids ` {1..n}"

definition on_screen :: "('a) card_view_scheme \<Rightarrow> screen_card" where
  "on_screen c =
     \<lparr>cap_id = cardId c, cap_text = card_text c, cap_lines = card_lines c, cap_stable = card_stable c,
      cap_tr = card_tr c, cap_final = card_trFinal c\<rparr>"

text \<open>What the engine holds, as a screen; \<open>said\<close> are the sentences it was given so far.\<close>

definition engine_screen :: "(nat \<Rightarrow> string) \<Rightarrow> engine_config \<Rightarrow> jstring list \<Rightarrow> engine \<Rightarrow> screen" where
  "engine_screen ids cfg said e =
     \<lparr>scr_open = map_option on_screen (eng_live e), scr_kept = map on_screen (eng_settled e),
      scr_used = used_ids ids (eng_counter e), scr_said = said, scr_window = contextSentences cfg\<rparr>"

definition live_ok :: "live_card \<Rightarrow> bool" where
  "live_ok c \<longleftrightarrow> card_state c = Live \<and> card_history c \<noteq> [] \<and> length (card_history c) \<le> 8
     \<and> card_text c = unwords (last (card_history c)) \<and> card_text c \<noteq> []
     \<and> card_stable c \<le> length (card_text c)"

definition kept_ok :: "unicode \<Rightarrow> engine_config \<Rightarrow> card_view \<Rightarrow> bool" where
  "kept_ok u cfg c \<longleftrightarrow> card_state c = Settled \<and> card_text c \<noteq> [] \<and> card_stable c = length (card_text c)
     \<and> card_lines c = fst (breakIntoLines u (card_text c) (maxCharsPerLine cfg) (maxLines cfg))"

definition shown_ids :: "live_card option \<Rightarrow> card_view list \<Rightarrow> string list" where
  "shown_ids live settled = map cardId settled @ (case live of None \<Rightarrow> [] | Some c \<Rightarrow> [cardId c])"

definition cards_ok ::
    "unicode \<Rightarrow> engine_config \<Rightarrow> string set \<Rightarrow> live_card option \<Rightarrow> card_view list \<Rightarrow> bool" where
  "cards_ok u cfg used live settled \<longleftrightarrow>
     length settled \<le> 7 \<and> (case live of None \<Rightarrow> True | Some c \<Rightarrow> live_ok c)
     \<and> (\<forall>c \<in> set settled. kept_ok u cfg c)
     \<and> distinct (shown_ids live settled) \<and> set (shown_ids live settled) \<subseteq> used"

definition buffers_ok :: "engine \<Rightarrow> bool" where
  "buffers_ok e \<longleftrightarrow>
     tracker_ok (eng_rewrites e) \<and> context_ok (eng_context e) \<and> percentile_ok (eng_cps e)
     \<and> sq_capacity (eng_speech e) = 8 \<and> sq_depth (eng_speech e) \<le> 8"

definition engine_ok :: "unicode \<Rightarrow> (nat \<Rightarrow> string) \<Rightarrow> engine_config \<Rightarrow> engine \<Rightarrow> bool" where
  "engine_ok u ids cfg e \<longleftrightarrow>
     buffers_ok e \<and> cards_ok u cfg (used_ids ids (eng_counter e)) (eng_live e) (eng_settled e)"

lemma snapshot_ids: "map cardId (snapshot e) = shown_ids (eng_live e) (eng_settled e)"
  by (simp add: snapshot_def shown_ids_def toView_def split: option.splits)

lemma snapshot_ids_used:
  assumes "engine_ok u ids cfg e"
  shows "cardId ` set (snapshot e) \<subseteq> used_ids ids (eng_counter e)"
proof -
  have "set (map cardId (snapshot e)) \<subseteq> used_ids ids (eng_counter e)"
    using assms unfolding engine_ok_def cards_ok_def snapshot_ids by blast
  then show ?thesis by (simp only: set_map)
qed

subsection \<open>What the cards may do\<close>

lemma cards_ok_no_live: "cards_ok u cfg used live settled \<Longrightarrow> cards_ok u cfg used None settled"
  by (auto simp: cards_ok_def shown_ids_def split: option.splits)

lemma cards_ok_mono: "cards_ok u cfg used live settled \<Longrightarrow> used \<subseteq> used' \<Longrightarrow> cards_ok u cfg used' live settled"
  by (auto simp: cards_ok_def)

lemma cards_ok_live:
  assumes "cards_ok u cfg used None settled" and "live_ok c" and "cardId c \<in> used"
    and "cardId c \<notin> cardId ` set settled"
  shows "cards_ok u cfg used (Some c) settled"
  using assms by (auto simp: cards_ok_def shown_ids_def)

lemma cards_ok_commit:
  assumes "cards_ok u cfg used None (gone @ kept)" and "length kept \<le> 6" and "kept_ok u cfg c"
    and "cardId c \<in> used" and "cardId c \<notin> cardId ` set kept"
  shows "cards_ok u cfg used None (kept @ [c])"
  using assms by (auto simp: cards_ok_def shown_ids_def)

lemma cards_ok_live_id:
  "cards_ok u cfg used (Some c) settled \<Longrightarrow> cardId c \<in> used \<and> cardId c \<notin> cardId ` set settled \<and> live_ok c"
  by (auto simp: cards_ok_def shown_ids_def)

lemma cards_ok_settled_ids: "cards_ok u cfg used live settled \<Longrightarrow> cardId ` set settled \<subseteq> used"
  by (auto simp: cards_ok_def shown_ids_def)

lemma cards_ok_update:
  assumes "cards_ok u cfg used live settled" and "map cardId settled' = map cardId settled"
    and "\<forall>c \<in> set settled'. kept_ok u cfg c"
  shows "cards_ok u cfg used live settled'"
proof -
  have "length settled' = length settled" using assms(2) by (metis length_map)
  then show ?thesis using assms by (simp add: cards_ok_def shown_ids_def)
qed

section \<open>Inputs of the engine\<close>

datatype engine_input = Speech stt_event | Translated string string jstring bool

fun engine_step ::
    "unicode \<Rightarrow> (nat \<Rightarrow> string) \<Rightarrow> engine_config \<Rightarrow> engine \<Rightarrow> engine_input \<Rightarrow> caption_op list \<times> engine" where
  "engine_step u ids cfg e (Speech ev) = push_event u ids cfg e ev"
| "engine_step u ids cfg e (Translated i lang text final) = applyTranslation cfg e i lang text final"

fun engine_run ::
    "unicode \<Rightarrow> (nat \<Rightarrow> string) \<Rightarrow> engine_config \<Rightarrow> engine \<Rightarrow> engine_input list \<Rightarrow> caption_op list \<times> engine" where
  "engine_run u ids cfg e [] = ([], e)"
| "engine_run u ids cfg e (x # xs) =
     (case engine_step u ids cfg e x of
        (ops, e') \<Rightarrow> (case engine_run u ids cfg e' xs of (ops', e'') \<Rightarrow> (ops @ ops', e'')))"

text \<open>The committed sentences of the inputs, trimmed; a blank one commits nothing.\<close>

definition sentence_of :: "engine_input \<Rightarrow> jstring list" where
  "sentence_of x = (case x of Speech (Committed t atMs) \<Rightarrow> if trim t = [] then [] else [trim t] | _ \<Rightarrow> [])"

definition sentences :: "engine_input list \<Rightarrow> jstring list" where
  "sentences xs = concat (map sentence_of xs)"

lemma sentence_of_simps [simp]:
  "sentence_of (Speech (Partial t m)) = []" "sentence_of (Speech (Silence m)) = []" "sentence_of (Translated i l t f) = []"
  "sentence_of (Speech (Committed t m)) = (if trim t = [] then [] else [trim t])"
  by (simp_all add: sentence_of_def)

lemma sentences_simps [simp]:
  "sentences [] = []" "sentences (x # xs) = sentence_of x @ sentences xs" "sentences (xs @ ys) = sentences xs @ sentences ys"
  by (simp_all add: sentences_def)

lemma sentences_not_blank: "t \<in> set (sentences xs) \<Longrightarrow> t \<noteq> []"
  by (auto simp: sentences_def sentence_of_def split: engine_input.splits stt_event.splits if_splits)

lemma update_first_map: "(\<And>x. P x \<Longrightarrow> g (f x) = g x) \<Longrightarrow> map g (update_first P f xs) = map g xs"
  by (induction xs) auto

lemma set_update_first: "y \<in> set (update_first P f xs) \<Longrightarrow> y \<in> set xs \<or> (\<exists>x \<in> set xs. P x \<and> y = f x)"
  by (induction xs) (auto split: if_splits)

lemma unwords_words_ne: "ws \<noteq> [] \<Longrightarrow> \<forall>w \<in> set ws. is_word w \<Longrightarrow> unwords ws \<noteq> []"
  using unwords_word_first by blast

text \<open>The three outcomes of \<open>applyTranslation\<close>.\<close>

definition retranslate :: "string \<Rightarrow> jstring \<Rightarrow> bool \<Rightarrow> ('a) card_view_scheme \<Rightarrow> ('a) card_view_scheme" where
  "retranslate lang text final c = c\<lparr>card_tr := map_set lang text (card_tr c), card_trFinal := final\<rparr>"

lemma retranslate_fields [simp]:
  "cardId (retranslate lang t final c) = cardId c" "card_text (retranslate lang t final c) = card_text c"
  "card_lines (retranslate lang t final c) = card_lines c" "card_stable (retranslate lang t final c) = card_stable c"
  "card_state (retranslate lang t final c) = card_state c" "card_trFinal (retranslate lang t final c) = final"
  "card_tr (retranslate lang t final c) = map_set lang t (card_tr c)"
  "card_history (retranslate lang t final l) = card_history l"
  by (simp_all add: retranslate_def)

lemma applyTranslation_cases:
  assumes "applyTranslation cfg e i lang t final = (ops, e')"
  obtains (ignored) "ops = []" "e' = e"
  | (live) c where "eng_live e = Some c" "cardId c = i" "card_trFinal c \<longrightarrow> final"
      "ops = translate_ops cfg i lang t final" "e' = e\<lparr>eng_live := Some (retranslate lang t final c)\<rparr>"
  | (kept) c where "c \<in> set (eng_settled e)" "cardId c = i" "\<forall>l. eng_live e = Some l \<longrightarrow> cardId l \<noteq> i"
      "card_trFinal c \<longrightarrow> final" "ops = translate_ops cfg i lang t final"
      "e' = e\<lparr>eng_settled := update_first (\<lambda>c. cardId c = i) (retranslate lang t final) (eng_settled e)\<rparr>"
proof (cases "case eng_live e of None \<Rightarrow> False | Some c \<Rightarrow> cardId c = i")
  case True
  then obtain c where c: "eng_live e = Some c" "cardId c = i" by (auto split: option.splits)
  show ?thesis
  proof (cases "card_trFinal c \<and> \<not> final")
    case True
    then show ?thesis using assms c ignored by (simp add: applyTranslation_def)
  next
    case False
    then show ?thesis
      using assms c live [of c] by (auto simp: applyTranslation_def Let_def retranslate_def)
  qed
next
  case False
  then have nl: "\<forall>l. eng_live e = Some l \<longrightarrow> cardId l \<noteq> i" by auto
  show ?thesis
  proof (cases "find (\<lambda>c. cardId c = i) (eng_settled e)")
    case None
    then show ?thesis using assms False ignored by (simp add: applyTranslation_def)
  next
    case (Some c)
    then have c: "c \<in> set (eng_settled e)" "cardId c = i" by (auto simp: find_Some_iff)
    have r: "retranslate lang t final = (\<lambda>c. c\<lparr>card_tr := map_set lang t (card_tr c), card_trFinal := final\<rparr>)"
      by (simp add: fun_eq_iff retranslate_def)
    show ?thesis
    proof (cases "card_trFinal c \<and> \<not> final")
      case True
      then show ?thesis using assms False Some ignored by (simp add: applyTranslation_def)
    next
      case ok: False
      then show ?thesis
        using assms False Some kept [OF c nl] by (auto simp: applyTranslation_def r split: if_splits)
    qed
  qed
qed

definition same_tr :: "card_view \<Rightarrow> card_view \<Rightarrow> bool" where
  "same_tr c d \<longleftrightarrow> cardId c = cardId d \<and> card_tr c = card_tr d \<and> card_trFinal c = card_trFinal d"

section \<open>What the screen sees of a step\<close>

lemma newest_push: "drop (Suc (length (newest n xs)) - n) (newest n xs @ [x]) = newest n (xs @ [x])"
  by (cases "length xs < n") (auto simp: newest_def Suc_diff_le not_less)

text \<open>The context window holds the newest sentences.\<close>

definition recalls :: "engine_config \<Rightarrow> jstring list \<Rightarrow> engine \<Rightarrow> bool" where
  "recalls cfg said e \<longleftrightarrow>
     eng_context e = \<lparr>ctx_sentences = newest (contextSentences cfg) said, ctx_size = contextSentences cfg\<rparr>"

lemma recalls_get: "recalls cfg said e \<Longrightarrow> ctx_get (eng_context e) = newest (contextSentences cfg) said"
  by (simp add: recalls_def ctx_get_def)

lemma recalls_push:
  assumes "recalls cfg said e" and "eng_context e' = ctx_push (eng_context e) (trim t)" and "trim t \<noteq> []"
  shows "recalls cfg (said @ [trim t]) e'"
  using assms by (simp add: recalls_def ctx_push_def trim_trim shift_while_drop newest_push del: drop_append)

lemma recalls_same: "recalls cfg said e \<Longrightarrow> eng_context e' = eng_context e \<Longrightarrow> recalls cfg said e'"
  by (simp add: recalls_def)

lemma on_screen_fields [simp]:
  "cap_id (on_screen c) = cardId c" "cap_text (on_screen c) = card_text c" "cap_lines (on_screen c) = card_lines c"
  "cap_stable (on_screen c) = card_stable c" "cap_tr (on_screen c) = card_tr c" "cap_final (on_screen c) = card_trFinal c"
  by (simp_all add: on_screen_def)

lemma screen_ids: "map cap_id (map on_screen cs) = map cardId cs"
  by simp

lemma find_by_key: "distinct (map f xs) \<Longrightarrow> x \<in> set xs \<Longrightarrow> find (\<lambda>y. f y = f x) xs = Some x"
  by (induction xs) (auto simp: image_iff)

lemma find_append: "find P (xs @ ys) = (case find P xs of None \<Rightarrow> find P ys | Some x \<Rightarrow> Some x)"
  by (induction xs) auto

lemma find_map_key: "(\<And>x. f (g x) = f x) \<Longrightarrow> find (\<lambda>y. f y = i) (map g xs) = map_option g (find (\<lambda>y. f y = i) xs)"
  by (induction xs) auto

lemma put_fields [simp]:
  "cap_id (put_translation i lang t final c) = cap_id c"
  by (simp add: put_translation_def)

lemma put_on_screen:
  "put_translation i lang t final (on_screen c) = on_screen (if cardId c = i then retranslate lang t final c else c)"
  by (simp add: put_translation_def on_screen_def)

lemma put_nowhere:
  "i \<notin> cardId ` set cs \<Longrightarrow> map (put_translation i lang t final) (map on_screen cs) = map on_screen cs"
  by (induction cs) (auto simp: put_on_screen)

lemma put_once:
  "distinct (map cardId cs) \<Longrightarrow>
     map (put_translation i lang t final) (map on_screen cs) =
     map on_screen (update_first (\<lambda>c. cardId c = i) (retranslate lang t final) cs)"
proof (induction cs)
  case (Cons a cs)
  show ?case
  proof (cases "cardId a = i")
    case True
    then show ?thesis using Cons.prems put_nowhere [of i cs lang t final] by (simp add: put_on_screen)
  next
    case False
    then show ?thesis using Cons by (simp add: put_on_screen)
  qed
qed simp

text \<open>A translation that does not downgrade, and the speech that may follow it.\<close>

lemma translate_accepted:
  assumes "card_shown s i = Some c" and "cap_final c \<longrightarrow> final"
  shows "screen_run s (translate_ops cfg i lang t final) =
     Some (s\<lparr>scr_open := map_option (put_translation i lang t final) (scr_open s),
              scr_kept := map (put_translation i lang t final) (scr_kept s)\<rparr>)" (is "_ = Some ?s")
proof -
  let ?xs = "(case scr_open s of None \<Rightarrow> [] | Some c \<Rightarrow> [c]) @ scr_kept s"
  have i: "cap_id c = i" using assms(1) by (auto simp: card_shown_def find_Some_iff)
  have "card_shown ?s i = find (\<lambda>c. cap_id c = i) (map (put_translation i lang t final) ?xs)"
    by (simp add: card_shown_def split: option.split)
  also have "\<dots> = map_option (put_translation i lang t final) (find (\<lambda>c. cap_id c = i) ?xs)"
    by (rule find_map_key) simp
  also have "\<dots> = Some (put_translation i lang t final c)" using assms(1) by (simp add: card_shown_def)
  finally have sh: "card_shown ?s i = Some (put_translation i lang t final c)" .
  have tr: "screen_op s (CardTranslate i lang t final) = Some ?s" using assms by simp
  have sp: "screen_op ?s (Speak i lang t) = Some ?s" if "final"
    unfolding screen_op.simps sh using that i by (simp add: put_translation_def)
  show ?thesis
  proof (cases "final \<and> voiceLang cfg = Some lang")
    case True
    show ?thesis by (simp only: translate_ops_def if_P [OF True] screen_run.simps tr sp [OF conjunct1 [OF True]] option.case)
  next
    case False
    show ?thesis by (simp only: translate_ops_def if_not_P [OF False] screen_run.simps tr option.case)
  qed
qed

lemma ends_with_joined: "ends_with (joined_speech p t) t"
  by (auto simp: ends_with_def newest_def joined_speech_def split: option.split)

section \<open>The interface to the id generator\<close>

text \<open>
  The engine takes its ids from a generator and relies on one law, that it never repeats
  itself. Under that law every step keeps the invariant and is accepted by the screen.
\<close>

locale id_source =
  fixes ids :: "nat \<Rightarrow> string"
  assumes ids_inj: "inj ids"
begin

lemma fresh_id: "ids (Suc n) \<notin> used_ids ids n"
proof
  assume "ids (Suc n) \<in> used_ids ids n"
  then obtain m where m: "m \<in> {1..n}" "ids (Suc n) = ids m" by (auto simp: used_ids_def)
  then have "Suc n = m" by (metis ids_inj injD)
  with m(1) show False by simp
qed

lemma used_Suc: "used_ids ids (Suc n) = insert (ids (Suc n)) (used_ids ids n)"
  by (simp add: used_ids_def atLeastAtMostSuc_conv)

text \<open>Opening (or finding) the live card.\<close>

lemma open_card_screen:
  assumes "engine_ok u ids cfg e" and "open_card ids e atMs = (c, ops, e')"
  shows "screen_run (engine_screen ids cfg said e) ops =
      Some \<lparr>scr_open = Some (on_screen c), scr_kept = map on_screen (eng_settled e), scr_used = used_ids ids (eng_counter e'),
        scr_said = said, scr_window = contextSentences cfg\<rparr>"
    and "cards_ok u cfg (used_ids ids (eng_counter e')) None (eng_settled e)"
    and "cardId c \<in> used_ids ids (eng_counter e')" and "cardId c \<notin> cardId ` set (eng_settled e)"
    and "length (card_history c) \<le> 8 \<and> card_state c = Live"
proof -
  let ?n = "eng_counter e"
  have cards: "cards_ok u cfg (used_ids ids ?n) (eng_live e) (eng_settled e)"
    using assms(1) by (simp add: engine_ok_def)
  have all: "screen_run (engine_screen ids cfg said e) ops =
        Some \<lparr>scr_open = Some (on_screen c), scr_kept = map on_screen (eng_settled e), scr_used = used_ids ids (eng_counter e'),
        scr_said = said, scr_window = contextSentences cfg\<rparr>
      \<and> cards_ok u cfg (used_ids ids (eng_counter e')) None (eng_settled e)
      \<and> cardId c \<in> used_ids ids (eng_counter e') \<and> cardId c \<notin> cardId ` set (eng_settled e)
      \<and> length (card_history c) \<le> 8 \<and> card_state c = Live"
  proof (cases "eng_live e")
    case None
    then have n: "c = fresh_card (ids (Suc ?n)) atMs" "ops = [CardOpen (ids (Suc ?n)) atMs]"
      "e' = e\<lparr>eng_counter := Suc ?n\<rparr>"
      using open_card_spec [OF assms(2)] by simp_all
    have "cardId c = ids (Suc ?n)" by (simp add: n fresh_card_def)
    then show ?thesis
      using None n fresh_id [of ?n] cards_ok_settled_ids [OF cards] cards_ok_mono [OF cards, of "used_ids ids (Suc ?n)"]
      by (auto simp: engine_screen_def used_Suc fresh_card_def empty_card_def on_screen_def)
  next
    case (Some l)
    then have n: "c = l" "ops = []" "e' = e"
      using open_card_spec [OF assms(2)] by simp_all
    then show ?thesis
      using Some cards cards_ok_no_live [OF cards] cards_ok_live_id [of u cfg _ l]
      by (auto simp: engine_screen_def live_ok_def)
  qed
  then show "screen_run (engine_screen ids cfg said e) ops =
      Some \<lparr>scr_open = Some (on_screen c), scr_kept = map on_screen (eng_settled e), scr_used = used_ids ids (eng_counter e'),
        scr_said = said, scr_window = contextSentences cfg\<rparr>"
    and "cards_ok u cfg (used_ids ids (eng_counter e')) None (eng_settled e)"
    and "cardId c \<in> used_ids ids (eng_counter e')" and "cardId c \<notin> cardId ` set (eng_settled e)"
    and "length (card_history c) \<le> 8 \<and> card_state c = Live"
    by blast+
qed

lemma onPartial_ok:
  assumes ok: "engine_ok u ids cfg e" and said: "recalls cfg said e" and step: "onPartial u ids cfg e t atMs = (ops, e')"
  shows "engine_ok u ids cfg e' \<and> recalls cfg said e'
     \<and> screen_run (engine_screen ids cfg said e) ops = Some (engine_screen ids cfg said e')"
proof (cases "tokenize t = []")
  case True
  then show ?thesis using assms by (simp add: onPartial_blank)
next
  case False
  show ?thesis
  proof (rule onPartial_spec [OF step False])
    fix c0 c opened request frames
    assume s: "open_card ids e atMs = (c0, opened, e\<lparr>eng_counter := eng_counter e'\<rparr>)"
      "eng_live e' = Some c" "cardId c = cardId c0" "card_state c = card_state c0"
      "card_tr c = card_tr c0" "card_trFinal c = card_trFinal c0"
      "card_history c = push_shift 8 (card_history c0) (tokenize t)"
      "card_text c = unwords (tokenize t)"
      "card_stable c = stablePrefixChars (tokenize t)
         (stablePrefixTokens (card_history c) frames (volatileTailTokens cfg))"
      "ops = opened @ CardUpdate (cardId c) (card_lines c) (card_text c) (card_stable c) # request"
      "request = [] \<or> request =
         [TranslateRequest (cardId c) (take (card_stable c) (card_text c)) (ctx_get (eng_context e)) True]
         \<and> 0 < card_stable c"
      "eng_settled e' = eng_settled e" "eng_context e' = eng_context e" "eng_speech e' = eng_speech e"
      "eng_cps e' = eng_cps e"
      "\<exists>p. eng_rewrites e' = record_rewrite (eng_rewrites e) p (tokenize t)"
    note o = open_card_screen [OF ok s(1), simplified]
    have st: "card_stable c \<le> length (card_text c)"
      unfolding s(8,9) by (rule stablePrefixChars_le)
    have hist: "card_history c \<noteq> []" "last (card_history c) = tokenize t" "length (card_history c) \<le> 8"
      using s(7) o(5) push_shift_last [of 8 "card_history c0" "tokenize t"]
        length_push_shift [of "card_history c0" 8 "tokenize t"] by simp_all
    have "card_text c \<noteq> []"
      unfolding s(8) using False tokenize_is_word by (intro unwords_words_ne) auto
    then have live: "live_ok c"
      using s(4,8) o(5) hist st by (simp add: live_ok_def)
    have buf: "buffers_ok e'"
      using ok s(13-16) by (auto simp: engine_ok_def buffers_ok_def)
    have "cards_ok u cfg (used_ids ids (eng_counter e')) (Some c) (eng_settled e)"
      by (rule cards_ok_live [OF o(2) live]) (use o s(3) in auto)
    then have "engine_ok u ids cfg e'" using buf s(2,12) by (simp add: engine_ok_def)
    moreover have "screen_run (engine_screen ids cfg said e) ops = Some (engine_screen ids cfg said e')"
    proof -
      have "on_screen c = (on_screen c0)\<lparr>cap_text := card_text c, cap_lines := card_lines c, cap_stable := card_stable c\<rparr>"
        using s(3,5,6) by (simp add: on_screen_def)
      then show ?thesis
        unfolding s(10) screen_run_append o(1) using s(2,3,11,12) st recalls_get [OF said]
        by (auto simp: engine_screen_def)
    qed
    ultimately show ?thesis using recalls_same [OF said s(13)] by simp
  qed
qed

lemma closeLive_ok:
  assumes ok: "engine_ok u ids cfg e" and said: "recalls cfg said e" and step: "closeLive e atMs = (ops, e')"
  shows "engine_ok u ids cfg e' \<and> recalls cfg said e'
     \<and> screen_run (engine_screen ids cfg said e) ops = Some (engine_screen ids cfg said e')"
proof (cases "eng_live e")
  case None
  then show ?thesis using assms by (simp add: closeLive_def)
next
  case (Some c)
  then have "ops = [CardClose (cardId c) atMs]"
    "e' = e\<lparr>eng_live := None, eng_rewrites := reset_tracker (eng_rewrites e)\<rparr>"
    using step by (simp_all add: closeLive_def)
  then show ?thesis
    using ok Some recalls_same [OF said] by (auto simp: engine_ok_def buffers_ok_def engine_screen_def intro: cards_ok_no_live)
qed

lemma onCommitted_ok:
  assumes ok: "engine_ok u ids cfg e" and said: "recalls cfg said e" and step: "onCommitted u ids cfg e t atMs = (ops, e')"
  shows "engine_ok u ids cfg e' \<and> recalls cfg (said @ (if trim t = [] then [] else [trim t])) e'
     \<and> screen_run (engine_screen ids cfg said e) ops =
        Some (engine_screen ids cfg (said @ (if trim t = [] then [] else [trim t])) e')"
proof (cases "trim t = []")
  case True
  then show ?thesis using step closeLive_ok [OF ok said] by (simp add: onCommitted_blank)
next
  case False
  show ?thesis
  proof (rule onCommitted_spec [OF step False])
    fix c0 c opened speak close lines kept
    assume s: "open_card ids e atMs = (c0, opened, e\<lparr>eng_counter := eng_counter e'\<rparr>)"
      "lines = fst (breakIntoLines u (trim t) (maxCharsPerLine cfg) (maxLines cfg))"
      "c = \<lparr>cardId = cardId c0, card_text = trim t, card_lines = lines, card_stable = length (trim t),
            card_tr = card_tr c0, card_trFinal = card_trFinal c0, card_state = Settled, card_atMs = card_atMs c0\<rparr>"
      "ops = opened
         @ (if card_text c0 \<noteq> [] \<and> card_text c0 \<noteq> trim t
            then CardRetract (cardId c0) lines (trim t) else CardCommit (cardId c0) lines (trim t))
         # (if targetLangs cfg \<noteq> [] then [TranslateRequest (cardId c0) (trim t) (ctx_get (eng_context e)) False] else [])
         @ speak @ close"
      "speech_of_commit cfg (cardId c0) (trim t) (eng_pendingSpeech e) speak (eng_pendingSpeech e')"
      "(length (eng_settled e) \<le> 6 \<and> close = [] \<and> kept = eng_settled e) \<or>
         (\<exists>d. eng_settled e = d # kept \<and> 6 < length (eng_settled e) \<and> close = [CardClose (cardId d) atMs])"
      "eng_settled e' = kept @ [c]" "eng_live e' = None"
      "eng_context e' = ctx_push (eng_context e) (trim t)"
      "eng_rewrites e' = reset_tracker (eng_rewrites e)"
      "eng_cps e' = pct_add (eng_cps e) (cps_sample cfg (trim t))"
      "eng_speech e' = eng_speech e \<or> (\<exists>x. eng_speech e' = sq_push (eng_speech e) x)"
    note o = open_card_screen [OF ok s(1), simplified]
    have c: "cardId c = cardId c0" "kept_ok u cfg c"
      using s(2) False by (simp_all add: s(3) kept_ok_def)
    obtain gone where gone: "eng_settled e = gone @ kept" "length kept \<le> 6"
    proof (cases "length (eng_settled e) \<le> 6")
      case True
      then show ?thesis using s(6) that [of "[]"] by auto
    next
      case False
      then obtain d where d: "eng_settled e = d # kept" using s(6) by blast
      moreover have "length (eng_settled e) \<le> 7" using o(2) by (simp add: cards_ok_def)
      ultimately show ?thesis using that [of "[d]"] by simp
    qed
    have buf: "buffers_ok e'"
      using ok s(9-12) sq_push_depth [of "eng_speech e"] by (auto simp: engine_ok_def buffers_ok_def)
    have "cards_ok u cfg (used_ids ids (eng_counter e')) None (kept @ [c])"
      by (rule cards_ok_commit [of _ _ _ gone]) (use o gone c in auto)
    then have "engine_ok u ids cfg e'"
      using buf s(7,8) by (simp add: engine_ok_def)
    moreover have "screen_run (engine_screen ids cfg said e) ops = Some (engine_screen ids cfg (said @ [trim t]) e')"
    proof -
      let ?s = "\<lparr>scr_open = None, scr_kept = map on_screen (eng_settled e) @ [on_screen c], scr_used = used_ids ids (eng_counter e'),
        scr_said = said @ [trim t], scr_window = contextSentences cfg\<rparr>"
      have c': "on_screen c = (on_screen c0)\<lparr>cap_text := trim t, cap_lines := lines, cap_stable := length (trim t)\<rparr>"
        by (simp add: s(3) on_screen_def)
      have cl: "screen_run ?s close = Some (engine_screen ids cfg (said @ [trim t]) e')"
        using s(6,7,8) c(1) by (auto simp: engine_screen_def)
      have "find (\<lambda>c. cap_id c = cardId c0) (map on_screen (eng_settled e)) = None"
        using o(4) by (auto simp: find_None_iff image_iff)
      then have "card_shown ?s (cardId c0) = Some (on_screen c)"
        using c(1) by (simp add: card_shown_def find_append)
      moreover have "card_text c = trim t" by (simp add: s(3))
      ultimately have "screen_run ?s speak = Some ?s"
        using speech_of_commit_ops [OF s(5)] ends_with_joined by auto
      with cl have sc: "screen_run ?s (speak @ close) = Some (engine_screen ids cfg (said @ [trim t]) e')"
        by (simp add: screen_run_append)
      show ?thesis
        unfolding s(4) screen_run_append [of _ opened] o(1)
        using sc c(1) recalls_get [OF said] by (simp add: settle_card_def c')
    qed
    ultimately show ?thesis using recalls_push [OF said s(9) False] False by simp
  qed
qed

lemma applyTranslation_ok:
  assumes ok: "engine_ok u ids cfg e" and said: "recalls cfg said e" and step: "applyTranslation cfg e i lang t final = (ops, e')"
  shows "engine_ok u ids cfg e' \<and> recalls cfg said e'
     \<and> screen_run (engine_screen ids cfg said e) ops = Some (engine_screen ids cfg said e')"
  using step
proof (cases rule: applyTranslation_cases)
  case ignored
  then show ?thesis using ok said by simp
next
  case (live c)
  have cards: "cards_ok u cfg (used_ids ids (eng_counter e)) (Some c) (eng_settled e)"
    using ok live(1) by (simp add: engine_ok_def)
  have "live_ok (retranslate lang t final c)"
    using cards_ok_live_id [OF cards] by (auto simp: live_ok_def)
  then have "cards_ok u cfg (used_ids ids (eng_counter e)) (Some (retranslate lang t final c)) (eng_settled e)"
    using cards_ok_live_id [OF cards] by (intro cards_ok_live [OF cards_ok_no_live [OF cards]]) auto
  then have ok': "engine_ok u ids cfg e'" using ok live by (simp add: engine_ok_def buffers_ok_def)
  have "card_shown (engine_screen ids cfg said e) i = Some (on_screen c)"
    using live(1,2) by (simp add: card_shown_def engine_screen_def)
  then have "screen_run (engine_screen ids cfg said e) ops = Some (engine_screen ids cfg said e')"
    unfolding live(4) using translate_accepted live(1-3,5) cards_ok_live_id [OF cards]
      put_nowhere [of i "eng_settled e" lang t final] by (simp add: engine_screen_def put_on_screen)
  then show ?thesis using ok' recalls_same [OF said] live(5) by simp
next
  case (kept c)
  let ?settled = "update_first (\<lambda>c. cardId c = i) (retranslate lang t final) (eng_settled e)"
  have cards: "cards_ok u cfg (used_ids ids (eng_counter e)) (eng_live e) (eng_settled e)"
    using ok by (simp add: engine_ok_def)
  have m: "map cardId ?settled = map cardId (eng_settled e)"
    by (rule update_first_map) simp
  have "\<forall>d \<in> set ?settled. kept_ok u cfg d"
    using cards by (auto simp: cards_ok_def kept_ok_def dest!: set_update_first)
  then have "cards_ok u cfg (used_ids ids (eng_counter e)) (eng_live e) ?settled"
    by (rule cards_ok_update [OF cards m])
  then have ok': "engine_ok u ids cfg e'" using ok kept by (simp add: engine_ok_def buffers_ok_def)
  have other: "map_option (put_translation i lang t final) (map_option on_screen (eng_live e)) = map_option on_screen (eng_live e)"
    using kept(3) by (cases "eng_live e") (simp_all add: put_on_screen)
  have dist: "distinct (map cardId (eng_settled e))" using cards by (simp add: cards_ok_def shown_ids_def)
  have "find (\<lambda>d. cap_id d = cap_id (on_screen c)) (map on_screen (eng_settled e)) = Some (on_screen c)"
    by (rule find_by_key) (use dist kept(1) in \<open>simp_all only: screen_ids set_map image_eqI\<close>)
  then have "card_shown (engine_screen ids cfg said e) i = Some (on_screen c)"
    using kept(2,3) by (auto simp: card_shown_def engine_screen_def split: option.split)
  then have "screen_run (engine_screen ids cfg said e) ops = Some (engine_screen ids cfg said e')"
    unfolding kept(5) using translate_accepted [of _ i "on_screen c" final cfg lang t] kept(4,6) put_once [OF dist, of i lang t final] other
    by (simp add: engine_screen_def)
  then show ?thesis using ok' recalls_same [OF said] kept(6) by simp
qed

lemma step_ok:
  assumes "engine_ok u ids cfg e" and "recalls cfg said e" and "engine_step u ids cfg e x = (ops, e')"
  shows "engine_ok u ids cfg e' \<and> recalls cfg (said @ sentence_of x) e'
     \<and> screen_run (engine_screen ids cfg said e) ops = Some (engine_screen ids cfg (said @ sentence_of x) e')"
proof (cases x)
  case (Speech ev)
  then have p: "push_event u ids cfg e ev = (ops, e')" using assms(3) by simp
  show ?thesis
  proof (cases ev)
    case (Partial t atMs)
    have "onPartial u ids cfg e t atMs = (ops, e')" using p Partial by simp
    from onPartial_ok [OF assms(1,2) this] show ?thesis unfolding Speech Partial sentence_of_simps append_Nil2 .
  next
    case (Committed t atMs)
    have "onCommitted u ids cfg e t atMs = (ops, e')" using p Committed by simp
    from onCommitted_ok [OF assms(1,2) this] show ?thesis unfolding Speech Committed sentence_of_simps .
  next
    case (Silence atMs)
    have "closeLive e atMs = (ops, e')" using p Silence by (simp add: onSilence_def)
    from closeLive_ok [OF assms(1,2) this] show ?thesis unfolding Speech Silence sentence_of_simps append_Nil2 .
  qed
next
  case (Translated i lang t final)
  have "applyTranslation cfg e i lang t final = (ops, e')" using assms(3) Translated by simp
  from applyTranslation_ok [OF assms(1,2) this] show ?thesis unfolding Translated sentence_of_simps append_Nil2 .
qed

lemma new_engine_ok: "engine_ok u ids cfg (new_engine cfg)"
  by (simp add: engine_ok_def buffers_ok_def cards_ok_def shown_ids_def new_engine_def
      default_speech_queue_def new_speech_queue_def sq_depth_def)

lemma run_ok:
  assumes "engine_ok u ids cfg e" and "recalls cfg said e" and "engine_run u ids cfg e xs = (ops, e')"
  shows "engine_ok u ids cfg e'
     \<and> screen_run (engine_screen ids cfg said e) ops = Some (engine_screen ids cfg (said @ sentences xs) e')"
  using assms
proof (induction xs arbitrary: e ops said)
  case (Cons x xs)
  obtain ops1 e1 where 1: "engine_step u ids cfg e x = (ops1, e1)" by fastforce
  obtain ops2 e2 where 2: "engine_run u ids cfg e1 xs = (ops2, e2)" by fastforce
  have r: "ops = ops1 @ ops2" "e' = e2" using Cons.prems(3) 1 2 by auto
  have s: "engine_ok u ids cfg e1" "recalls cfg (said @ sentence_of x) e1"
    "screen_run (engine_screen ids cfg said e) ops1 = Some (engine_screen ids cfg (said @ sentence_of x) e1)"
    using step_ok [OF Cons.prems(1,2) 1] by blast+
  show ?case using Cons.IH [OF s(1,2)] 2 s(3) by (simp add: r screen_run_append)
qed auto

text \<open>From the start: every run of the engine is accepted from a blank screen.\<close>

lemma run_from_start:
  assumes "engine_run u ids cfg (new_engine cfg) xs = (ops, e')"
  shows "engine_ok u ids cfg e'
     \<and> screen_run (blank_screen (contextSentences cfg)) ops = Some (engine_screen ids cfg (sentences xs) e')"
proof -
  have "engine_screen ids cfg [] (new_engine cfg) = blank_screen (contextSentences cfg)"
    by (simp add: engine_screen_def new_engine_def blank_screen_def used_ids_def)
  moreover have "recalls cfg [] (new_engine cfg)"
    by (simp add: recalls_def new_engine_def new_context_def newest_def)
  ultimately show ?thesis using run_ok [OF new_engine_ok _ assms, of "[]"] by simp
qed

subsection \<open>Translations are never downgraded\<close>

text \<open>Every card shown after an event is new, or was shown before with the same translations.\<close>

lemma open_card_tr:
  assumes "engine_ok u ids cfg e" and "open_card ids e atMs = (c0, opened, e1)"
    and "cardId d = cardId c0" "card_tr d = card_tr c0" "card_trFinal d = card_trFinal c0"
  shows "(\<exists>c \<in> set (snapshot e). same_tr c d) \<or> cardId d \<notin> cardId ` set (snapshot e)"
proof (cases "eng_live e")
  case None
  then have "c0 = fresh_card (ids (eng_counter e + 1)) atMs"
    using open_card_spec [OF assms(2)] by simp
  then have "cardId d = ids (Suc (eng_counter e))"
    unfolding assms(3) by (simp add: fresh_card_def)
  moreover have "cardId ` set (snapshot e) \<subseteq> used_ids ids (eng_counter e)"
    by (rule snapshot_ids_used [OF assms(1)])
  ultimately have "cardId d \<notin> cardId ` set (snapshot e)"
    using fresh_id [of "eng_counter e"] by (metis subsetD)
  then show ?thesis ..
next
  case (Some c)
  then have "c0 = c" using open_card_spec [OF assms(2)] by simp
  then have "same_tr (toView c) d" using assms(3-5) by (simp add: same_tr_def toView_def)
  then show ?thesis using Some by (auto simp: snapshot_def)
qed

lemma event_keeps_tr:
  assumes ok: "engine_ok u ids cfg e" and step: "push_event u ids cfg e ev = (ops, e')"
    and d: "d \<in> set (snapshot e')"
  shows "(\<exists>c \<in> set (snapshot e). same_tr c d) \<or> cardId d \<notin> cardId ` set (snapshot e)"
proof -
  have old: ?thesis if "d \<in> set (snapshot e)"
    using that by (auto simp: same_tr_def)
  have sub: "set (eng_settled e) \<subseteq> set (snapshot e)"
    by (auto simp: snapshot_def split: option.splits)
  have settled: ?thesis if "d \<in> set (eng_settled e)"
    by (rule old [OF subsetD [OF sub that]])
  have close: ?thesis if "closeLive e atMs = (ops, e')" for atMs
  proof -
    have "set (snapshot e') \<subseteq> set (snapshot e)"
      using that by (auto simp: closeLive_def snapshot_def split: option.splits)
    then show ?thesis using d old by blast
  qed
  show ?thesis
  proof (cases ev)
    case (Partial t atMs)
    then have p: "onPartial u ids cfg e t atMs = (ops, e')" using step by simp
    show ?thesis
    proof (cases "tokenize t = []")
      case True
      then show ?thesis using p d old by (simp add: onPartial_blank)
    next
      case False
      show ?thesis
      proof (rule onPartial_spec [OF p False])
        fix c0 c opened
        assume s: "open_card ids e atMs = (c0, opened, e\<lparr>eng_counter := eng_counter e'\<rparr>)" "eng_live e' = Some c"
          "cardId c = cardId c0" "card_tr c = card_tr c0" "card_trFinal c = card_trFinal c0"
          "eng_settled e' = eng_settled e"
        have "d \<in> set (eng_settled e) \<or> d = toView c" using d s(2,6) by (auto simp: snapshot_def)
        moreover have ?thesis if "d = toView c"
          by (rule open_card_tr [OF ok s(1)]) (use that s(3-5) in \<open>simp_all add: toView_def\<close>)
        ultimately show ?thesis using settled by blast
      qed
    qed
  next
    case (Committed t atMs)
    then have p: "onCommitted u ids cfg e t atMs = (ops, e')" using step by simp
    show ?thesis
    proof (cases "trim t = []")
      case True
      then show ?thesis using p close by (simp add: onCommitted_blank)
    next
      case False
      show ?thesis
      proof (rule onCommitted_spec [OF p False])
        fix c0 c opened kept lines close'
        assume s: "open_card ids e atMs = (c0, opened, e\<lparr>eng_counter := eng_counter e'\<rparr>)"
          "c = \<lparr>cardId = cardId c0, card_text = trim t, card_lines = lines, card_stable = length (trim t),
            card_tr = card_tr c0, card_trFinal = card_trFinal c0, card_state = Settled, card_atMs = card_atMs c0\<rparr>"
          "(length (eng_settled e) \<le> 6 \<and> close' = [] \<and> kept = eng_settled e) \<or>
             (\<exists>d. eng_settled e = d # kept \<and> 6 < length (eng_settled e) \<and> close' = [CardClose (cardId d) atMs])"
          "eng_settled e' = kept @ [c]" "eng_live e' = None"
        have "set kept \<subseteq> set (eng_settled e)" using s(3) by auto
        then have "d \<in> set (eng_settled e) \<or> d = c" using d s(4,5) by (auto simp: snapshot_def)
        moreover have ?thesis if "d = c"
          by (rule open_card_tr [OF ok s(1)]) (use that s(2) in simp_all)
        ultimately show ?thesis using settled by blast
      qed
    qed
  next
    case (Silence atMs)
    then show ?thesis using step close by (simp add: onSilence_def)
  qed
qed

lemma final_kept:
  assumes ok: "engine_ok u ids cfg e" and step: "engine_step u ids cfg e x = (ops, e')"
    and c: "c \<in> set (snapshot e)" "card_trFinal c" and d: "d \<in> set (snapshot e')" "cardId d = cardId c"
  shows "card_trFinal d \<and>
     (card_tr d = card_tr c \<or>
      (\<exists>lang t. x = Translated (cardId c) lang t True \<and> card_tr d = map_set lang t (card_tr c)))"
proof -
  have dist: "distinct (map cardId (snapshot e))"
    using ok by (simp add: engine_ok_def cards_ok_def snapshot_ids)
  have uniq: "c' = c" if "c' \<in> set (snapshot e)" "cardId c' = cardId c" for c'
    using dist that c(1) by (auto simp: distinct_map dest: inj_onD)
  show ?thesis
  proof (cases x)
    case (Speech ev)
    then have "push_event u ids cfg e ev = (ops, e')" using step by simp
    from event_keeps_tr [OF ok this d(1)] obtain c' where "c' \<in> set (snapshot e)" "same_tr c' d"
      using c(1) d(2) by force
    moreover from this have "c' = c" using uniq d(2) by (simp add: same_tr_def)
    ultimately show ?thesis using c(2) by (simp add: same_tr_def)
  next
    case (Translated i lang t final)
    then have "applyTranslation cfg e i lang t final = (ops, e')" using step by simp
    then show ?thesis
    proof (cases rule: applyTranslation_cases)
      case ignored
      then show ?thesis using uniq [of d] d c(2) by auto
    next
      case (live l)
      have "d \<in> set (snapshot e) \<or> d = toView (retranslate lang t final l)"
        using d(1) live(1,5) by (auto simp: snapshot_def)
      then show ?thesis
      proof
        assume "d \<in> set (snapshot e)"
        then show ?thesis using uniq [of d] d c(2) by auto
      next
        assume d': "d = toView (retranslate lang t final l)"
        then have "toView l = c" using uniq [of "toView l"] live(1) d(2) by (simp add: snapshot_def toView_def)
        then have "card_trFinal l" "card_tr l = card_tr c" using c(2) by (auto simp: toView_def)
        then show ?thesis using d' live(2,3) d(2) Translated by (auto simp: toView_def)
      qed
    next
      case (kept s)
      have sub: "set (eng_settled e) \<subseteq> set (snapshot e)" by (auto simp: snapshot_def split: option.splits)
      have "d \<in> set (snapshot e) \<or> (\<exists>s' \<in> set (eng_settled e). cardId s' = i \<and> d = retranslate lang t final s')"
        using d(1) kept(6) by (auto simp: snapshot_def split: option.splits dest!: set_update_first)
      then show ?thesis
      proof
        assume "d \<in> set (snapshot e)"
        then show ?thesis using uniq [of d] d c(2) by auto
      next
        assume "\<exists>s' \<in> set (eng_settled e). cardId s' = i \<and> d = retranslate lang t final s'"
        then obtain s' where s': "s' \<in> set (eng_settled e)" "cardId s' = i" "d = retranslate lang t final s'" by blast
        then have "s' = c" "s = c" using uniq sub d(2) kept(1,2) by auto
        then show ?thesis using s' kept(4) c(2) Translated by auto
      qed
    qed
  qed
qed

end

text \<open>The default generator \<open>c1\<close>, \<open>c2\<close>, \<dots> never repeats itself.\<close>

interpretation counter_ids: id_source default_ids
  by unfold_locales (auto simp: default_ids_def inj_def)

section \<open>Who may speak\<close>

lemma open_card_ops: "open_card ids e atMs = (c, ops, e') \<Longrightarrow> ops = [] \<or> (\<exists>i. ops = [CardOpen i atMs])"
  by (auto simp: open_card_def nextId_def split: option.splits)

lemma closeLive_ops: "closeLive e atMs = (ops, e') \<Longrightarrow> ops = [] \<or> (\<exists>i. ops = [CardClose i atMs])"
  by (auto simp: closeLive_def split: option.splits)

lemma onPartial_no_speak:
  assumes p: "onPartial u ids cfg e t atMs = (ops, e')"
  shows "Speak i lang s \<notin> set ops"
proof (cases "tokenize t = []")
  case True
  then show ?thesis using p by (simp add: onPartial_blank)
next
  case False
  show ?thesis
  proof (rule onPartial_spec [OF p False])
    fix c0 c opened request
    assume s: "open_card ids e atMs = (c0, opened, e\<lparr>eng_counter := eng_counter e'\<rparr>)"
      "ops = opened @ CardUpdate (cardId c) (card_lines c) (card_text c) (card_stable c) # request"
      "request = [] \<or> request =
         [TranslateRequest (cardId c) (take (card_stable c) (card_text c)) (ctx_get (eng_context e)) True]
         \<and> 0 < card_stable c"
    from open_card_ops [OF s(1)] s(3) show ?thesis by (auto simp: s(2))
  qed
qed

lemma onCommitted_speak:
  assumes p: "onCommitted u ids cfg e t atMs = (ops, e')" and op: "Speak i lang s \<in> set ops"
  shows "voiceLang cfg = Some lang \<and> lang \<noteq> [] \<and> targetLangs cfg = [] \<and> trim t \<noteq> []
     \<and> s = joined_speech (eng_pendingSpeech e) (trim t)
     \<and> (\<exists>c \<in> set (eng_settled e'). cardId c = i \<and> card_text c = trim t)"
proof (cases "trim t = []")
  case True
  then show ?thesis using p op closeLive_ops [of e atMs ops e'] by (auto simp: onCommitted_blank)
next
  case False
  show ?thesis
  proof (rule onCommitted_spec [OF p False])
    fix c0 c opened speak close lines kept
    assume s: "open_card ids e atMs = (c0, opened, e\<lparr>eng_counter := eng_counter e'\<rparr>)"
      "c = \<lparr>cardId = cardId c0, card_text = trim t, card_lines = lines, card_stable = length (trim t),
            card_tr = card_tr c0, card_trFinal = card_trFinal c0, card_state = Settled, card_atMs = card_atMs c0\<rparr>"
      "ops = opened
         @ (if card_text c0 \<noteq> [] \<and> card_text c0 \<noteq> trim t
            then CardRetract (cardId c0) lines (trim t) else CardCommit (cardId c0) lines (trim t))
         # (if targetLangs cfg \<noteq> [] then [TranslateRequest (cardId c0) (trim t) (ctx_get (eng_context e)) False] else [])
         @ speak @ close"
      "speech_of_commit cfg (cardId c0) (trim t) (eng_pendingSpeech e) speak (eng_pendingSpeech e')"
      "(length (eng_settled e) \<le> 6 \<and> close = [] \<and> kept = eng_settled e) \<or>
         (\<exists>d. eng_settled e = d # kept \<and> 6 < length (eng_settled e) \<and> close = [CardClose (cardId d) atMs])"
      "eng_settled e' = kept @ [c]"
    have "Speak i lang s \<in> set speak"
      using op open_card_ops [OF s(1)] s(5) by (auto simp: s(3) split: if_splits)
    note said = speech_of_commit_speak [OF s(4) this]
    have "c \<in> set (eng_settled e')" "cardId c = i" "card_text c = trim t"
      using said by (simp_all add: s(2,6))
    then show ?thesis using said False by blast
  qed
qed

lemma speak_source:
  assumes step: "engine_step u ids cfg e x = (ops, e')" and op: "Speak i lang s \<in> set ops"
  shows "voiceLang cfg = Some lang \<and>
     ((\<exists>t atMs. x = Speech (Committed t atMs) \<and> targetLangs cfg = [] \<and> lang \<noteq> [] \<and> trim t \<noteq> []
         \<and> s = joined_speech (eng_pendingSpeech e) (trim t)
         \<and> (\<exists>c \<in> set (eng_settled e'). cardId c = i \<and> card_text c = trim t))
      \<or> x = Translated i lang s True)"
proof (cases x)
  case (Speech ev)
  then have p: "push_event u ids cfg e ev = (ops, e')" using step by simp
  show ?thesis
  proof (cases ev)
    case (Partial t atMs)
    then have "onPartial u ids cfg e t atMs = (ops, e')" using p by simp
    from onPartial_no_speak [OF this] op show ?thesis by blast
  next
    case (Committed t atMs)
    then have "onCommitted u ids cfg e t atMs = (ops, e')" using p by simp
    from onCommitted_speak [OF this op] show ?thesis using Speech Committed by blast
  next
    case (Silence atMs)
    then have "closeLive e atMs = (ops, e')" using p by (simp add: onSilence_def)
    from closeLive_ops [OF this] op show ?thesis by auto
  qed
next
  case (Translated i' lang' t final)
  then have "applyTranslation cfg e i' lang' t final = (ops, e')" using step by simp
  then show ?thesis
    using op Translated by (cases rule: applyTranslation_cases) (auto simp: translate_ops_def split: if_splits)
qed

subsection \<open>What waits to be spoken\<close>

text \<open>The committed sentences since the last that was spoken: they were too short, also together.\<close>

definition hold_back :: "engine_config \<Rightarrow> jstring list \<Rightarrow> jstring \<Rightarrow> jstring list" where
  "hold_back cfg held t =
     (if shouldMergeForward (unwords (held @ [t])) (minWordsForSpeech cfg) then held @ [t] else [])"

definition held_sentences :: "engine_config \<Rightarrow> jstring list \<Rightarrow> jstring list" where
  "held_sentences cfg said = foldl (hold_back cfg) [] said"

lemma held_snoc: "held_sentences cfg (said @ [t]) = hold_back cfg (held_sentences cfg said) t"
  by (simp add: held_sentences_def)

lemma ends_with_snoc: "ends_with xs ys \<Longrightarrow> ends_with (xs @ [x]) (ys @ [x])"
proof -
  assume "ends_with xs ys"
  then have eq: "drop (length xs - length ys) xs = ys" by (simp add: ends_with_def newest_def)
  then have "length ys \<le> length xs" by (metis diff_le_self length_drop)
  then show ?thesis using eq by (simp add: ends_with_def newest_def)
qed

lemma held_are_newest: "ends_with said (held_sentences cfg said)"
proof (induction said rule: rev_induct)
  case Nil
  then show ?case by (simp add: held_sentences_def ends_with_def newest_def)
next
  case (snoc t said)
  then show ?case using ends_with_snoc [OF snoc] by (simp add: held_snoc hold_back_def) (simp add: ends_with_def newest_def)
qed

lemma set_held: "set (held_sentences cfg said) \<subseteq> set said"
  using held_are_newest [of said cfg] set_drop_subset unfolding ends_with_def newest_def by metis

text \<open>The fragment that waits in the engine is those sentences.\<close>

definition waits :: "engine_config \<Rightarrow> jstring list \<Rightarrow> jstring option \<Rightarrow> bool" where
  "waits cfg said p \<longleftrightarrow>
     (truthy (voiceLang cfg) \<longrightarrow>
        p = (if held_sentences cfg said = [] then None else Some (unwords (held_sentences cfg said))))"

lemma joined_held:
  assumes "waits cfg said p" and "truthy (voiceLang cfg)" and "[] \<notin> set said"
  shows "joined_speech p t = unwords (held_sentences cfg said @ [t])"
proof -
  have "\<forall>w \<in> set (held_sentences cfg said). w \<noteq> []" using set_held [of cfg said] assms(3) by auto
  then show ?thesis
    using assms(1,2) join_eq_Nil [of "held_sentences cfg said" "[32]"] join_append [of "held_sentences cfg said" "[t]" "[32]"]
    by (auto simp: waits_def joined_speech_def)
qed

lemma commit_waits:
  assumes "waits cfg said p" and "[] \<notin> set said" and "speech_of_commit cfg i t p ops p'"
  shows "waits cfg (said @ [t]) p'"
  using assms joined_held [OF assms(1) _ assms(2), of t]
  by (auto simp: waits_def speech_of_commit_def held_snoc hold_back_def split: if_splits)

lemma step_waits:
  assumes w: "waits cfg said (eng_pendingSpeech e)" and ne: "[] \<notin> set said" and step: "engine_step u ids cfg e x = (ops, e')"
  shows "waits cfg (said @ sentence_of x) (eng_pendingSpeech e')"
proof -
  have close: "closeLive e atMs = (ops, e') \<Longrightarrow> eng_pendingSpeech e' = eng_pendingSpeech e" for atMs
    by (auto simp: closeLive_def split: option.splits)
  show ?thesis
  proof (cases x)
    case (Speech ev)
    then have p: "push_event u ids cfg e ev = (ops, e')" using step by simp
    show ?thesis
    proof (cases ev)
      case (Partial t atMs)
      then have p': "onPartial u ids cfg e t atMs = (ops, e')" using p by simp
      have "eng_pendingSpeech e' = eng_pendingSpeech e"
      proof (cases "tokenize t = []")
        case True
        then show ?thesis using p' by (simp add: onPartial_blank)
      next
        case False
        from onPartial_spec [OF p' False] show ?thesis by metis
      qed
      then show ?thesis using w Speech Partial by simp
    next
      case (Committed t atMs)
      then have p': "onCommitted u ids cfg e t atMs = (ops, e')" using p by simp
      show ?thesis
      proof (cases "trim t = []")
        case True
        then show ?thesis using p' close w Speech Committed by (simp add: onCommitted_blank)
      next
        case False
        obtain i speak where "speech_of_commit cfg i (trim t) (eng_pendingSpeech e) speak (eng_pendingSpeech e')"
          by (rule onCommitted_spec [OF p' False])
        from commit_waits [OF w ne this] show ?thesis using Speech Committed False by simp
      qed
    next
      case (Silence atMs)
      then show ?thesis using p close w Speech by (simp add: onSilence_def)
    qed
  next
    case (Translated i lang t final)
    then have "applyTranslation cfg e i lang t final = (ops, e')" using step by simp
    then have "eng_pendingSpeech e' = eng_pendingSpeech e" by (cases rule: applyTranslation_cases) simp_all
    then show ?thesis using w Translated by simp
  qed
qed

lemma run_waits:
  assumes "waits cfg said (eng_pendingSpeech e)" and "[] \<notin> set said"
  shows "waits cfg (said @ sentences xs) (eng_pendingSpeech (snd (engine_run u ids cfg e xs)))"
  using assms
proof (induction xs arbitrary: e said)
  case (Cons x xs)
  obtain ops1 e1 where 1: "engine_step u ids cfg e x = (ops1, e1)" by fastforce
  have "[] \<notin> set (said @ sentence_of x)"
    using Cons.prems(2) sentences_not_blank [of "[]" "[x]"] by auto
  moreover obtain ops2 e2 where "engine_run u ids cfg e1 xs = (ops2, e2)" by fastforce
  ultimately show ?case using Cons.IH [OF step_waits [OF Cons.prems 1]] 1 by simp
qed simp

lemma run_waits_from_start:
  "waits cfg (sentences xs) (eng_pendingSpeech (snd (engine_run u ids cfg (new_engine cfg) xs)))"
  using run_waits [of cfg "[]" "new_engine cfg" xs u ids]
  by (simp add: waits_def held_sentences_def new_engine_def)

lemma reachable:
  "engine_ok u default_ids cfg (snd (engine_run u default_ids cfg (new_engine cfg) xs))"
  "screen_run (blank_screen (contextSentences cfg)) (fst (engine_run u default_ids cfg (new_engine cfg) xs)) =
     Some (engine_screen default_ids cfg (sentences xs) (snd (engine_run u default_ids cfg (new_engine cfg) xs)))"
  by (cases "engine_run u default_ids cfg (new_engine cfg) xs", simp add: counter_ids.run_from_start)+

section \<open>Properties\<close>

text \<open>
  C2: Whatever speech events and translations arrive, in whatever order, a screen that follows the operations of the engine from
  its start accepts each of them, and shows in the end exactly what the engine holds: the open card and the committed cards in
  order, each with its text, lines, stable part, translations and whether they are final. On the way cards are opened under fresh
  ids, one at a time; only the open card is updated, committed (when it is empty or shows that text) or retracted (when it shows
  another text); no final translation is replaced by a provisional one; a speculative request quotes the stable part of the open
  card and any other request the card just committed, both with the newest committed sentences before it as context; what is
  spoken is a final translation that is on the screen or ends with the text of a committed card; and only the open card or the
  oldest committed card is closed.
\<close>

theorem engine_stream_accepted:
  "screen_run (blank_screen (contextSentences cfg)) (fst (engine_run u default_ids cfg (new_engine cfg) inputs)) =
     Some (engine_screen default_ids cfg (sentences inputs) (snd (engine_run u default_ids cfg (new_engine cfg) inputs)))"
  by (rule reachable(2))

text \<open>
  C29: In every state the engine reaches there are at most seven settled cards, all card ids
  shown are distinct and were issued, every settled card is stable to its last character and
  carries the line break of its text, the live card shows the words of its latest hypothesis
  with a stable part inside its text, and the histories, the context window, the percentile and
  the speech queue stay within their capacities.
\<close>

theorem engine_invariant:
  "engine_ok u default_ids cfg (snd (engine_run u default_ids cfg (new_engine cfg) inputs))"
  by (rule reachable(1))

text \<open>
  C30: A final translation is never downgraded. Once a card has one, then after any next input
  the card (if still shown) is still final, and its translations are the same unless that input
  is another final translation of this very card, which replaces one language.
\<close>

theorem final_translation_kept:
  assumes "c \<in> set (snapshot (snd (engine_run u default_ids cfg (new_engine cfg) inputs)))"
    and "card_trFinal c"
    and "d \<in> set (snapshot (snd (engine_step u default_ids cfg
            (snd (engine_run u default_ids cfg (new_engine cfg) inputs)) x)))"
    and "cardId d = cardId c"
  shows "card_trFinal d \<and>
     (card_tr d = card_tr c \<or>
      (\<exists>lang t. x = Translated (cardId c) lang t True \<and> card_tr d = map_set lang t (card_tr c)))"
proof -
  obtain ops e' where step: "engine_step u default_ids cfg
      (snd (engine_run u default_ids cfg (new_engine cfg) inputs)) x = (ops, e')" by fastforce
  show ?thesis
    by (rule counter_ids.final_kept [OF reachable(1) step]) (use assms step in simp_all)
qed

definition demo_cfg :: engine_config where
  "demo_cfg = DEFAULT_ENGINE_CONFIG\<lparr>targetLangs := [''pl''], voiceLang := Some ''pl''\<rparr>"

definition demo_inputs :: "engine_input list" where
  "demo_inputs = [Speech (Committed (js ''good morning all'') 10), Translated ''c1'' ''pl'' (js ''dobry'') True]"

definition demo_card :: card_view where
  "demo_card = \<lparr>cardId = ''c1'', card_text = js ''good morning all'', card_lines = [js ''good morning all''],
     card_stable = 16, card_tr = [(''pl'', js ''dobry'')], card_trFinal = True, card_state = Settled, card_atMs = 10\<rparr>"

theorem final_translation_kept_witness:
  "demo_card \<in> set (snapshot (snd (engine_run latin_tables default_ids demo_cfg (new_engine demo_cfg) demo_inputs)))
   \<and> card_tr demo_card = [(''pl'', js ''dobry'')]"
proof -
  have 1: "snapshot (snd (engine_run latin_tables default_ids demo_cfg (new_engine demo_cfg) demo_inputs)) = [demo_card]"
    by code_simp
  have 2: "snapshot (snd (engine_step latin_tables default_ids demo_cfg
      (snd (engine_run latin_tables default_ids demo_cfg (new_engine demo_cfg) demo_inputs))
      (Translated ''c1'' ''pl'' (js ''zly'') False))) = [demo_card]"
    by code_simp
  have "card_trFinal demo_card" by (simp add: demo_card_def)
  from final_translation_kept [of demo_card latin_tables demo_cfg demo_inputs demo_card, unfolded 1,
      OF _ this _ refl, of "Translated ''c1'' ''pl'' (js ''zly'') False"] 2
  have "card_trFinal demo_card" by simp
  then show ?thesis by (simp add: 1 demo_card_def)
qed

text \<open>
  C31: The voice only speaks what cannot change any more. An operation \<open>speak\<close> is emitted in the configured language and either
  carries the text of a final translation that arrives for the card it names, or belongs to a commit of a session without
  translation: then it names the card that was committed, and its text is the fragment that waited, a space and the committed
  text, trimmed. In a state that the engine reaches by any inputs, that fragment is made of the newest committed sentences, those
  held back since the last one that was spoken. No partial and no speculative translation is ever spoken.
\<close>

theorem speak_only_settled_text:
  assumes "Speak i lang s \<in> set (fst (engine_step u ids cfg e x))"
  shows "voiceLang cfg = Some lang \<and>
     ((\<exists>t atMs. x = Speech (Committed t atMs) \<and> targetLangs cfg = []
         \<and> s = joined_speech (eng_pendingSpeech e) (trim t)
         \<and> (\<exists>c \<in> set (eng_settled (snd (engine_step u ids cfg e x))). cardId c = i \<and> card_text c = trim t)
         \<and> (\<forall>inputs. e = snd (engine_run u ids cfg (new_engine cfg) inputs) \<longrightarrow>
              s = unwords (held_sentences cfg (sentences inputs) @ [trim t])
              \<and> ends_with (sentences (inputs @ [x])) (held_sentences cfg (sentences inputs) @ [trim t])))
      \<or> x = Translated i lang s True)"
proof -
  obtain ops e' where step: "engine_step u ids cfg e x = (ops, e')" by fastforce
  have op: "Speak i lang s \<in> set ops" using assms step by simp
  note source = speak_source [OF step op]
  show ?thesis
  proof (cases "x = Translated i lang s True")
    case False
    then obtain t atMs where c: "voiceLang cfg = Some lang" "lang \<noteq> []" "x = Speech (Committed t atMs)" "targetLangs cfg = []"
      "trim t \<noteq> []" "s = joined_speech (eng_pendingSpeech e) (trim t)" "\<exists>c \<in> set (eng_settled e'). cardId c = i \<and> card_text c = trim t"
      using source by blast
    have "s = unwords (held_sentences cfg (sentences inputs) @ [trim t])
        \<and> ends_with (sentences (inputs @ [x])) (held_sentences cfg (sentences inputs) @ [trim t])"
      if "e = snd (engine_run u ids cfg (new_engine cfg) inputs)" for inputs
    proof -
      have "waits cfg (sentences inputs) (eng_pendingSpeech e)" unfolding that by (rule run_waits_from_start)
      moreover have "[] \<notin> set (sentences inputs)" using sentences_not_blank by blast
      moreover have "ends_with (sentences inputs @ [trim t]) (held_sentences cfg (sentences inputs) @ [trim t])"
        by (rule ends_with_snoc [OF held_are_newest])
      ultimately show ?thesis using joined_held [of cfg "sentences inputs" "eng_pendingSpeech e" "trim t"] c
        by (simp add: truthy_iff)
    qed
    then show ?thesis using c step by auto
  qed (use source in blast)
qed

text \<open>A sentence of one word waits and is spoken with the next one; a final translation is spoken as it is.\<close>

definition voice_cfg :: engine_config where
  "voice_cfg = DEFAULT_ENGINE_CONFIG\<lparr>voiceLang := Some ''en''\<rparr>"

definition voice_engine :: engine where
  "voice_engine = snd (engine_run latin_tables default_ids voice_cfg (new_engine voice_cfg) [Speech (Committed (js ''hi'') 1)])"

definition voice_commit :: engine_input where
  "voice_commit = Speech (Committed (js '' good morning all'') 2)"

theorem speak_only_settled_text_witness:
  "Speak ''c2'' ''en'' (js ''hi good morning all'') \<in> set (fst (engine_step latin_tables default_ids voice_cfg voice_engine voice_commit))
   \<and> js ''hi good morning all'' = unwords (held_sentences voice_cfg (sentences [Speech (Committed (js ''hi'') 1)]) @ [js ''good morning all''])
   \<and> Speak ''c1'' ''pl'' (js ''dobry'') \<in> set (fst (engine_step latin_tables default_ids demo_cfg
      (snd (engine_run latin_tables default_ids demo_cfg (new_engine demo_cfg) [Speech (Committed (js ''hi'') 1)]))
      (Translated ''c1'' ''pl'' (js ''dobry'') True)))
   \<and> voiceLang demo_cfg = Some ''pl''"
proof -
  have 1: "Speak ''c2'' ''en'' (js ''hi good morning all'')
      \<in> set (fst (engine_step latin_tables default_ids voice_cfg voice_engine voice_commit))"
    by code_simp
  have 2: "Speak ''c1'' ''pl'' (js ''dobry'') \<in> set (fst (engine_step latin_tables default_ids demo_cfg
      (snd (engine_run latin_tables default_ids demo_cfg (new_engine demo_cfg) [Speech (Committed (js ''hi'') 1)]))
      (Translated ''c1'' ''pl'' (js ''dobry'') True)))"
    by code_simp
  have t: "trim (js '' good morning all'') = js ''good morning all''" by code_simp
  from speak_only_settled_text [OF 1] have "js ''hi good morning all'' =
      unwords (held_sentences voice_cfg (sentences [Speech (Committed (js ''hi'') 1)]) @ [js ''good morning all''])"
    unfolding voice_commit_def voice_engine_def by (auto simp only: engine_input.inject engine_input.distinct stt_event.inject t)
  with 1 2 speak_only_settled_text [OF 2] show ?thesis by blast
qed

text \<open>
  C32: What a partial shows. When a partial holds at least one word, the live card afterwards
  shows exactly its words, its stable part ends at a word boundary and is a prefix every
  hypothesis of the stability window agrees on, leaving the volatile tail out; the speculative
  request that may follow carries that stable part and nothing of the tail.
\<close>

theorem partial_shows_stable_words:
  assumes "tokenize text \<noteq> []"
  shows "\<exists>c k. eng_live (snd (onPartial u ids cfg e text atMs)) = Some c
     \<and> card_text c = unwords (words text)
     \<and> take (card_stable c) (card_text c) = unwords (take k (words text))
     \<and> (k = 0 \<or> k + volatileTailTokens cfg \<le> length (words text))
     \<and> (\<forall>h \<in> set (slice_last (stabilityFrames cfg) (card_history c)). 0 < stabilityFrames cfg \<longrightarrow> agrees h (words text) k)
     \<and> (\<forall>i t ctx final. TranslateRequest i t ctx final \<in> set (fst (onPartial u ids cfg e text atMs)) \<longrightarrow>
          t = unwords (take k (words text)) \<and> final)"
proof -
  obtain ops e' where p: "onPartial u ids cfg e text atMs = (ops, e')" by fastforce
  show ?thesis
  proof (rule onPartial_spec [OF p assms])
    fix c0 c opened request frames
    assume s: "open_card ids e atMs = (c0, opened, e\<lparr>eng_counter := eng_counter e'\<rparr>)" "eng_live e' = Some c"
      "card_history c = push_shift 8 (card_history c0) (tokenize text)" "card_text c = unwords (tokenize text)"
      "frames \<in> {stabilityFrames cfg, Suc (stabilityFrames cfg)}"
      "card_stable c = stablePrefixChars (tokenize text)
         (stablePrefixTokens (card_history c) frames (volatileTailTokens cfg))"
      "ops = opened @ CardUpdate (cardId c) (card_lines c) (card_text c) (card_stable c) # request"
      "request = [] \<or> request =
         [TranslateRequest (cardId c) (take (card_stable c) (card_text c)) (ctx_get (eng_context e)) True]
         \<and> 0 < card_stable c"
    define k where "k = stablePrefixTokens (card_history c) frames (volatileTailTokens cfg)"
    have h: "card_history c \<noteq> []" "last (card_history c) = tokenize text"
      unfolding s(3) using push_shift_end [of 8 "card_history c0" "tokenize text"] by simp_all
    have k: "k = 0 \<or> (k + volatileTailTokens cfg \<le> length (tokenize text) \<and>
        (\<forall>h \<in> set (slice_last frames (card_history c)). agrees h (tokenize text) k))"
      using stable_le_iff [OF h(1), of frames k "volatileTailTokens cfg"]
        stable_short_history [of "card_history c" frames "volatileTailTokens cfg"] h(2)
      unfolding k_def by (cases "frames \<le> length (card_history c)") simp_all
    have sub: "set (slice_last (stabilityFrames cfg) (card_history c)) \<subseteq> set (slice_last frames (card_history c))"
      if "0 < stabilityFrames cfg"
      using s(5) that slice_last_mono [of "stabilityFrames cfg" frames "card_history c"] by auto
    have agree: "\<forall>h \<in> set (slice_last (stabilityFrames cfg) (card_history c)).
        0 < stabilityFrames cfg \<longrightarrow> agrees h (words text) k"
      using k sub by (auto simp: tokenize_words)
    have shown: "take (card_stable c) (card_text c) = unwords (take k (words text))"
      unfolding s(4,6) k_def [symmetric] tokenize_words by (rule stable_text)
    have req: "\<forall>i t ctx final. TranslateRequest i t ctx final \<in> set ops \<longrightarrow>
        t = unwords (take k (words text)) \<and> final"
      unfolding s(7) using open_card_ops [OF s(1)] s(8) shown by auto
    have len: "k = 0 \<or> k + volatileTailTokens cfg \<le> length (words text)"
      using k by (auto simp: tokenize_words)
    have "card_text c = unwords (words text)" unfolding s(4) tokenize_words ..
    with s(2) shown len agree req show ?thesis unfolding p fst_conv snd_conv by blast
  qed
qed

theorem partial_shows_stable_words_witness:
  "eng_live (snd (onPartial latin_tables default_ids demo_cfg (new_engine demo_cfg) (js ''a b'') 1)) \<noteq> None"
proof -
  have "tokenize (js ''a b'') \<noteq> []" by code_simp
  from partial_shows_stable_words [OF this] show ?thesis by blast
qed

end
