(* ===== verification/Session_Actor.thy ===== *)
theory Session_Actor
  imports Caption_Protocol Metering
begin

text \<open>
  \<open>apps/relay/src/session-actor.ts\<close>: one session. The actor owns the caption engine, the meter, the
  translate queue and the sockets. Its state is the record \<open>actor\<close>; what it does to the
  outside is appended to the trace \<open>a_out\<close>; every method is a function on the record. A method
  that awaits is cut there: translations in flight are \<open>a_running\<close>, suspended calls of the meter \<open>a_waits\<close>. A handler
  reads the clock once (\<open>now\<close>).
\<close>

section \<open>Data\<close>

datatype session_state = INIT | RUNNING | DRAINING | CLOSED

record translation_request =
  tq_cardId :: string
  tq_lang :: string
  tq_text :: jstring
  tq_context :: "jstring list"
  tq_speculative :: bool

record tts_chunk =
  tc_cardId :: string
  tc_lang :: string
  tc_chunk :: string
  tc_final :: bool

text \<open>The code of an upstream error: \<open>FATAL\<close> or a notice code.\<close>

datatype stt_error = Stt_FATAL | Stt_notice notice_code

record projector =
  pj_id :: nat
  pj_role :: projector_role

datatype actor_effect =
    To_studio relay_message
  | To_projector projector relay_message
  | Close_studio nat end_reason
  | Close_projector projector nat string
  | Stt_start | Stt_audio "byte list" | Stt_commit | Stt_close
  | Tts_start | Tts_speak string jstring | Tts_close
  | Translate translation_request
  | Gateway gateway_call
  | Set_ticker int | Clear_ticker
  | On_closed string
  | Log string

record actor_env =
  env_sessionId :: string
  env_watermark :: bool
  env_tts :: bool
  env_unicode :: unicode
  env_ids :: "nat \<Rightarrow> string"
  env_engine :: engine_config

record actor =
  a_state :: session_state
  a_startedAt :: int
  a_engine :: engine
  a_meter :: meter
  a_config :: session_config
  a_seq :: nat
  a_history :: "(nat \<times> relay_message) list"
  a_projectors :: "projector list"
  a_nextProjector :: nat
  a_pending :: "(string, translation_request) jsmap"
  a_running :: "translation_request list"
  a_ticker :: bool
  a_tickInFlight :: bool
  a_waits :: "(gateway_call \<times> meter_wait) list"
  a_lastAudioAt :: int
  a_silenceSignalled :: bool
  a_frameWindowStart :: int
  a_framesInWindow :: nat
  a_noticedAt :: "(notice_code, int) jsmap"
  a_closing :: "end_reason option"
  a_out :: "actor_effect list"

definition HISTORY_LIMIT :: nat where
  "HISTORY_LIMIT = 500"

definition MAX_INFLIGHT_TRANSLATIONS :: nat where
  "MAX_INFLIGHT_TRANSLATIONS = 2"

definition NOTICE_COOLDOWN_MS :: int where
  "NOTICE_COOLDOWN_MS = 15000"

definition MAX_AUDIO_FRAMES_PER_SECOND :: nat where
  "MAX_AUDIO_FRAMES_PER_SECOND = 60"

definition new_actor :: "actor_env \<Rightarrow> session_config \<Rightarrow> meter \<Rightarrow> int \<Rightarrow> actor" where
  "new_actor env cfg m now =
     \<lparr>a_state = INIT, a_startedAt = now, a_engine = new_engine (env_engine env), a_meter = m, a_config = cfg,
      a_seq = 0, a_history = [], a_projectors = [], a_nextProjector = 0, a_pending = [], a_running = [],
      a_ticker = False, a_tickInFlight = False, a_waits = [], a_lastAudioAt = now, a_silenceSignalled = False,
      a_frameWindowStart = now, a_framesInWindow = 0, a_noticedAt = [], a_closing = None, a_out = []\<rparr>"

section \<open>Wire\<close>

definition outp :: "actor_effect \<Rightarrow> actor \<Rightarrow> actor" where
  "outp e a = a\<lparr>a_out := a_out a @ [e]\<rparr>"

definition isProjectorSafeType :: "string \<Rightarrow> bool" where
  "isProjectorSafeType t \<longleftrightarrow> t \<in> set PROJECTOR_SAFE_EVENTS"

definition VOICE_ROLE_EVENTS :: "string list" where
  "VOICE_ROLE_EVENTS = [''snapshot'', ''tts'', ''render'', ''pong'']"

definition allowedForRole :: "string \<Rightarrow> projector_role \<Rightarrow> bool" where
  "allowedForRole t role =
     (case role of Role_voice \<Rightarrow> t \<in> set VOICE_ROLE_EVENTS | Role_captions \<Rightarrow> t \<noteq> ''tts'')"

text \<open>\<open>'seq' in message\<close>, and the message with its \<open>seq\<close> replaced.\<close>

fun seq_of :: "relay_message \<Rightarrow> nat option" where
  "seq_of (Relay_snapshot n i c r w) = Some n"
| "seq_of (Relay_partial n i x k tr) = Some n"
| "seq_of (Relay_commit n i x tr) = Some n"
| "seq_of (Relay_retract n i x tr) = Some n"
| "seq_of (Relay_cardEnd n i) = Some n"
| "seq_of (Relay_tts n i l c f) = Some n"
| "seq_of (Relay_render n r) = Some n"
| "seq_of _ = None"

fun stamp :: "nat \<Rightarrow> relay_message \<Rightarrow> relay_message" where
  "stamp m (Relay_snapshot n i c r w) = Relay_snapshot m i c r w"
| "stamp m (Relay_partial n i x k tr) = Relay_partial m i x k tr"
| "stamp m (Relay_commit n i x tr) = Relay_commit m i x tr"
| "stamp m (Relay_retract n i x tr) = Relay_retract m i x tr"
| "stamp m (Relay_cardEnd n i) = Relay_cardEnd m i"
| "stamp m (Relay_tts n i l c f) = Relay_tts m i l c f"
| "stamp m (Relay_render n r) = Relay_render m r"
| "stamp m msg = msg"

definition remember :: "nat \<Rightarrow> relay_message \<Rightarrow> actor \<Rightarrow> actor" where
  "remember n msg a = a\<lparr>a_history := shift_while HISTORY_LIMIT (a_history a @ [(n, msg)])\<rparr>"

definition to_projectors :: "relay_message \<Rightarrow> actor \<Rightarrow> actor" where
  "to_projectors msg a =
     (if isProjectorSafe msg then
        fold (\<lambda>p. if allowedForRole (relay_t msg) (pj_role p) then outp (To_projector p msg) else id)
          (a_projectors a) a
      else a)"

definition emit :: "relay_message \<Rightarrow> actor \<Rightarrow> actor" where
  "emit msg a =
     (case seq_of msg of
        None \<Rightarrow> to_projectors msg (outp (To_studio msg) a)
      | Some old \<Rightarrow>
          let n = a_seq a + 1; m = stamp n msg
          in to_projectors m (remember n m (outp (To_studio m) (a\<lparr>a_seq := n\<rparr>))))"

definition notice :: "int \<Rightarrow> notice_code \<Rightarrow> notice_level \<Rightarrow> actor \<Rightarrow> actor" where
  "notice now code level a =
     (if (case map_of (a_noticedAt a) code of None \<Rightarrow> False | Some t \<Rightarrow> now - t < NOTICE_COOLDOWN_MS) then a
      else emit (Relay_notice level code None) (a\<lparr>a_noticedAt := map_set code now (a_noticedAt a)\<rparr>))"

section \<open>Projectors\<close>

definition nonempty_tr :: "(string, jstring) jsmap \<Rightarrow> (string, jstring) jsmap option" where
  "nonempty_tr tr = (if length tr > 0 then Some tr else None)"

definition wire_state_of :: "card_state \<Rightarrow> wire_state" where
  "wire_state_of s = (case s of Live \<Rightarrow> Wire_live | Settled \<Rightarrow> Wire_settled | Fading \<Rightarrow> Wire_fading)"

definition toCaptionCard :: "card_view \<Rightarrow> caption_card" where
  "toCaptionCard v =
     \<lparr>cc_cardId = cardId v, cc_text = card_text v, cc_stable = card_stable v, cc_tr = nonempty_tr (card_tr v),
      cc_trFinal = card_trFinal v, cc_state = wire_state_of (card_state v), cc_at = max 0 (card_atMs v)\<rparr>"

definition buildSnapshot :: "actor_env \<Rightarrow> actor \<Rightarrow> relay_message" where
  "buildSnapshot env a =
     Relay_snapshot (a_seq a) (env_sessionId env) (map toCaptionCard (snapshot (a_engine a)))
       (sc_render (a_config a)) (env_watermark env)"

definition backfillFrom :: "actor \<Rightarrow> nat \<Rightarrow> projector_role \<Rightarrow> relay_message list option" where
  "backfillFrom a lastSeq role =
     (if lastSeq > a_seq a then None
      else (case a_history a of
              [] \<Rightarrow> None
            | (oldest, _) # _ \<Rightarrow>
                if oldest > lastSeq + 1 then None
                else Some (map snd (filter (\<lambda>(n, msg).
                  n > lastSeq \<and> isProjectorSafeType (relay_t msg) \<and> allowedForRole (relay_t msg) role) (a_history a)))))"

definition attachProjector :: "actor_env \<Rightarrow> projector_role \<Rightarrow> nat option \<Rightarrow> actor \<Rightarrow> actor" where
  "attachProjector env role lastSeq a =
     (let p = \<lparr>pj_id = a_nextProjector a, pj_role = role\<rparr>;
          a = a\<lparr>a_projectors := a_projectors a @ [p], a_nextProjector := a_nextProjector a + 1\<rparr>
      in (case (case lastSeq of None \<Rightarrow> None | Some n \<Rightarrow> backfillFrom a n role) of
            Some backfill \<Rightarrow> fold (\<lambda>msg. outp (To_projector p msg)) backfill a
          | None \<Rightarrow> outp (To_projector p (buildSnapshot env a)) a))"

definition detachProjector :: "nat \<Rightarrow> actor \<Rightarrow> actor" where
  "detachProjector i a = a\<lparr>a_projectors := filter (\<lambda>p. pj_id p \<noteq> i) (a_projectors a)\<rparr>"

definition projectorCount :: "actor \<Rightarrow> nat" where
  "projectorCount a = length (a_projectors a)"

section \<open>Translate queue\<close>

definition job_key :: "string \<Rightarrow> string \<Rightarrow> string" where
  "job_key i lang = i @ ''|'' @ lang"

function pumpTranslations :: "actor \<Rightarrow> actor" where
  "pumpTranslations a =
     (if length (a_running a) < MAX_INFLIGHT_TRANSLATIONS \<and> a_state a \<noteq> CLOSED then
        (case a_pending a of
           [] \<Rightarrow> a
         | (key, job) # rest \<Rightarrow>
             pumpTranslations (outp (Translate job)
               (a\<lparr>a_pending := map_delete key (a_pending a), a_running := a_running a @ [job]\<rparr>)))
      else a)"
  by pat_completeness auto

termination
  by (relation "measure (\<lambda>a. length (a_pending a))") (auto simp: outp_def intro!: le_imp_less_Suc length_delete_le)

declare pumpTranslations.simps [simp del]

text \<open>What holds before the pump and survives one turn of its loop holds after it.\<close>

lemma pump_invariant:
  assumes "I a"
    and "\<And>a key job rest. I a \<Longrightarrow> a_pending a = (key, job) # rest \<Longrightarrow>
      length (a_running a) < MAX_INFLIGHT_TRANSLATIONS \<and> a_state a \<noteq> CLOSED \<Longrightarrow>
      I (outp (Translate job) (a\<lparr>a_pending := map_delete key (a_pending a), a_running := a_running a @ [job]\<rparr>))"
  shows "I (pumpTranslations a)"
  using assms(1)
proof (induction a rule: pumpTranslations.induct)
  case (1 a)
  let ?go = "length (a_running a) < MAX_INFLIGHT_TRANSLATIONS \<and> a_state a \<noteq> CLOSED"
  show ?case
  proof (cases "?go \<and> a_pending a \<noteq> []")
    case True
    then obtain key job rest where p: "a_pending a = (key, job) # rest" by (metis list.exhaust surj_pair)
    have "I (outp (Translate job) (a\<lparr>a_pending := map_delete key (a_pending a), a_running := a_running a @ [job]\<rparr>))"
      using assms(2) [OF "1.prems" p] True by blast
    from "1.IH" [OF conjunct1 [OF True] p refl this] show ?thesis
      by (subst pumpTranslations.simps) (simp only: p conjunct1 [OF True] if_True simp_thms list.case prod.case)
  next
    case False
    then have "pumpTranslations a = a"
      by (subst pumpTranslations.simps) (auto split: list.split)
    then show ?thesis using "1.prems" by simp
  qed
qed

text \<open>The loop over the target languages: a committed request is not replaced by a speculative one.\<close>

definition enqueue_lang :: "string \<Rightarrow> jstring \<Rightarrow> jstring list \<Rightarrow> bool \<Rightarrow> string \<Rightarrow> actor \<Rightarrow> actor" where
  "enqueue_lang i s context speculative lang a =
     (let key = job_key i lang
      in if (case map_of (a_pending a) key of None \<Rightarrow> False | Some queued \<Rightarrow> \<not> tq_speculative queued \<and> speculative) then a
         else a\<lparr>a_pending := map_set key
            \<lparr>tq_cardId = i, tq_lang = lang, tq_text = s, tq_context = context, tq_speculative = speculative\<rparr> (a_pending a)\<rparr>)"

definition enqueueTranslation :: "string \<Rightarrow> jstring \<Rightarrow> jstring list \<Rightarrow> bool \<Rightarrow> actor \<Rightarrow> actor" where
  "enqueueTranslation i s context speculative a =
     pumpTranslations (fold (enqueue_lang i s context speculative) (sc_dstLangs (a_config a)) a)"

section \<open>Upstream events\<close>

definition emitTranslation :: "string \<Rightarrow> actor \<Rightarrow> actor" where
  "emitTranslation i a =
     (case find (\<lambda>v. cardId v = i) (snapshot (a_engine a)) of
        None \<Rightarrow> a
      | Some crd \<Rightarrow>
          if card_state crd = Live
          then emit (Relay_partial 0 i (card_text crd) (card_stable crd) (nonempty_tr (card_tr crd))) a
          else emit (Relay_retract 0 i (card_text crd) (nonempty_tr (card_tr crd))) a)"

fun apply_op :: "actor_env \<Rightarrow> caption_op \<Rightarrow> actor \<Rightarrow> actor" where
  "apply_op env (CardOpen i atMs) a = a"
| "apply_op env (CardUpdate i ls s n) a = emit (Relay_partial 0 i s n None) a"
| "apply_op env (CardCommit i ls s) a = emit (Relay_commit 0 i s None) a"
| "apply_op env (CardRetract i ls s) a = emit (Relay_retract 0 i s None) a"
| "apply_op env (CardTranslate i lang s final) a = emitTranslation i a"
| "apply_op env (CardClose i atMs) a = emit (Relay_cardEnd 0 i) a"
| "apply_op env (TranslateRequest i s context speculative) a = enqueueTranslation i s context speculative a"
| "apply_op env (Speak i lang s) a = (if env_tts env then outp (Tts_speak i s) a else a)"

definition applyOps :: "actor_env \<Rightarrow> caption_op list \<Rightarrow> actor \<Rightarrow> actor" where
  "applyOps env ops a = fold (apply_op env) ops a"

text \<open>The engine changes and its operations are applied.\<close>

definition engine_push :: "actor_env \<Rightarrow> stt_event \<Rightarrow> actor \<Rightarrow> actor" where
  "engine_push env ev a =
     (case push_event (env_unicode env) (env_ids env) (env_engine env) (a_engine a) ev of
        (ops, e) \<Rightarrow> applyOps env ops (a\<lparr>a_engine := e\<rparr>))"

definition onSttEvent :: "actor_env \<Rightarrow> stt_event \<Rightarrow> actor \<Rightarrow> actor" where
  "onSttEvent env ev a = (if a_state a = CLOSED then a else engine_push env ev a)"

definition onTtsAudio :: "tts_chunk \<Rightarrow> actor \<Rightarrow> actor" where
  "onTtsAudio c a =
     (if a_state a = CLOSED then a
      else emit (Relay_tts 0 (tc_cardId c) (tc_lang c) (tc_chunk c) (tc_final c)) a)"

text \<open>\<open>runTranslation\<close> after its await: the \<open>i\<close>-th job in flight has an answer, or failed.\<close>

definition onTranslated :: "actor_env \<Rightarrow> int \<Rightarrow> nat \<Rightarrow> jstring option \<Rightarrow> actor \<Rightarrow> actor" where
  "onTranslated env now i result a =
     (if i \<ge> length (a_running a) then a
      else
        let job = a_running a ! i;
            a = (case result of
                   Some s \<Rightarrow>
                     if a_state a = CLOSED then a
                     else (case applyTranslation (env_engine env) (a_engine a) (tq_cardId job) (tq_lang job) s (\<not> tq_speculative job) of
                             (ops, e) \<Rightarrow> applyOps env ops (a\<lparr>a_engine := e\<rparr>))
                 | None \<Rightarrow> outp (Log ''translation request failed'') (notice now TRANSLATION_DEGRADED Level_warn a))
        in pumpTranslations (a\<lparr>a_running := take i (a_running a) @ drop (i + 1) (a_running a)\<rparr>))"

section \<open>Close\<close>

text \<open>The part of \<open>performClose\<close> after the meter is closed.\<close>

definition finish_close :: "actor_env \<Rightarrow> end_reason \<Rightarrow> actor \<Rightarrow> actor" where
  "finish_close env why a =
     (let a = emit (Relay_end why (spent (m_reservation (a_meter a)))) a;
          a = a\<lparr>a_state := CLOSED\<rparr>;
          a = outp (Close_studio 1000 why) a;
          a = fold (\<lambda>p. outp (Close_projector p 1000 ''session_ended'')) (a_projectors a) a
      in outp (On_closed (env_sessionId env)) (a\<lparr>a_projectors := []\<rparr>))"

text \<open>What the meter's events do; only \<open>On_exhausted\<close> closes.\<close>

fun meter_event_quiet :: "int \<Rightarrow> meter_event \<Rightarrow> actor \<Rightarrow> actor" where
  "meter_event_quiet now (On_credits u) a = emit (Relay_credits u) a"
| "meter_event_quiet now (On_notice level code) a = notice now code level a"
| "meter_event_quiet now On_flush_failed a = outp (Log ''ledger flush failed'') a"
| "meter_event_quiet now On_exhausted a = a"

definition suspend :: "gateway_call \<Rightarrow> meter_wait \<Rightarrow> actor \<Rightarrow> actor" where
  "suspend call wt a = outp (Gateway call) (a\<lparr>a_waits := a_waits a @ [(call, wt)]\<rparr>)"

text \<open>The meter's \<open>close\<close> goes on: it raises nothing but a failed flush.\<close>

definition close_outcome :: "actor_env \<Rightarrow> int \<Rightarrow> end_reason \<Rightarrow> outcome \<Rightarrow> actor \<Rightarrow> actor" where
  "close_outcome env now why out a =
     (case out of (ev, m, k) \<Rightarrow>
        let a = fold (meter_event_quiet now) ev (a\<lparr>a_meter := m\<rparr>)
        in (case k of Finished \<Rightarrow> finish_close env why a | Await call wt \<Rightarrow> suspend call wt a))"

definition performClose :: "actor_env \<Rightarrow> int \<Rightarrow> end_reason \<Rightarrow> actor \<Rightarrow> actor" where
  "performClose env now why a =
     (let a = (if a_ticker a then outp Clear_ticker a else a);
          a = outp Stt_close (a\<lparr>a_ticker := False\<rparr>);
          a = (if env_tts env then outp Tts_close a else a);
          a = a\<lparr>a_pending := []\<rparr>
      in close_outcome env now why (close_start (a_meter a) now) a)"

definition close_session :: "actor_env \<Rightarrow> int \<Rightarrow> end_reason \<Rightarrow> actor \<Rightarrow> actor" where
  "close_session env now why a =
     (if a_state a = CLOSED \<or> a_closing a \<noteq> None then a
      else performClose env now why (a\<lparr>a_state := DRAINING, a_closing := Some why\<rparr>))"

section \<open>Clock\<close>

fun on_meter_event :: "actor_env \<Rightarrow> int \<Rightarrow> meter_event \<Rightarrow> actor \<Rightarrow> actor" where
  "on_meter_event env now On_exhausted a = close_session env now End_credits_exhausted a"
| "on_meter_event env now ev a = meter_event_quiet now ev a"

definition tick_outcome :: "actor_env \<Rightarrow> int \<Rightarrow> outcome \<Rightarrow> actor \<Rightarrow> actor" where
  "tick_outcome env now out a =
     (case out of (ev, m, k) \<Rightarrow>
        let a = fold (on_meter_event env now) ev (a\<lparr>a_meter := m\<rparr>)
        in (case k of Finished \<Rightarrow> a\<lparr>a_tickInFlight := False\<rparr> | Await call wt \<Rightarrow> suspend call wt a))"

definition signalSilenceIfIdle :: "actor_env \<Rightarrow> int \<Rightarrow> actor \<Rightarrow> actor" where
  "signalSilenceIfIdle env now a =
     (if now - a_lastAudioAt a < SILENCE_PAUSE_MS \<or> a_silenceSignalled a then a
      else engine_push env (Silence (now - a_startedAt a)) (a\<lparr>a_silenceSignalled := True\<rparr>))"

definition onTick :: "actor_env \<Rightarrow> int \<Rightarrow> actor \<Rightarrow> actor" where
  "onTick env now a =
     (if a_tickInFlight a \<or> a_state a \<noteq> RUNNING then a
      else
        let a = signalSilenceIfIdle env now (a\<lparr>a_tickInFlight := True\<rparr>)
        in tick_outcome env now (tick_start (a_meter a) now) a)"

text \<open>The gateway answers the \<open>i\<close>-th suspended call: the tick or the close goes on. A rejected reserve
  ends the tick, a rejected release is logged and the close goes on.\<close>

definition onGateway :: "actor_env \<Rightarrow> int \<Rightarrow> nat \<Rightarrow> gateway_answer \<Rightarrow> actor \<Rightarrow> actor" where
  "onGateway env now i answer a =
     (if i \<ge> length (a_waits a) then a
      else
        (case a_waits a ! i of (call, wt) \<Rightarrow>
           let a = a\<lparr>a_waits := take i (a_waits a) @ drop (i + 1) (a_waits a)\<rparr>;
               out = resume (a_meter a) wt answer
           in (case wt of
                 Tick_reserve t \<Rightarrow>
                   tick_outcome env now out (if answer = Rejected then outp (Log ''meter tick failed'') a else a)
               | Tick_flush t \<Rightarrow> tick_outcome env now out a
               | Close_flush \<Rightarrow> close_outcome env now (the (a_closing a)) out a
               | Close_release \<Rightarrow>
                   close_outcome env now (the (a_closing a)) out
                     (if answer = Rejected then outp (Log ''final ledger settlement failed'') a else a))))"

section \<open>Studio\<close>

definition actor_start :: "actor \<Rightarrow> actor_env \<Rightarrow> actor" where
  "actor_start a env =
     (if a_state a \<noteq> INIT then a
      else
        let a = outp Stt_start (a\<lparr>a_state := RUNNING\<rparr>);
            a = (if env_tts env then outp Tts_start a else a);
            a = emit (Relay_ready (env_sessionId env) PROTOCOL_VERSION (m_ratePerMinute (a_meter a))) a
        in outp (Set_ticker METER_TICK_MS) (a\<lparr>a_ticker := True\<rparr>))"

definition acceptFrame :: "int \<Rightarrow> actor \<Rightarrow> bool \<times> actor" where
  "acceptFrame now a =
     (let a = (if now - a_frameWindowStart a \<ge> 1000 then a\<lparr>a_frameWindowStart := now, a_framesInWindow := 0\<rparr> else a);
          a = a\<lparr>a_framesInWindow := a_framesInWindow a + 1\<rparr>
      in if a_framesInWindow a \<le> MAX_AUDIO_FRAMES_PER_SECOND then (True, a)
         else (False, notice now NETWORK_SLOW Level_warn a))"

definition onAudioFrame :: "int \<Rightarrow> audio_frame \<Rightarrow> actor \<Rightarrow> actor" where
  "onAudioFrame now frame a =
     (if a_state a \<noteq> RUNNING then a
      else (case acceptFrame now a of
              (False, a) \<Rightarrow> a
            | (True, a) \<Rightarrow>
                outp (Stt_audio (frame_pcm frame))
                  (a\<lparr>a_lastAudioAt := now, a_silenceSignalled := False, a_meter := markAudio (a_meter a) now\<rparr>)))"

text \<open>The parsed \<open>render\<close> of a patch is complete, so spreading it over the old one replaces it.\<close>

definition applyConfigure :: "int \<Rightarrow> partial_session_config \<Rightarrow> actor \<Rightarrow> actor" where
  "applyConfigure now patch a =
     (let a = (if pc_dstLangs patch \<noteq> None \<or> pc_voice patch \<noteq> None \<or> pc_srcLang patch \<noteq> None
               then notice now TRANSLATION_DEGRADED Level_info a else a)
      in (case pc_render patch of
            None \<Rightarrow> a
          | Some r \<Rightarrow> emit (Relay_render 0 r) (a\<lparr>a_config := (a_config a)\<lparr>sc_render := r\<rparr>\<rparr>)))"

fun onStudioMessage :: "actor_env \<Rightarrow> int \<Rightarrow> studio_message \<Rightarrow> actor \<Rightarrow> actor" where
  "onStudioMessage env now (Studio_hello v j c) a = a"
| "onStudioMessage env now Studio_flush a = (if a_state a = RUNNING then outp Stt_commit a else a)"
| "onStudioMessage env now (Studio_configure patch) a = applyConfigure now patch a"
| "onStudioMessage env now Studio_bye a = close_session env now End_user a"

definition onSttError :: "actor_env \<Rightarrow> int \<Rightarrow> stt_error \<Rightarrow> actor \<Rightarrow> actor" where
  "onSttError env now e a =
     (case e of
        Stt_FATAL \<Rightarrow> close_session env now End_upstream_error (outp (Log ''stt upstream exhausted retries'') a)
      | Stt_notice code \<Rightarrow> notice now code Level_warn a)"

definition onTtsError :: "int \<Rightarrow> notice_code \<Rightarrow> actor \<Rightarrow> actor" where
  "onTtsError now code a = notice now code Level_warn a"

section \<open>Everything that can happen to an actor\<close>

datatype actor_input =
    In_start
  | In_audio int audio_frame
  | In_studio int studio_message
  | In_attach projector_role "nat option"
  | In_detach nat
  | In_stt int stt_event
  | In_stt_error int stt_error
  | In_tts tts_chunk
  | In_tts_error int notice_code
  | In_translated int nat "jstring option"
  | In_tick int
  | In_gateway int nat gateway_answer
  | In_close int end_reason

fun actor_step :: "actor_env \<Rightarrow> actor_input \<Rightarrow> actor \<Rightarrow> actor" where
  "actor_step env In_start a = actor_start a env"
| "actor_step env (In_audio now frame) a = onAudioFrame now frame a"
| "actor_step env (In_studio now msg) a = onStudioMessage env now msg a"
| "actor_step env (In_attach role lastSeq) a = attachProjector env role lastSeq a"
| "actor_step env (In_detach i) a = detachProjector i a"
| "actor_step env (In_stt now ev) a = onSttEvent env ev a"
| "actor_step env (In_stt_error now e) a = onSttError env now e a"
| "actor_step env (In_tts c) a = onTtsAudio c a"
| "actor_step env (In_tts_error now code) a = onTtsError now code a"
| "actor_step env (In_translated now i result) a = onTranslated env now i result a"
| "actor_step env (In_tick now) a = onTick env now a"
| "actor_step env (In_gateway now i answer) a = onGateway env now i answer a"
| "actor_step env (In_close now why) a = close_session env now why a"

text \<open>The gateway answers a call it was given, within its law.\<close>

fun input_ok :: "actor \<Rightarrow> actor_input \<Rightarrow> bool" where
  "input_ok a (In_gateway now i answer) = (i < length (a_waits a) \<and> answer_ok (fst (a_waits a ! i)) answer)"
| "input_ok a inp = True"

inductive actor_reach :: "actor_env \<Rightarrow> session_config \<Rightarrow> meter \<Rightarrow> int \<Rightarrow> actor \<Rightarrow> bool" for env cfg m now where
  start: "actor_reach env cfg m now (new_actor env cfg m now)"
| step: "actor_reach env cfg m now a \<Longrightarrow> input_ok a inp \<Longrightarrow> actor_reach env cfg m now (actor_step env inp a)"

end
