(* ===== verification/Session_Wire.thy ===== *)
theory Session_Wire
  imports Session_Actor
begin

text \<open>
  What goes over the wire of a session: the numbering of messages, the history kept for projectors that
  reattach, and what a projector is ever sent. The handlers are taken apart once, in the locale
  \<open>actor_part\<close>, for every invariant that only looks at some of the actor's fields.
\<close>

section \<open>What an emission changes\<close>

lemma outp_frame: "outp e a = a\<lparr>a_out := a_out a @ [e]\<rparr>"
  by (simp add: outp_def)

lemma fold_outp: "fold (\<lambda>x. if P x then outp (f x) else id) xs a = a\<lparr>a_out := a_out a @ map f (filter P xs)\<rparr>"
  by (induction xs arbitrary: a) (simp_all add: outp_def)

lemma fold_outp_all: "fold (\<lambda>x. outp (f x)) xs a = a\<lparr>a_out := a_out a @ map f xs\<rparr>"
  by (induction xs arbitrary: a) (simp_all add: outp_def)

text \<open>The effects on projectors of one message.\<close>

definition fan_out :: "relay_message \<Rightarrow> projector list \<Rightarrow> actor_effect list" where
  "fan_out msg ps =
     (if isProjectorSafe msg
      then map (\<lambda>p. To_projector p msg) (filter (\<lambda>p. allowedForRole (relay_t msg) (pj_role p)) ps) else [])"

lemma to_projectors_eq: "to_projectors msg a = a\<lparr>a_out := a_out a @ fan_out msg (a_projectors a)\<rparr>"
  by (simp add: to_projectors_def fan_out_def fold_outp)

lemma emit_eq:
  "emit msg a =
     (case seq_of msg of
        None \<Rightarrow> a\<lparr>a_out := a_out a @ To_studio msg # fan_out msg (a_projectors a)\<rparr>
      | Some old \<Rightarrow>
          let n = a_seq a + 1; m = stamp n msg
          in a\<lparr>a_seq := n, a_history := shift_while HISTORY_LIMIT (a_history a @ [(n, m)]),
               a_out := a_out a @ To_studio m # fan_out m (a_projectors a)\<rparr>)"
  by (simp add: emit_def to_projectors_eq remember_def outp_def Let_def split: option.split)

lemma seq_of_stamp: "seq_of (stamp n msg) = (case seq_of msg of None \<Rightarrow> None | Some old \<Rightarrow> Some n)"
  by (cases msg) simp_all

lemma relay_t_stamp [simp]: "relay_t (stamp n msg) = relay_t msg"
  by (cases msg) simp_all

section \<open>Invariants of part of the state\<close>

definition off_wire :: "actor_effect \<Rightarrow> bool" where
  "off_wire e \<longleftrightarrow> (case e of To_studio msg \<Rightarrow> False | To_projector p msg \<Rightarrow> False | _ \<Rightarrow> True)"

lemma off_wire_simps [simp]:
  "off_wire Stt_start" "off_wire (Stt_audio b)" "off_wire Stt_commit" "off_wire Stt_close" "off_wire Tts_start"
  "off_wire (Tts_speak i s)" "off_wire Tts_close" "off_wire (Translate j)" "off_wire (Gateway c)" "off_wire (Set_ticker t)"
  "off_wire Clear_ticker" "off_wire (On_closed i)" "off_wire (Log l)" "off_wire (Close_studio n r)" "off_wire (Close_projector p n str)"
  "\<not> off_wire (To_studio msg)" "\<not> off_wire (To_projector p msg)"
  by (simp_all add: off_wire_def)

text \<open>Effects that are neither wire messages nor calls of the gateway nor the end, and messages that are not the end.\<close>

definition plain :: "actor_effect \<Rightarrow> bool" where
  "plain e \<longleftrightarrow> off_wire e \<and> (case e of Gateway c \<Rightarrow> False | On_closed i \<Rightarrow> False | _ \<Rightarrow> True)"

lemma plain_simps [simp]:
  "plain Stt_start" "plain (Stt_audio b)" "plain Stt_commit" "plain Stt_close" "plain Tts_start" "plain (Tts_speak i s)"
  "plain Tts_close" "plain (Translate j)" "plain (Set_ticker t)" "plain Clear_ticker" "\<not> plain (On_closed i)" "plain (Log l)"
  "plain (Close_studio n r)" "plain (Close_projector p n str)" "\<not> plain (Gateway c)" "plain e \<Longrightarrow> off_wire e"
  by (simp_all add: plain_def)

definition is_end :: "relay_message \<Rightarrow> bool" where
  "is_end msg \<longleftrightarrow> (case msg of Relay_end r c \<Rightarrow> True | _ \<Rightarrow> False)"

lemma is_end_simps [simp]:
  "\<not> is_end (Relay_snapshot n i c r w)" "\<not> is_end (Relay_partial n i x k tr)" "\<not> is_end (Relay_commit n i x tr)"
  "\<not> is_end (Relay_retract n i x tr)" "\<not> is_end (Relay_cardEnd n i)" "\<not> is_end (Relay_tts n i l ch f)"
  "\<not> is_end (Relay_render n r)" "\<not> is_end (Relay_credits u)" "\<not> is_end (Relay_notice lv cd d)"
  "\<not> is_end (Relay_ready i v bt)" "is_end (Relay_end why sp)" "\<not> is_end Relay_pong" "is_end (stamp n msg) = is_end msg"
  by (simp_all add: is_end_def) (cases msg; simp)

definition is_snapshot :: "relay_message \<Rightarrow> bool" where
  "is_snapshot msg \<longleftrightarrow> (case msg of Relay_snapshot n i c r w \<Rightarrow> True | _ \<Rightarrow> False)"

lemma is_snapshot_simps [simp]:
  "is_snapshot (Relay_snapshot n i c r w)" "\<not> is_snapshot (Relay_partial n i x k tr)" "\<not> is_snapshot (Relay_commit n i x tr)"
  "\<not> is_snapshot (Relay_retract n i x tr)" "\<not> is_snapshot (Relay_cardEnd n i)" "\<not> is_snapshot (Relay_tts n i l ch f)"
  "\<not> is_snapshot (Relay_render n r)" "\<not> is_snapshot (Relay_credits u)" "\<not> is_snapshot (Relay_notice lv cd d)"
  "\<not> is_snapshot (Relay_ready i v bt)" "\<not> is_snapshot (Relay_end why sp)" "\<not> is_snapshot Relay_pong"
  "is_snapshot (stamp n msg) = is_snapshot msg"
  by (simp_all add: is_snapshot_def) (cases msg; simp)

text \<open>
  An invariant that survives every emission but the end and every plain effect, and that does not look
  at the fields of the captions, the translations and the frame counter, survives what the upstreams send.
\<close>

locale actor_core =
  fixes I :: "actor \<Rightarrow> bool"
  assumes emit_keeps: "I a \<Longrightarrow> \<not> is_end msg \<Longrightarrow> \<not> is_snapshot msg \<Longrightarrow> I (emit msg a)"
    and outp_keeps: "I a \<Longrightarrow> plain e \<Longrightarrow> I (outp e a)"
    and blind: "I (a\<lparr>a_engine := x2\<rparr>) = I a" "I (a\<lparr>a_pending := x4\<rparr>) = I a" "I (a\<lparr>a_running := x5\<rparr>) = I a"
      "I (a\<lparr>a_silenceSignalled := x9\<rparr>) = I a" "I (a\<lparr>a_frameWindowStart := t2\<rparr>) = I a"
      "I (a\<lparr>a_framesInWindow := n1\<rparr>) = I a" "I (a\<lparr>a_noticedAt := x10\<rparr>) = I a"
begin

lemma fold_keeps: "(\<And>x a. x \<in> set xs \<Longrightarrow> I a \<Longrightarrow> I (f x a)) \<Longrightarrow> I a \<Longrightarrow> I (fold f xs a)"
  by (induction xs arbitrary: a) auto

lemma notice_keeps: "I a \<Longrightarrow> I (notice now code level a)"
  by (simp add: notice_def emit_keeps blind)

lemma pump_keeps: "I a \<Longrightarrow> I (pumpTranslations a)"
  by (erule pump_invariant) (intro outp_keeps, simp_all add: blind)

lemma enqueue_lang_keeps: "I a \<Longrightarrow> I (enqueue_lang i s c sp lang a)"
  by (simp add: enqueue_lang_def Let_def blind)

lemma enqueue_keeps: "I a \<Longrightarrow> I (enqueueTranslation i s c sp a)"
  unfolding enqueueTranslation_def by (intro pump_keeps fold_keeps enqueue_lang_keeps)

lemma emitTranslation_keeps: "I a \<Longrightarrow> I (emitTranslation i a)"
  by (auto simp: emitTranslation_def emit_keeps split: option.split)

lemma apply_op_keeps: "I a \<Longrightarrow> I (apply_op env op a)"
  by (cases op) (simp_all add: emit_keeps emitTranslation_keeps enqueue_keeps outp_keeps)

lemma applyOps_keeps: "I a \<Longrightarrow> I (applyOps env ops a)"
  unfolding applyOps_def by (intro fold_keeps apply_op_keeps)

lemma engine_push_keeps: "I a \<Longrightarrow> I (engine_push env ev a)"
  by (auto simp: engine_push_def applyOps_keeps blind split: prod.split)

lemma onSttEvent_keeps: "I a \<Longrightarrow> I (onSttEvent env ev a)"
  by (simp add: onSttEvent_def engine_push_keeps)

lemma onTtsAudio_keeps: "I a \<Longrightarrow> I (onTtsAudio c a)"
  by (simp add: onTtsAudio_def emit_keeps)

lemma onTranslated_keeps: "I a \<Longrightarrow> I (onTranslated env now i result a)"
  by (auto simp: onTranslated_def Let_def blind intro!: pump_keeps applyOps_keeps outp_keeps notice_keeps
      split: option.split prod.split)

lemma meter_event_quiet_keeps: "I a \<Longrightarrow> I (meter_event_quiet now ev a)"
  by (cases ev) (simp_all add: emit_keeps notice_keeps outp_keeps)

lemma acceptFrame_keeps: "I a \<Longrightarrow> I (snd (acceptFrame now a))"
  by (auto simp: acceptFrame_def Let_def blind intro!: notice_keeps)

lemma signalSilence_keeps: "I a \<Longrightarrow> I (signalSilenceIfIdle env now a)"
  by (auto simp: signalSilenceIfIdle_def blind intro!: engine_push_keeps)

end

text \<open>
  One that also survives the end and every effect off the wire, and does not look at the meter and the
  life of the session.
\<close>

locale actor_part = actor_core +
  assumes emit_all: "I a \<Longrightarrow> \<not> is_snapshot msg \<Longrightarrow> I (emit msg a)"
    and outp_all: "I a \<Longrightarrow> off_wire e \<Longrightarrow> I (outp e a)"
    and blind_life: "I (a\<lparr>a_state := x1\<rparr>) = I a" "I (a\<lparr>a_meter := x3\<rparr>) = I a" "I (a\<lparr>a_ticker := x6\<rparr>) = I a"
      "I (a\<lparr>a_tickInFlight := x7\<rparr>) = I a" "I (a\<lparr>a_waits := x8\<rparr>) = I a" "I (a\<lparr>a_lastAudioAt := t1\<rparr>) = I a"
      "I (a\<lparr>a_closing := x11\<rparr>) = I a"
begin

lemma suspend_keeps: "I a \<Longrightarrow> I (suspend call wt a)"
  by (simp add: suspend_def outp_all blind_life)


lemma actor_start_keeps: "I a \<Longrightarrow> I (actor_start a env)"
  by (auto simp: actor_start_def Let_def blind_life intro!: outp_all emit_all)


lemma onAudioFrame_keeps: "I a \<Longrightarrow> I (onAudioFrame now frame a)"
  using acceptFrame_keeps [of a now]
  by (auto simp: onAudioFrame_def blind blind_life intro!: outp_all split: prod.split bool.split)


end

section \<open>The wire invariant\<close>

text \<open>The numbered messages the studio was sent, in order.\<close>

fun numbered :: "actor_effect \<Rightarrow> (nat \<times> relay_message) option" where
  "numbered (To_studio msg) = map_option (\<lambda>n. (n, msg)) (seq_of msg)"
| "numbered e = None"

definition sent :: "actor_effect list \<Rightarrow> (nat \<times> relay_message) list" where
  "sent es = List.map_filter numbered es"

lemma sent_append [simp]: "sent (xs @ ys) = sent xs @ sent ys"
  by (simp add: sent_def map_filter_def)

lemma sent_simps [simp]:
  "sent [] = []"
  "sent (To_studio msg # es) = (case seq_of msg of None \<Rightarrow> sent es | Some n \<Rightarrow> (n, msg) # sent es)"
  "sent (To_projector p msg # es) = sent es"
  by (simp_all add: sent_def map_filter_simps split: option.split)

lemma sent_off_wire: "off_wire e \<Longrightarrow> sent (e # es) = sent es"
  by (cases e) (simp_all add: sent_def map_filter_simps)

lemma sent_fan_out [simp]: "sent (fan_out msg ps) = []"
proof -
  have "sent (map (\<lambda>p. To_projector p msg) qs) = []" for qs
    by (induction qs) simp_all
  then show ?thesis by (simp add: fan_out_def)
qed

text \<open>What a projector may be sent.\<close>

definition may_see :: "projector_role \<Rightarrow> relay_message \<Rightarrow> bool" where
  "may_see role msg \<longleftrightarrow> isProjectorSafe msg \<and> allowedForRole (relay_t msg) role"

definition projector_fine :: "nat \<Rightarrow> actor_effect \<Rightarrow> bool" where
  "projector_fine next e \<longleftrightarrow> (case e of To_projector p msg \<Rightarrow> may_see (pj_role p) msg \<and> pj_id p < next | _ \<Rightarrow> True)"

lemma projector_fine_simps [simp]:
  "projector_fine n (To_studio msg)" "projector_fine n (To_projector p msg) \<longleftrightarrow> may_see (pj_role p) msg \<and> pj_id p < n"
  "off_wire e \<Longrightarrow> projector_fine n e"
  by (auto simp: projector_fine_def off_wire_def split: actor_effect.splits)

text \<open>The numbers are 1, 2, 3, \<dots>; the history is the last 500 numbered messages; the attached
  projectors have distinct ids; and every message to a projector is one its role may see.\<close>

definition wire_ok :: "actor \<Rightarrow> bool" where
  "wire_ok a \<longleftrightarrow>
     map fst (sent (a_out a)) = [1..<Suc (a_seq a)]
     \<and> a_history a = drop (length (sent (a_out a)) - HISTORY_LIMIT) (sent (a_out a))
     \<and> (\<forall>p \<in> set (sent (a_out a)). \<not> is_snapshot (snd p))
     \<and> distinct (map pj_id (a_projectors a)) \<and> (\<forall>p \<in> set (a_projectors a). pj_id p < a_nextProjector a)
     \<and> (\<forall>e \<in> set (a_out a). projector_fine (a_nextProjector a) e)"

lemma shift_drop_snoc:
  "shift_while n (drop (length xs - n) xs @ [x]) = drop (length (xs @ [x]) - n) (xs @ [x])"
proof (cases "length xs < n")
  case True
  then show ?thesis by (simp add: shift_while_drop)
next
  case False
  then have "length (drop (length xs - n) xs @ [x]) - n = 1" by simp
  moreover have "Suc (length xs) - n = Suc (length xs - n)" using False by simp
  ultimately show ?thesis
    using False by (cases n) (simp_all add: shift_while_drop drop_Suc tl_drop)
qed

lemma fan_out_fine:
  "\<forall>p \<in> set ps. pj_id p < n \<Longrightarrow> \<forall>e \<in> set (fan_out msg ps). projector_fine n e"
  by (auto simp: fan_out_def may_see_def)

lemma wire_ok_emit: "wire_ok a \<Longrightarrow> \<not> is_snapshot msg \<Longrightarrow> wire_ok (emit msg a)"
proof (cases "seq_of msg")
  case None
  assume ok: "wire_ok a" and ns: "\<not> is_snapshot msg"
  show ?thesis
    using ok fan_out_fine [of "a_projectors a" "a_nextProjector a" msg] None
    by (auto simp: wire_ok_def emit_eq)
next
  case (Some old)
  assume ok: "wire_ok a" and ns: "\<not> is_snapshot msg"
  let ?m = "stamp (a_seq a + 1) msg"
  have sq: "seq_of ?m = Some (a_seq a + 1)" by (simp add: seq_of_stamp Some)
  have out: "a_out (emit msg a) = a_out a @ To_studio ?m # fan_out ?m (a_projectors a)"
    and rest: "a_seq (emit msg a) = a_seq a + 1" "a_projectors (emit msg a) = a_projectors a"
      "a_nextProjector (emit msg a) = a_nextProjector a"
    and hist: "a_history (emit msg a) = shift_while HISTORY_LIMIT (a_history a @ [(a_seq a + 1, ?m)])"
    by (simp_all add: emit_eq Some Let_def)
  have snt: "sent (a_out (emit msg a)) = sent (a_out a) @ [(a_seq a + 1, ?m)]"
    using sq by (simp add: out)
  have h: "a_history a = drop (length (sent (a_out a)) - HISTORY_LIMIT) (sent (a_out a))"
    using ok by (simp add: wire_ok_def)
  show ?thesis
    unfolding wire_ok_def snt rest hist h shift_drop_snoc
    using ok ns fan_out_fine [of "a_projectors a" "a_nextProjector a" ?m]
    by (auto simp: wire_ok_def out)
qed

lemma wire_ok_outp: "wire_ok a \<Longrightarrow> off_wire e \<Longrightarrow> wire_ok (outp e a)"
  using sent_off_wire [of e "[]"] by (auto simp: wire_ok_def outp_def)

interpretation wire: actor_part wire_ok
  by unfold_locales (auto simp: wire_ok_emit wire_ok_outp, simp_all add: wire_ok_def)

text \<open>The handlers that touch the projectors.\<close>

lemma wire_ok_finish: "wire_ok a \<Longrightarrow> wire_ok (finish_close env why a)"
proof -
  assume ok: "wire_ok a"
  let ?a = "(emit (Relay_end why (spent (m_reservation (a_meter a)))) a)\<lparr>a_state := CLOSED\<rparr>"
  have "wire_ok ?a" using ok by (simp add: wire.emit_all wire.blind_life)
  then have "wire_ok (outp (Close_studio 1000 why) ?a)" by (simp add: wire_ok_outp)
  then have "wire_ok (fold (\<lambda>p. outp (Close_projector p 1000 ''session_ended'')) (a_projectors (outp (Close_studio 1000 why) ?a))
      (outp (Close_studio 1000 why) ?a))"
    by (rule wire.fold_keeps [rotated]) (simp add: wire_ok_outp)
  moreover have "wire_ok (b\<lparr>a_projectors := []\<rparr>)" if "wire_ok b" for b
    using that by (simp add: wire_ok_def)
  ultimately show ?thesis
    by (simp add: finish_close_def Let_def wire_ok_outp)
qed

lemma wire_ok_close_outcome: "wire_ok a \<Longrightarrow> wire_ok (close_outcome env now why out a)"
  by (auto simp: close_outcome_def Let_def wire.blind wire.blind_life
      intro!: wire_ok_finish wire.suspend_keeps wire.fold_keeps wire.meter_event_quiet_keeps
      split: prod.split continuation.split)

lemma wire_ok_close: "wire_ok a \<Longrightarrow> wire_ok (close_session env now why a)"
  by (auto simp: close_session_def performClose_def Let_def wire.blind wire.blind_life intro!: wire_ok_close_outcome wire_ok_outp)

lemma wire_ok_meter_event: "wire_ok a \<Longrightarrow> wire_ok (on_meter_event env now ev a)"
  by (cases ev) (simp_all add: wire_ok_close wire.meter_event_quiet_keeps del: meter_event_quiet.simps)

lemma wire_ok_tick_outcome: "wire_ok a \<Longrightarrow> wire_ok (tick_outcome env now out a)"
  by (auto simp: tick_outcome_def Let_def wire.blind wire.blind_life
      intro!: wire.suspend_keeps wire.fold_keeps wire_ok_meter_event
      split: prod.split continuation.split)

lemma wire_ok_onTick: "wire_ok a \<Longrightarrow> wire_ok (onTick env now a)"
  by (auto simp: onTick_def Let_def wire.blind wire.blind_life intro!: wire_ok_tick_outcome wire.signalSilence_keeps)

lemma wire_ok_onGateway: "wire_ok a \<Longrightarrow> wire_ok (onGateway env now i answer a)"
  by (auto simp: onGateway_def Let_def wire.blind wire.blind_life intro!: wire_ok_tick_outcome wire_ok_close_outcome wire_ok_outp
      split: prod.split meter_wait.split)

lemma wire_ok_applyConfigure: "wire_ok a \<Longrightarrow> wire_ok (applyConfigure now patch a)"
proof -
  assume "wire_ok a"
  moreover have "wire_ok (b\<lparr>a_config := c\<rparr>) = wire_ok b" for b c by (simp add: wire_ok_def)
  ultimately show ?thesis
    by (auto simp: applyConfigure_def Let_def intro!: wire_ok_emit wire.notice_keeps split: option.split)
qed

lemma backfill_attach [simp]:
  "backfillFrom (a\<lparr>a_projectors := ps, a_nextProjector := n\<rparr>) k role = backfillFrom a k role"
  by (cases "a_history a") (auto simp: backfillFrom_def)

lemma buildSnapshot_attach [simp]:
  "buildSnapshot env (a\<lparr>a_projectors := ps, a_nextProjector := n\<rparr>) = buildSnapshot env a"
  by (simp add: buildSnapshot_def)

lemma attach_eq:
  "attachProjector env role lastSeq a =
     (let p = \<lparr>pj_id = a_nextProjector a, pj_role = role\<rparr>;
          msgs = (case (case lastSeq of None \<Rightarrow> None | Some n \<Rightarrow> backfillFrom a n role) of
                    Some backfill \<Rightarrow> backfill | None \<Rightarrow> [buildSnapshot env a])
      in a\<lparr>a_projectors := a_projectors a @ [p], a_nextProjector := a_nextProjector a + 1,
           a_out := a_out a @ map (To_projector p) msgs\<rparr>)"
  by (simp add: attachProjector_def Let_def fold_outp_all outp_def split: option.split)

lemma backfill_may_see: "backfillFrom a n role = Some msgs \<Longrightarrow> \<forall>msg \<in> set msgs. may_see role msg"
  by (auto simp: backfillFrom_def may_see_def isProjectorSafe_def isProjectorSafeType_def split: if_splits list.splits)

lemma snapshot_may_see: "may_see role (buildSnapshot env a)"
  by (cases role) (simp_all add: may_see_def buildSnapshot_def isProjectorSafe_def PROJECTOR_SAFE_EVENTS_def
      allowedForRole_def VOICE_ROLE_EVENTS_def)

lemma sent_to_projector [simp]: "sent (map (To_projector p) msgs) = []"
  by (induction msgs) simp_all

lemma projector_fine_mono: "projector_fine n e \<Longrightarrow> n \<le> m \<Longrightarrow> projector_fine m e"
  by (auto simp: projector_fine_def split: actor_effect.splits)

lemma wire_ok_attach: "wire_ok a \<Longrightarrow> wire_ok (attachProjector env role lastSeq a)"
proof -
  assume ok: "wire_ok a"
  let ?msgs = "case (case lastSeq of None \<Rightarrow> None | Some n \<Rightarrow> backfillFrom a n role) of
      Some backfill \<Rightarrow> backfill | None \<Rightarrow> [buildSnapshot env a]"
  have "\<forall>msg \<in> set ?msgs. may_see role msg"
    using backfill_may_see snapshot_may_see by (auto split: option.splits)
  then show ?thesis
    using ok projector_fine_mono [of "a_nextProjector a" _ "a_nextProjector a + 1"]
    by (fastforce simp: wire_ok_def attach_eq Let_def)
qed

lemma wire_ok_detach: "wire_ok a \<Longrightarrow> wire_ok (detachProjector i a)"
  by (auto simp: wire_ok_def detachProjector_def distinct_map_filter)

lemma wire_ok_step: "wire_ok a \<Longrightarrow> wire_ok (actor_step env inp a)"
proof (cases inp)
  case (In_studio now msg)
  assume "wire_ok a"
  then show ?thesis
    by (cases msg) (simp_all add: In_studio wire_ok_outp wire_ok_applyConfigure wire_ok_close)
next
  case (In_stt_error now e)
  assume "wire_ok a"
  then show ?thesis
    by (auto simp: In_stt_error onSttError_def intro!: wire_ok_close wire_ok_outp wire.notice_keeps split: stt_error.split)
qed (simp_all add: wire.actor_start_keeps wire.onAudioFrame_keeps wire_ok_attach wire_ok_detach wire.onSttEvent_keeps
    wire.onTtsAudio_keeps onTtsError_def wire.notice_keeps wire.onTranslated_keeps wire_ok_onTick wire_ok_onGateway wire_ok_close)

lemma wire_ok_new: "wire_ok (new_actor env cfg m now)"
  by (simp add: wire_ok_def new_actor_def)

lemma wire_ok_reach: "actor_reach env cfg m now a \<Longrightarrow> wire_ok a"
  by (induction rule: actor_reach.induct) (simp_all add: wire_ok_new wire_ok_step)

section \<open>Properties\<close>

text \<open>
  C1: What goes on air. Whatever happens to a session, a projector is only ever sent messages of
  the allowlist of the contracts, and only those its role may see: never credits, a notice, the
  handshake answer or the end of the session, no caption operations to the voice source and no voice to the caption source.
  The snapshot, which holds the cards with their text, goes to either role.
\<close>

theorem projector_sees_only_safe:
  assumes "actor_reach env cfg m now a" and "To_projector p msg \<in> set (a_out a)"
  shows "isProjectorSafe msg
     \<and> (case msg of Relay_credits u \<Rightarrow> False | Relay_notice l c d \<Rightarrow> False | Relay_ready i v b \<Rightarrow> False
          | Relay_end r c \<Rightarrow> False
          | Relay_tts n i l c f \<Rightarrow> pj_role p = Role_voice
          | Relay_snapshot n i c r w \<Rightarrow> True | Relay_render n r \<Rightarrow> True | Relay_pong \<Rightarrow> True
          | _ \<Rightarrow> pj_role p = Role_captions)"
proof -
  have "projector_fine (a_nextProjector a) (To_projector p msg)"
    using wire_ok_reach [OF assms(1)] assms(2) unfolding wire_ok_def by blast
  then have "isProjectorSafe msg" "allowedForRole (relay_t msg) (pj_role p)"
    by (simp_all add: may_see_def)
  then show ?thesis
    by (cases msg; cases "pj_role p") (simp_all add: isProjectorSafe_iff allowedForRole_def VOICE_ROLE_EVENTS_def)
qed

definition demo_env :: actor_env where
  "demo_env = \<lparr>env_sessionId = ''s'', env_watermark = True, env_tts = False, env_unicode = latin_tables,
     env_ids = default_ids, env_engine = DEFAULT_ENGINE_CONFIG\<rparr>"

definition demo_meter :: meter where
  "demo_meter = new_meter \<lparr>mo_burn = \<lparr>targetLanguages = 0, burn_voiceEnabled = False\<rparr>, mo_reserved = 1, mo_balanceRemaining = 9\<rparr> 0"

text \<open>A session that has started, seen one caption source and one word.\<close>

definition demo_actor :: actor where
  "demo_actor = actor_step demo_env (In_stt 100 (Partial (js ''hi'') 100))
     (actor_step demo_env (In_attach Role_captions None)
       (actor_step demo_env In_start (new_actor demo_env default_SessionConfig demo_meter 0)))"

lemma demo_actor_reach: "actor_reach demo_env default_SessionConfig demo_meter 0 demo_actor"
  unfolding demo_actor_def by (intro actor_reach.intros) simp_all

theorem projector_sees_only_safe_witness:
  "isProjectorSafe (buildSnapshot demo_env (actor_step demo_env In_start (new_actor demo_env default_SessionConfig demo_meter 0)))"
proof -
  let ?a = "actor_step demo_env In_start (new_actor demo_env default_SessionConfig demo_meter 0)"
  let ?b = "actor_step demo_env (In_attach Role_captions None) ?a"
  have "actor_reach demo_env default_SessionConfig demo_meter 0 ?b"
    by (intro actor_reach.intros) simp_all
  moreover have "To_projector \<lparr>pj_id = a_nextProjector ?a, pj_role = Role_captions\<rparr> (buildSnapshot demo_env ?a) \<in> set (a_out ?b)"
    by (simp add: attach_eq Let_def del: actor_step.simps(1))
  ultimately show ?thesis using projector_sees_only_safe by blast
qed

text \<open>Where the history starts.\<close>

lemma numbered_from:
  assumes "map fst S = [1..<Suc q]"
  shows "length S = q" and "i < q \<Longrightarrow> fst (S ! i) = i + 1"
proof -
  have "length (map fst S) = q" by (simp only: assms) simp
  then show len: "length S = q" by simp
  assume "i < q"
  then have "map fst S ! i = [1..<Suc q] ! i" by (simp only: assms)
  then show "fst (S ! i) = i + 1" using \<open>i < q\<close> len by (simp del: upt_Suc)
qed

lemma replay_window:
  assumes "map fst S = [1..<Suc q]" and "q - 500 \<le> n"
  shows "filter (\<lambda>(k, m). n < k \<and> P m) (drop (q - 500) S) = filter (\<lambda>(k, m). n < k \<and> P m) S"
proof -
  have "filter (\<lambda>(k, m). n < k \<and> P m) (take (q - 500) S) = []"
  proof (rule filter_False, rule ballI)
    fix x
    assume "x \<in> set (take (q - 500) S)"
    then obtain i where "i < q - 500" "x = S ! i" using numbered_from(1) [OF assms(1)] by (auto simp: in_set_conv_nth)
    then show "\<not> (case x of (k, m) \<Rightarrow> n < k \<and> P m)"
      using numbered_from(2) [OF assms(1), of i] assms(2) by (simp add: case_prod_beta)
  qed
  then show ?thesis
    using append_take_drop_id [of "q - 500" S] filter_append [of "\<lambda>(k, m). n < k \<and> P m" "take (q - 500) S" "drop (q - 500) S"]
    by simp
qed

text \<open>The numbers sent so far, and what a projector is sent when it attaches.\<close>

lemma attach_sends:
  assumes "actor_reach env cfg m now a"
  shows "map fst (sent (a_out a)) = [1..<Suc (a_seq a)]
     \<and> a_out (attachProjector env role lastSeq a) = a_out a @
         map (To_projector \<lparr>pj_id = a_nextProjector a, pj_role = role\<rparr>)
           (case lastSeq of
              None \<Rightarrow> [buildSnapshot env a]
            | Some n \<Rightarrow>
                if n \<le> a_seq a \<and> 0 < a_seq a \<and> a_seq a \<le> n + 500
                then map snd (filter (\<lambda>(k, msg). n < k \<and> may_see role msg) (sent (a_out a)))
                else [buildSnapshot env a])"
proof -
  let ?S = "sent (a_out a)" and ?q = "a_seq a"
  have S: "map fst ?S = [1..<Suc ?q]" and H: "a_history a = drop (length ?S - HISTORY_LIMIT) ?S"
    using wire_ok_reach [OF assms] unfolding wire_ok_def by blast+
  note len = numbered_from(1) [OF S]
  have H': "a_history a = drop (?q - 500) ?S" using H by (simp add: len HISTORY_LIMIT_def)
  have bf: "backfillFrom a n role =
      (if n \<le> ?q \<and> 0 < ?q \<and> ?q \<le> n + 500 then Some (map snd (filter (\<lambda>(k, msg). n < k \<and> may_see role msg) ?S)) else None)" for n
  proof (cases "a_history a")
    case Nil
    then have "?q = 0" using H' len by simp
    then show ?thesis using Nil by (simp add: backfillFrom_def)
  next
    case (Cons x rest)
    have posn: "?q - 500 < ?q" using Cons H' len by (metis drop_all linorder_not_less list.distinct(1))
    then have "x = ?S ! (?q - 500)" using Cons H' len by (metis hd_drop_conv_nth list.sel(1))
    then have old: "fst x = ?q - 500 + 1" using numbered_from(2) [OF S posn] by simp
    have "filter (\<lambda>(k, msg). n < k \<and> isProjectorSafeType (relay_t msg) \<and> allowedForRole (relay_t msg) role) (a_history a)
        = filter (\<lambda>(k, msg). n < k \<and> may_see role msg) ?S" if "?q - 500 \<le> n"
      using replay_window [OF S that, of "may_see role"]
      by (simp add: H' may_see_def isProjectorSafe_def isProjectorSafeType_def)
    moreover have "fst x > n + 1 \<longleftrightarrow> \<not> ?q \<le> n + 500" unfolding old by linarith
    ultimately show ?thesis
      using posn Cons by (cases x) (auto simp: backfillFrom_def)
  qed
  show ?thesis
    using S by (simp add: attach_eq Let_def bf split: option.split)
qed

text \<open>
  C17: A projector that reattaches misses nothing. In every reachable state the messages sent so far carry the
  numbers 1 to \<open>seq\<close> without gap, and a projector that attaches and says it has seen everything up
  to \<open>n\<close> is sent exactly the later messages its role may see, in order, as long as at most 500
  came since; in every other case it gets one snapshot, numbered with the current \<open>seq\<close>.
\<close>

theorem reattach_without_gap:
  assumes "actor_reach env cfg m now a"
  shows "map fst (sent (a_out a)) = [1..<Suc (a_seq a)]
     \<and> a_out (attachProjector env role lastSeq a) = a_out a @
         map (To_projector \<lparr>pj_id = a_nextProjector a, pj_role = role\<rparr>)
           (case lastSeq of
              None \<Rightarrow> [buildSnapshot env a]
            | Some n \<Rightarrow>
                if n \<le> a_seq a \<and> 0 < a_seq a \<and> a_seq a \<le> n + 500
                then map snd (filter (\<lambda>(k, msg). n < k \<and> may_see role msg) (sent (a_out a)))
                else [buildSnapshot env a])"
  by (rule attach_sends [OF assms])

theorem reattach_without_gap_witness:
  "a_out (attachProjector demo_env Role_captions (Some (a_seq demo_actor)) demo_actor) = a_out demo_actor @
     map (To_projector \<lparr>pj_id = a_nextProjector demo_actor, pj_role = Role_captions\<rparr>)
       (if 0 < a_seq demo_actor
        then map snd (filter (\<lambda>(k, msg). a_seq demo_actor < k \<and> may_see Role_captions msg) (sent (a_out demo_actor)))
        else [buildSnapshot demo_env demo_actor])"
  using reattach_without_gap [OF demo_actor_reach, of Role_captions "Some (a_seq demo_actor)"] by simp

end
