(* ===== verification/Session_Lifecycle.thy ===== *)
theory Session_Lifecycle
  imports Session_Wire
begin

text \<open>
  The life of a session: its states only move forward, it is ended exactly once, and a closing session
  does close. The order of the states is an instance of the library's \<open>linorder\<close>.
\<close>

section \<open>The order of the states\<close>

fun stage :: "session_state \<Rightarrow> nat" where
  "stage INIT = 0"
| "stage RUNNING = 1"
| "stage DRAINING = 2"
| "stage CLOSED = 3"

lemma stage_inject: "stage s = stage t \<longleftrightarrow> s = t"
  by (cases s; cases t) simp_all

instantiation session_state :: linorder
begin

definition less_eq_session_state :: "session_state \<Rightarrow> session_state \<Rightarrow> bool" where
  "less_eq_session_state s t \<longleftrightarrow> stage s \<le> stage t"

definition less_session_state :: "session_state \<Rightarrow> session_state \<Rightarrow> bool" where
  "less_session_state s t \<longleftrightarrow> stage s < stage t"

instance
  by standard (auto simp: less_eq_session_state_def less_session_state_def stage_inject)

end

lemmas state_order = less_eq_session_state_def less_session_state_def

lemma state_cmp [simp]:
  "INIT \<le> s" "s \<le> CLOSED" "RUNNING \<le> DRAINING" "\<not> RUNNING \<le> INIT" "\<not> DRAINING \<le> INIT" "\<not> DRAINING \<le> RUNNING"
  "\<not> CLOSED \<le> INIT" "\<not> CLOSED \<le> RUNNING" "\<not> CLOSED \<le> DRAINING"
  by (cases s; simp add: state_order)+

section \<open>The life of a session\<close>

fun is_closing :: "meter_wait \<Rightarrow> bool" where
  "is_closing Close_flush = True"
| "is_closing Close_release = True"
| "is_closing wt = False"

definition closing_waits :: "(gateway_call \<times> meter_wait) list \<Rightarrow> nat" where
  "closing_waits ws = length (filter (\<lambda>w. is_closing (snd w)) ws)"

lemma closing_waits_simps [simp]:
  "closing_waits [] = 0" "closing_waits (w # ws) = (if is_closing (snd w) then 1 else 0) + closing_waits ws"
  "closing_waits (us @ ws) = closing_waits us + closing_waits ws"
  by (simp_all add: closing_waits_def)

definition ends :: "actor_effect list \<Rightarrow> nat" where
  "ends es = length (filter (\<lambda>e. case e of To_studio msg \<Rightarrow> is_end msg | _ \<Rightarrow> False) es)"

lemma ends_simps [simp]:
  "ends [] = 0" "ends (es @ fs) = ends es + ends fs" "ends (To_studio msg # es) = (if is_end msg then 1 else 0) + ends es"
  "ends (To_projector p msg # es) = ends es" "off_wire e \<Longrightarrow> ends (e # es) = ends es"
  by (auto simp: ends_def off_wire_def split: actor_effect.splits)

lemma ends_fan_out [simp]: "ends (fan_out msg ps) = 0"
  by (simp add: fan_out_def ends_def filter_map o_def)

text \<open>What the front door was told: the ids with which \<open>onClosed\<close> was called.\<close>

definition goodbyes :: "actor_effect list \<Rightarrow> string list" where
  "goodbyes es = List.map_filter (\<lambda>e. case e of On_closed i \<Rightarrow> Some i | _ \<Rightarrow> None) es"

lemma goodbyes_simps [simp]:
  "goodbyes [] = []" "goodbyes (es @ fs) = goodbyes es @ goodbyes fs" "goodbyes (To_studio msg # es) = goodbyes es"
  "goodbyes (To_projector p msg # es) = goodbyes es" "goodbyes (On_closed i # es) = i # goodbyes es"
  "plain e \<Longrightarrow> goodbyes (e # es) = goodbyes es" "goodbyes (Gateway c # es) = goodbyes es"
  by (auto simp: goodbyes_def List.map_filter_def plain_def off_wire_def split: actor_effect.splits)

lemma goodbyes_fan_out [simp]: "goodbyes (fan_out msg ps) = []"
  by (simp add: fan_out_def goodbyes_def List.map_filter_def filter_map o_def)

text \<open>What an emission of anything but the end does not change.\<close>

definition life :: "actor \<Rightarrow> session_state \<times> end_reason option \<times> bool \<times> (gateway_call \<times> meter_wait) list \<times> nat \<times> string list" where
  "life a = (a_state a, a_closing a, a_ticker a, a_waits a, ends (a_out a), goodbyes (a_out a))"

lemma life_emit: "life (emit msg a) = (a_state a, a_closing a, a_ticker a, a_waits a, ends (a_out a) + (if is_end msg then 1 else 0), goodbyes (a_out a))"
  by (simp add: life_def emit_eq Let_def split: option.split)

interpretation life: actor_core "\<lambda>a. life a = v" for v
  by unfold_locales (simp_all add: life_emit, simp_all add: life_def outp_def)

text \<open>Core handlers leave the life of the session as it is.\<close>

lemma life_core [simp]:
  "life (notice now code level a) = life a" "life (engine_push env ev a) = life a" "life (onSttEvent env ev a) = life a"
  "life (onTtsAudio c a) = life a" "life (onTranslated env now i result a) = life a"
  "life (meter_event_quiet now mev a) = life a" "life (signalSilenceIfIdle env now a) = life a"
  "life (snd (acceptFrame now a)) = life a" "plain e \<Longrightarrow> life (outp e a) = life a"
  by (rule life.notice_keeps [OF refl] life.engine_push_keeps [OF refl] life.onSttEvent_keeps [OF refl]
    life.onTtsAudio_keeps [OF refl] life.onTranslated_keeps [OF refl] life.meter_event_quiet_keeps [OF refl]
    life.signalSilence_keeps [OF refl] life.acceptFrame_keeps [OF refl] life.outp_keeps [OF refl] | assumption)+

lemma life_quiet_fold [simp]: "life (fold (meter_event_quiet now) ev a) = life a"
  by (rule life.fold_keeps) (simp_all add: life.meter_event_quiet_keeps)

lemma life_updates [simp]:
  "life (a\<lparr>a_meter := m\<rparr>) = life a" "life (a\<lparr>a_tickInFlight := x\<rparr>) = life a" "life (a\<lparr>a_lastAudioAt := t\<rparr>) = life a"
  "life (a\<lparr>a_silenceSignalled := y\<rparr>) = life a" "life (a\<lparr>a_pending := z\<rparr>) = life a" "life (a\<lparr>a_config := c\<rparr>) = life a"
  "life (a\<lparr>a_projectors := ps\<rparr>) = life a"
  by (simp_all add: life_def)

definition life_ok :: "actor_env \<Rightarrow> actor \<Rightarrow> bool" where
  "life_ok env a \<longleftrightarrow>
     (a_closing a = None \<longleftrightarrow> a_state a \<le> RUNNING) \<and> (a_ticker a \<longleftrightarrow> a_state a = RUNNING)
     \<and> closing_waits (a_waits a) = (if a_state a = DRAINING then 1 else 0)
     \<and> ends (a_out a) = (if a_state a = CLOSED then 1 else 0)
     \<and> goodbyes (a_out a) = (if a_state a = CLOSED then [env_sessionId env] else [])"

lemma life_ok_same: "life a' = life a \<Longrightarrow> life_ok env a' = life_ok env a"
  by (simp add: life_ok_def life_def)

lemma state_same: "life a' = life a \<Longrightarrow> a_state a' = a_state a"
  by (simp add: life_def)

section \<open>What the meter waits for\<close>

lemma close_start_kind: "close_start m now = (ev, m', k) \<Longrightarrow> \<forall>w \<in> set (waits_of k). is_closing (snd w)"
  by (auto simp: close_start_def close_release_def Let_def split: if_splits prod.splits option.splits)

lemma tick_flush_kind: "tick_flush m now = (ev, m', k) \<Longrightarrow> \<forall>w \<in> set (waits_of k). \<not> is_closing (snd w)"
  by (auto simp: tick_flush_def tick_end_def split: if_splits prod.splits option.splits)

lemma tick_start_kind: "tick_start m now = (ev, m', k) \<Longrightarrow> \<forall>w \<in> set (waits_of k). \<not> is_closing (snd w)"
  by (auto simp: tick_start_def Let_def split: if_splits prod.splits option.splits dest!: tick_flush_kind)

lemma resume_kind:
  assumes "resume m wt a = (ev, m', k)"
  shows "\<forall>w \<in> set (waits_of k). is_closing (snd w) = is_closing wt"
proof (cases wt)
  case (Tick_reserve now)
  then show ?thesis using assms by (cases a) (auto split: prod.splits dest!: tick_flush_kind)
next
  case (Tick_flush now)
  then show ?thesis using assms by (auto simp: tick_end_def split: prod.splits)
next
  case Close_flush
  then show ?thesis using assms by (auto simp: close_release_def Let_def split: prod.splits if_splits)
qed (use assms in auto)

text \<open>A tick ends the session only as its very last act.\<close>

lemma quiet_parts:
  "enterGrace m now = (ev, m') \<Longrightarrow> On_exhausted \<notin> set ev"
  "charge m ms now = (ev, m') \<Longrightarrow> On_exhausted \<notin> set ev"
  "topUp_result m now r = (ev, m') \<Longrightarrow> On_exhausted \<notin> set ev"
  "emitCredits m = (ev, m') \<Longrightarrow> On_exhausted \<notin> set ev"
  by (auto simp: enterGrace_def charge_def topUp_result_def emitCredits_def Let_def split: if_splits)

definition exhausted_last :: "meter_event list \<Rightarrow> continuation \<Rightarrow> bool" where
  "exhausted_last ev k \<longleftrightarrow>
     On_exhausted \<notin> set ev \<or> (\<exists>ev'. ev = ev' @ [On_exhausted] \<and> On_exhausted \<notin> set ev' \<and> k = Finished)"

lemma exhausted_last_append: "On_exhausted \<notin> set ev \<Longrightarrow> exhausted_last ev' k \<Longrightarrow> exhausted_last (ev @ ev') k"
  by (auto simp: exhausted_last_def)

lemma tick_end_last: "tick_end m now = (ev, m', k) \<Longrightarrow> exhausted_last ev k"
  by (auto simp: tick_end_def checkGrace_def exhausted_last_def split: prod.splits if_splits option.splits dest!: quiet_parts)

lemma tick_flush_last: "tick_flush m now = (ev, m', k) \<Longrightarrow> exhausted_last ev k"
  by (auto simp: tick_flush_def split: if_splits prod.splits option.splits dest!: tick_end_last) (simp add: exhausted_last_def)

lemma tick_start_last:
  assumes "tick_start m now = (ev, m', k)"
  shows "exhausted_last ev k"
proof (cases "m_closed m")
  case True
  then show ?thesis using assms by (simp add: tick_start_def exhausted_last_def)
next
  case False
  let ?m = "m\<lparr>m_lastTickAt := now\<rparr>" and ?ms = "max 0 (now - m_lastTickAt m)"
  obtain ev1 m1 where ch: "(if \<not> idle_at ?m now \<and> ?ms > 0 then charge ?m ?ms now else ([], ?m)) = (ev1, m1)" by fastforce
  then have q: "On_exhausted \<notin> set ev1" using quiet_parts(2) by (auto split: if_splits)
  show ?thesis
  proof (cases "topUp_want m1")
    case (Some want)
    then have "ev = ev1" using assms False ch by (auto simp: tick_start_def Let_def)
    then show ?thesis using q by (simp add: exhausted_last_def)
  next
    case None
    then obtain ev2 where "tick_flush m1 now = (ev2, m', k)" "ev = ev1 @ ev2"
      using assms False ch by (auto simp: tick_start_def Let_def split: prod.splits)
    then show ?thesis using exhausted_last_append [OF q] tick_flush_last by blast
  qed
qed

lemma flush_events_quiet: "On_exhausted \<notin> set (flush_events a)"
  by (simp add: flush_events_def)

lemma resume_last: "resume m wt a = (ev, m', k) \<Longrightarrow> exhausted_last ev k"
proof (cases wt)
  case (Tick_reserve now)
  assume r: "resume m wt a = (ev, m', k)"
  show ?thesis
  proof (cases a)
    case (Reserved res)
    obtain ev1 m1 where t: "topUp_result m now res = (ev1, m1)" by fastforce
    then obtain ev2 where "tick_flush m1 now = (ev2, m', k)" "ev = ev1 @ ev2"
      using r Tick_reserve Reserved by (auto split: prod.splits)
    then show ?thesis using exhausted_last_append [OF quiet_parts(3) [OF t]] tick_flush_last by blast
  qed (use r Tick_reserve in \<open>auto simp: exhausted_last_def\<close>)
next
  case (Tick_flush now)
  assume r: "resume m wt a = (ev, m', k)"
  then obtain ev1 where "tick_end m now = (ev1, m', k)" "ev = flush_events a @ ev1"
    using Tick_flush by (auto split: prod.splits)
  then show ?thesis using exhausted_last_append [OF flush_events_quiet] tick_end_last by blast
next
  case Close_flush
  assume "resume m wt a = (ev, m', k)"
  then show ?thesis using Close_flush
    by (auto simp: close_release_def Let_def flush_events_def exhausted_last_def split: prod.splits if_splits)
next
  case Close_release
  assume "resume m wt a = (ev, m', k)"
  then show ?thesis using Close_release by (simp add: exhausted_last_def)
qed

section \<open>Closing\<close>

text \<open>A session keeps its life and moves only forward.\<close>

definition onward :: "actor_env \<Rightarrow> actor \<Rightarrow> actor \<Rightarrow> bool" where
  "onward env a a' \<longleftrightarrow> life_ok env a' \<and> a_state a \<le> a_state a'"

lemma onward_same: "life_ok env a \<Longrightarrow> life a' = life a \<Longrightarrow> onward env a a'"
  using life_ok_same [of a' a] state_same [of a' a] by (simp add: onward_def)

lemma onward_trans: "onward env a a' \<Longrightarrow> onward env a' a'' \<Longrightarrow> onward env a a''"
  unfolding onward_def using order_trans by blast

lemma no_end_in_closes [simp]:
  "ends (map (\<lambda>p. Close_projector p n why) ps) = 0" "goodbyes (map (\<lambda>p. Close_projector p n why) ps) = []"
  by (simp_all add: ends_def goodbyes_def List.map_filter_def filter_map o_def)

lemma life_finish:
  "life (finish_close env why a) = (CLOSED, a_closing a, a_ticker a, a_waits a, ends (a_out a) + 1, goodbyes (a_out a) @ [env_sessionId env])"
  by (simp add: finish_close_def Let_def fold_outp_all life_def outp_def emit_eq)

lemma life_suspend: "life (suspend c wt a) = (a_state a, a_closing a, a_ticker a, a_waits a @ [(c, wt)], ends (a_out a), goodbyes (a_out a))"
  by (simp add: suspend_def life_def outp_def)

text \<open>On its way to be closed: nothing of the meter's close is pending yet.\<close>

definition ready_to_close :: "actor \<Rightarrow> bool" where
  "ready_to_close a \<longleftrightarrow> a_state a = DRAINING \<and> a_closing a \<noteq> None \<and> \<not> a_ticker a
     \<and> closing_waits (a_waits a) = 0 \<and> ends (a_out a) = 0 \<and> goodbyes (a_out a) = []"

lemma ready_same: "life a' = life a \<Longrightarrow> ready_to_close a' = ready_to_close a"
  unfolding ready_to_close_def life_def by (simp only: prod.inject)

lemma close_outcome_onward:
  assumes "ready_to_close a" and "\<forall>w \<in> set (waits_of k). is_closing (snd w)"
  shows "life_ok env (close_outcome env now why (ev, m, k) a) \<and> DRAINING \<le> a_state (close_outcome env now why (ev, m, k) a)"
proof -
  let ?a = "fold (meter_event_quiet now) ev (a\<lparr>a_meter := m\<rparr>)"
  have r: "ready_to_close ?a" using assms(1) ready_same [of ?a a] by simp
  show ?thesis
  proof (cases k)
    case Finished
    have eq: "close_outcome env now why (ev, m, k) a = finish_close env why ?a"
      by (simp add: close_outcome_def Let_def Finished)
    show ?thesis unfolding eq
      using life_finish [of env why ?a] r
      by (simp add: life_ok_def life_def ready_to_close_def state_order)
  next
    case (Await c wt)
    have eq: "close_outcome env now why (ev, m, k) a = suspend c wt ?a"
      by (simp add: close_outcome_def Let_def Await)
    show ?thesis unfolding eq
      using life_suspend [of c wt ?a] r assms(2)
      by (simp add: Await life_ok_def life_def ready_to_close_def state_order)
  qed
qed

lemma close_session_onward:
  assumes "life_ok env a"
  shows "onward env a (close_session env now why a)"
proof (cases "a_state a = CLOSED \<or> a_closing a \<noteq> None")
  case True
  then show ?thesis using onward_same [OF assms refl] by (auto simp: close_session_def)
next
  case False
  let ?b = "a\<lparr>a_state := DRAINING, a_closing := Some why\<rparr>"
  define d where "d = (let b = (if a_ticker ?b then outp Clear_ticker ?b else ?b);
                 b = outp Stt_close (b\<lparr>a_ticker := False\<rparr>);
                 b = (if env_tts env then outp Tts_close b else b)
             in b\<lparr>a_pending := []\<rparr>)"
  have lc: "life d = (DRAINING, Some why, False, a_waits a, ends (a_out a), goodbyes (a_out a))"
    by (simp add: d_def Let_def) (simp add: life_def outp_def)
  have "closing_waits (a_waits a) = 0" "ends (a_out a) = 0" "goodbyes (a_out a) = []"
    using assms False by (cases "a_state a"; simp add: life_ok_def)+
  then have r: "ready_to_close d" using lc by (simp add: ready_to_close_def life_def)
  obtain ev m k where c: "close_start (a_meter d) now = (ev, m, k)" by (metis prod_cases3)
  have eq: "close_session env now why a = close_outcome env now why (ev, m, k) d"
    using False c by (simp add: close_session_def performClose_def d_def Let_def)
  have le: "a_state a \<le> DRAINING" using False by (cases "a_state a") (simp_all add: state_order)
  show ?thesis
    using close_outcome_onward [OF r close_start_kind [OF c], of env now why ev m] le
    unfolding eq onward_def by (auto intro: order_trans)
qed

section \<open>Ticks and answers\<close>

lemma meter_event_onward: "life_ok env a \<Longrightarrow> onward env a (on_meter_event env now ev a)"
  by (cases ev) (simp_all add: close_session_onward onward_same del: meter_event_quiet.simps)

lemma events_onward: "life_ok env a \<Longrightarrow> onward env a (fold (on_meter_event env now) evs a)"
proof (induction evs arbitrary: a)
  case Nil
  then show ?case by (simp add: onward_same)
next
  case (Cons ev evs)
  have o: "onward env a (on_meter_event env now ev a)" by (rule meter_event_onward [OF Cons.prems])
  then have "life_ok env (on_meter_event env now ev a)" by (simp add: onward_def)
  then show ?case using Cons.IH o onward_trans by simp
qed

lemma tick_outcome_onward:
  assumes "life_ok env a" and "\<forall>w \<in> set (waits_of k). \<not> is_closing (snd w)"
  shows "onward env a (tick_outcome env now (ev, m, k) a)"
proof -
  let ?a = "fold (on_meter_event env now) ev (a\<lparr>a_meter := m\<rparr>)"
  have ok: "life_ok env (a\<lparr>a_meter := m\<rparr>)" using assms(1) life_ok_same [of "a\<lparr>a_meter := m\<rparr>" a] by simp
  have o: "onward env a ?a" using events_onward [OF ok] by (simp add: onward_def)
  show ?thesis
  proof (cases k)
    case Finished
    have "onward env ?a (?a\<lparr>a_tickInFlight := False\<rparr>)" using o by (intro onward_same) (simp_all add: onward_def)
    then show ?thesis using o onward_trans by (auto simp: tick_outcome_def Let_def Finished)
  next
    case (Await c wt)
    have "onward env ?a (suspend c wt ?a)"
      using o assms(2) life_suspend [of c wt ?a] by (simp add: Await onward_def life_ok_def life_def)
    then show ?thesis using o onward_trans by (auto simp: tick_outcome_def Let_def Await)
  qed
qed

lemma remove_wait:
  assumes "i < length ws"
  shows "closing_waits ws = closing_waits (take i ws @ drop (i + 1) ws) + (if is_closing (snd (ws ! i)) then 1 else 0)"
proof -
  have "ws = take i ws @ ws ! i # drop (i + 1) ws" using assms by (simp add: id_take_nth_drop)
  then have "closing_waits ws = closing_waits (take i ws @ ws ! i # drop (i + 1) ws)" by simp
  then show ?thesis by simp
qed

lemma onTick_onward: "life_ok env a \<Longrightarrow> onward env a (onTick env now a)"
proof (cases "a_tickInFlight a \<or> a_state a \<noteq> RUNNING")
  case True
  assume "life_ok env a"
  then show ?thesis using True onward_same by (auto simp: onTick_def)
next
  case False
  assume ok: "life_ok env a"
  let ?a = "signalSilenceIfIdle env now (a\<lparr>a_tickInFlight := True\<rparr>)"
  obtain ev m k where t: "tick_start (a_meter ?a) now = (ev, m, k)" by (metis prod_cases3)
  have o: "onward env a ?a" by (rule onward_same [OF ok]) simp
  then have "onward env ?a (tick_outcome env now (ev, m, k) ?a)"
    using tick_start_kind [OF t] by (intro tick_outcome_onward) (simp_all add: onward_def)
  then show ?thesis using o onward_trans False t by (auto simp: onTick_def Let_def)
qed

lemma onGateway_onward:
  assumes "life_ok env a"
  shows "onward env a (onGateway env now i answer a)"
proof (cases "i < length (a_waits a)")
  case False
  then show ?thesis using onward_same [OF assms refl] by (simp add: onGateway_def)
next
  case True
  obtain c wt where w: "a_waits a ! i = (c, wt)" by fastforce
  let ?b = "a\<lparr>a_waits := take i (a_waits a) @ drop (i + 1) (a_waits a)\<rparr>"
  obtain ev m k where r: "resume (a_meter ?b) wt answer = (ev, m, k)" by (metis prod_cases3)
  have kind: "\<forall>w \<in> set (waits_of k). is_closing (snd w) = is_closing wt" by (rule resume_kind [OF r])
  have cw: "closing_waits (a_waits a) = closing_waits (a_waits ?b) + (if is_closing wt then 1 else 0)"
    using remove_wait [OF True] w by simp
  show ?thesis
  proof (cases "is_closing wt")
    case False
    then have okb: "life_ok env ?b" using assms cw by (simp add: life_ok_def)
    let ?c = "if answer = Rejected \<and> (\<exists>t. wt = Tick_reserve t) then outp (Log ''meter tick failed'') ?b else ?b"
    have "life_ok env ?c" using okb life_ok_same [of ?c ?b] by simp
    then have "onward env ?c (tick_outcome env now (ev, m, k) ?c)"
      using kind False by (intro tick_outcome_onward) auto
    moreover have "a_state ?c = a_state a" by (simp add: outp_def)
    moreover have "onGateway env now i answer a = tick_outcome env now (ev, m, k) ?c"
      using True w r False by (cases wt) (auto simp: onGateway_def Let_def)
    ultimately show ?thesis by (simp add: onward_def)
  next
    case closing: True
    have st: "a_state a = DRAINING" and cb: "closing_waits (a_waits ?b) = 0"
      using assms cw closing by (auto simp: life_ok_def split: if_splits)
    have rb: "ready_to_close ?b"
      using assms st cb by (simp add: ready_to_close_def life_ok_def state_order)
    let ?c = "if answer = Rejected \<and> wt = Close_release then outp (Log ''final ledger settlement failed'') ?b else ?b"
    have "ready_to_close ?c" using rb ready_same [of ?c ?b] by simp
    then have "life_ok env (close_outcome env now (the (a_closing a)) (ev, m, k) ?c)
        \<and> DRAINING \<le> a_state (close_outcome env now (the (a_closing a)) (ev, m, k) ?c)"
      using kind closing by (intro close_outcome_onward) auto
    moreover have "onGateway env now i answer a = close_outcome env now (the (a_closing a)) (ev, m, k) ?c"
      using True w r closing by (cases wt) (auto simp: onGateway_def Let_def)
    ultimately show ?thesis by (simp add: onward_def st)
  qed
qed

section \<open>Every step\<close>

lemma life_emit_other [simp]: "\<not> is_end msg \<Longrightarrow> life (emit msg a) = life a"
  by (simp add: life_emit) (simp add: life_def)

lemma life_audio: "life (onAudioFrame now frame a) = life a"
proof -
  obtain b x where x: "acceptFrame now a = (b, x)" by fastforce
  have "life (snd (acceptFrame now a)) = life a" by (rule life_core)
  then have "life x = life a" by (simp add: x)
  then show ?thesis by (cases b) (simp_all add: onAudioFrame_def x)
qed

lemma life_configure: "life (applyConfigure now patch a) = life a"
  by (simp add: applyConfigure_def Let_def split: option.split)

lemma life_attach: "life (attachProjector env role lastSeq a) = life a"
  by (simp add: attach_eq Let_def life_def) (simp add: ends_def goodbyes_def List.map_filter_def filter_map o_def)

lemma start_onward:
  assumes "life_ok env a"
  shows "onward env a (actor_start a env)"
proof (cases "a_state a = INIT")
  case False
  then show ?thesis using onward_same [OF assms refl] by (simp add: actor_start_def)
next
  case True
  have l: "life (actor_start a env) = (RUNNING, a_closing a, True, a_waits a, ends (a_out a), goodbyes (a_out a))"
    using True by (simp add: actor_start_def Let_def) (simp add: life_def outp_def emit_eq)
  show ?thesis
    using assms l True by (simp add: onward_def life_ok_def life_def)
qed

lemma step_onward:
  assumes "life_ok env a"
  shows "onward env a (actor_step env inp a)"
proof (cases inp)
  case (In_studio now msg)
  then show ?thesis
    using assms close_session_onward onward_same life_configure by (cases msg) simp_all
next
  case (In_stt_error now e)
  have "life_ok env (outp (Log ''stt upstream exhausted retries'') a)"
    using assms life_ok_same [of "outp (Log ''stt upstream exhausted retries'') a" a] by simp
  from close_session_onward [OF this] show ?thesis
    using In_stt_error assms onward_same by (auto simp: onSttError_def onward_def outp_def split: stt_error.split)
next
  case (In_attach role lastSeq)
  then show ?thesis using onward_same [OF assms life_attach] by simp
next
  case (In_detach i)
  then show ?thesis using onward_same [OF assms] by (simp add: detachProjector_def)
next
  case (In_tts_error now code)
  then show ?thesis using onward_same [OF assms] by (simp add: onTtsError_def)
qed (use assms in \<open>simp_all add: onward_same life_audio start_onward onTick_onward onGateway_onward close_session_onward\<close>)

lemma life_ok_new: "life_ok env (new_actor env cfg m now)"
  by (simp add: life_ok_def new_actor_def)

lemma life_ok_reach: "actor_reach env cfg m now a \<Longrightarrow> life_ok env a"
proof (induction rule: actor_reach.induct)
  case (step a inp)
  then show ?case using step_onward by (simp add: onward_def)
qed (simp add: life_ok_new)

text \<open>
  C7: One life. In every reachable state: no input takes a session back to an earlier state
  (INIT, RUNNING, DRAINING, CLOSED); the studio has been sent the end of the session once if the session is
  closed and never before, and the front door has been told then, once, with the session's id; the clock ticks exactly while the session runs; and while it drains,
  exactly one call of the closing meter is outstanding.
\<close>

theorem session_has_one_life:
  assumes "actor_reach env cfg m now a"
  shows "a_state a \<le> a_state (actor_step env inp a)
     \<and> ends (a_out a) = (if a_state a = CLOSED then 1 else 0)
     \<and> (a_ticker a \<longleftrightarrow> a_state a = RUNNING)
     \<and> closing_waits (a_waits a) = (if a_state a = DRAINING then 1 else 0)
     \<and> goodbyes (a_out a) = (if a_state a = CLOSED then [env_sessionId env] else [])"
  using life_ok_reach [OF assms] step_onward [OF life_ok_reach [OF assms], of inp]
  unfolding life_ok_def onward_def by blast

theorem session_has_one_life_witness:
  "a_state demo_actor \<le> a_state (actor_step demo_env (In_close 200 End_user) demo_actor)"
  using session_has_one_life [OF demo_actor_reach] by blast

section \<open>A closing session closes\<close>

fun to_go :: "meter_wait \<Rightarrow> nat" where
  "to_go Close_flush = 2"
| "to_go Close_release = 1"
| "to_go wt = 0"

lemma state_finish: "a_state (finish_close env why a) = CLOSED"
  using life_finish [of env why a] by (simp add: life_def)

lemma close_answer:
  fixes env :: actor_env and now :: int and answer :: gateway_answer
  assumes "i < length (a_waits a)" and "a_waits a ! i = (c, wt)" and "is_closing wt" and "life_ok env a"
  defines "a' \<equiv> onGateway env now i answer a"
  shows "a_state a' = CLOSED
    \<or> wt = Close_flush \<and> (\<exists>j < length (a_waits a'). \<exists>c'. a_waits a' ! j = (c', Close_release))"
proof -
  let ?b = "a\<lparr>a_waits := take i (a_waits a) @ drop (i + 1) (a_waits a)\<rparr>"
  obtain ev m k where r: "resume (a_meter ?b) wt answer = (ev, m, k)" by (metis prod_cases3)
  let ?c = "if answer = Rejected \<and> wt = Close_release then outp (Log ''final ledger settlement failed'') ?b else ?b"
  let ?d = "fold (meter_event_quiet now) ev (?c\<lparr>a_meter := m\<rparr>)"
  have eq: "a' = close_outcome env now (the (a_closing a)) (ev, m, k) ?c"
    using assms(1-3) r by (cases wt) (auto simp: a'_def onGateway_def Let_def)
  show ?thesis
  proof (cases k)
    case Finished
    then show ?thesis by (simp add: eq close_outcome_def Let_def state_finish)
  next
    case (Await c' w')
    have w: "wt = Close_flush" "w' = Close_release"
      using r Await assms(3) by (cases wt; auto simp: close_release_def Let_def split: prod.splits if_splits)+
    have "a_waits a' = a_waits ?d @ [(c', w')]"
      using life_suspend [of c' w' ?d] by (simp add: eq close_outcome_def Let_def Await life_def)
    then show ?thesis using w by (intro disjI2 conjI exI [of _ "length (a_waits ?d)"] exI [of _ c']) simp_all
  qed
qed

text \<open>
  C26: A closing session closes. From every reachable draining state two answers of the gateway at
  most, whatever they are and rejections included, bring the session to CLOSED.
\<close>

theorem draining_session_closes:
  assumes "actor_reach env cfg m now a" and "a_state a = DRAINING"
  shows "\<exists>i. \<forall>t answer. a_state (onGateway env t i answer a) = CLOSED
     \<or> (\<exists>j. \<forall>t' answer'. a_state (onGateway env t' j answer' (onGateway env t i answer a)) = CLOSED)"
proof -
  have ok: "life_ok env a" by (rule life_ok_reach [OF assms(1)])
  then have "closing_waits (a_waits a) = 1" using assms(2) by (simp add: life_ok_def)
  then have "filter (\<lambda>w. is_closing (snd w)) (a_waits a) \<noteq> []" by (auto simp: closing_waits_def)
  then obtain i c wt where i: "i < length (a_waits a)" "a_waits a ! i = (c, wt)" "is_closing wt"
    by (metis (mono_tags, lifting) filter_False in_set_conv_nth prod.collapse)
  have "a_state (onGateway env t i answer a) = CLOSED
     \<or> (\<exists>j. \<forall>t' answer'. a_state (onGateway env t' j answer' (onGateway env t i answer a)) = CLOSED)" for t answer
  proof (cases "a_state (onGateway env t i answer a) = CLOSED")
    case False
    let ?a = "onGateway env t i answer a"
    obtain j c' where j: "j < length (a_waits ?a)" "a_waits ?a ! j = (c', Close_release)"
      using close_answer [OF i ok, of t answer] False by blast
    have ok': "life_ok env ?a" using onGateway_onward [OF ok] by (simp add: onward_def)
    have "a_state (onGateway env t' j answer' ?a) = CLOSED" for t' answer'
      using close_answer [OF j _ ok', of t' answer'] by simp
    then show ?thesis by blast
  qed simp
  then show ?thesis by blast
qed

definition draining_actor :: actor where
  "draining_actor = actor_step demo_env (In_close 200 End_user)
     (actor_step demo_env In_start (new_actor demo_env default_SessionConfig demo_meter 0))"

theorem draining_session_closes_witness:
  "\<exists>i. \<forall>t answer. a_state (onGateway demo_env t i answer draining_actor) = CLOSED
     \<or> (\<exists>j. \<forall>t' answer'. a_state (onGateway demo_env t' j answer' (onGateway demo_env t i answer draining_actor)) = CLOSED)"
proof (rule draining_session_closes)
  show "actor_reach demo_env default_SessionConfig demo_meter 0 draining_actor"
    unfolding draining_actor_def by (intro actor_reach.intros) simp_all
  show "a_state draining_actor = DRAINING"
    by (simp add: draining_actor_def demo_meter_def new_meter_def new_actor_def actor_start_def emit_eq outp_def Let_def
        close_session_def performClose_def close_start_def flushNow_def close_outcome_def close_release_def
        releaseUnused_def reservationRemaining_def suspend_def)
qed

end
