(* ===== verification/Session_Money.thy ===== *)
theory Session_Money
  imports Session_Lifecycle
begin

text \<open>
  The money of a session: whatever reaches the actor, its meter only ever takes the steps of
  \<open>meter_step\<close>, so everything proved of the meter in every interleaving holds of a session; and the
  translate queue keeps its bound.
\<close>

section \<open>What concerns the meter\<close>

fun call_made :: "actor_effect \<Rightarrow> gateway_call option" where
  "call_made (Gateway c) = Some c"
| "call_made e = None"

definition calls_made :: "actor_effect list \<Rightarrow> gateway_call list" where
  "calls_made es = List.map_filter call_made es"

lemma calls_made_append [simp]: "calls_made (xs @ ys) = calls_made xs @ calls_made ys"
  by (simp add: calls_made_def map_filter_def)

lemma calls_made_simps [simp]:
  "calls_made [] = []" "calls_made (Gateway c # es) = c # calls_made es" "plain e \<Longrightarrow> calls_made (e # es) = calls_made es"
  "calls_made (To_studio msg # es) = calls_made es"
  by (cases e; simp add: calls_made_def map_filter_simps plain_def)+

lemma calls_made_none: "\<forall>e \<in> set es. call_made e = None \<Longrightarrow> calls_made es = []"
  by (induction es) (simp_all add: calls_made_def map_filter_simps)

lemma calls_made_fan_out [simp]: "calls_made (fan_out msg ps) = []"
  by (rule calls_made_none) (auto simp: fan_out_def)

definition mpart :: "actor \<Rightarrow> meter \<times> (gateway_call \<times> meter_wait) list \<times> gateway_call list" where
  "mpart a = (a_meter a, a_waits a, calls_made (a_out a))"

definition wpart :: "meter_world \<Rightarrow> meter \<times> (gateway_call \<times> meter_wait) list \<times> gateway_call list" where
  "wpart w = (w_meter w, w_waits w, w_calls w)"

lemma mpart_emit [simp]: "mpart (emit msg a) = mpart a"
  by (simp add: mpart_def emit_eq Let_def split: option.split)

lemma mpart_closed [simp]: "mpart (outp (On_closed i) a) = mpart a"
  by (simp add: mpart_def outp_def calls_made_def List.map_filter_def)

lemma mpart_plain [simp]: "plain e \<Longrightarrow> mpart (outp e a) = mpart a"
  by (simp add: mpart_def outp_def)

interpretation money: actor_core "\<lambda>a. mpart a = v" for v
  by unfold_locales (simp_all, simp_all add: mpart_def)

lemma mpart_core [simp]:
  "mpart (notice now code level a) = mpart a" "mpart (engine_push env ev a) = mpart a" "mpart (onSttEvent env ev a) = mpart a"
  "mpart (onTtsAudio c a) = mpart a" "mpart (onTranslated env now i result a) = mpart a"
  "mpart (meter_event_quiet now mev a) = mpart a" "mpart (signalSilenceIfIdle env now a) = mpart a"
  "mpart (snd (acceptFrame now a)) = mpart a"
  by (rule money.notice_keeps [OF refl] money.engine_push_keeps [OF refl] money.onSttEvent_keeps [OF refl]
    money.onTtsAudio_keeps [OF refl] money.onTranslated_keeps [OF refl] money.meter_event_quiet_keeps [OF refl]
    money.signalSilence_keeps [OF refl] money.acceptFrame_keeps [OF refl])+

lemma mpart_quiet_fold [simp]: "mpart (fold (meter_event_quiet now) ev a) = mpart a"
  by (rule money.fold_keeps) simp_all

lemma mpart_updates [simp]:
  "mpart (a\<lparr>a_state := s\<rparr>) = mpart a" "mpart (a\<lparr>a_closing := c\<rparr>) = mpart a" "mpart (a\<lparr>a_ticker := b\<rparr>) = mpart a"
  "mpart (a\<lparr>a_tickInFlight := b\<rparr>) = mpart a" "mpart (a\<lparr>a_pending := p\<rparr>) = mpart a" "mpart (a\<lparr>a_projectors := ps\<rparr>) = mpart a"
  "mpart (a\<lparr>a_config := cf\<rparr>) = mpart a" "mpart (a\<lparr>a_lastAudioAt := t\<rparr>) = mpart a" "mpart (a\<lparr>a_silenceSignalled := b\<rparr>) = mpart a"
  by (simp_all add: mpart_def)

lemma mpart_meter: "mpart (a\<lparr>a_meter := m\<rparr>) = (m, a_waits a, calls_made (a_out a))"
  by (simp add: mpart_def)

lemma mpart_finish [simp]: "mpart (finish_close env why a) = mpart a"
proof -
  have f: "mpart (fold (\<lambda>p. outp (Close_projector p 1000 ''session_ended'')) ps b) = mpart b" for ps b
    by (rule money.fold_keeps) simp_all
  show ?thesis by (simp add: finish_close_def Let_def f)
qed

text \<open>The result of a method of the meter, stored in the actor.\<close>

definition after :: "actor \<Rightarrow> outcome \<Rightarrow> meter \<times> (gateway_call \<times> meter_wait) list \<times> gateway_call list" where
  "after a out = (case out of (ev, m, k) \<Rightarrow> (m, a_waits a @ waits_of k, calls_made (a_out a) @ calls_of k))"

lemma after_same: "mpart a = mpart b \<Longrightarrow> after a out = after b out"
  by (simp add: after_def mpart_def split: prod.split)

lemma mpart_suspend: "mpart a = (m, ws, cs) \<Longrightarrow> mpart (suspend c wt a) = (m, ws @ [(c, wt)], cs @ [c])"
  by (simp add: suspend_def mpart_def outp_def)

lemma mpart_close_outcome: "mpart (close_outcome env now why out a) = after a out"
proof -
  obtain ev m k where out: "out = (ev, m, k)" by (metis prod_cases3)
  let ?a = "fold (meter_event_quiet now) ev (a\<lparr>a_meter := m\<rparr>)"
  have q: "mpart ?a = (m, a_waits a, calls_made (a_out a))" by (simp add: mpart_meter)
  then show ?thesis
    by (cases k) (simp_all add: out close_outcome_def Let_def after_def mpart_suspend [OF q])
qed

lemma mpart_close_session:
  "mpart (close_session env now why a) = mpart a
   \<or> mpart (close_session env now why a) = after a (close_start (a_meter a) now)"
proof (cases "a_state a = CLOSED \<or> a_closing a \<noteq> None")
  case False
  define b where "b = (let b = (a\<lparr>a_state := DRAINING, a_closing := Some why\<rparr>);
      b = (if a_ticker b then outp Clear_ticker b else b);
      b = outp Stt_close (b\<lparr>a_ticker := False\<rparr>);
      b = (if env_tts env then outp Tts_close b else b) in b\<lparr>a_pending := []\<rparr>)"
  have m: "mpart b = mpart a" by (simp add: b_def Let_def)
  then have am: "a_meter b = a_meter a" by (simp add: mpart_def)
  have "close_session env now why a = close_outcome env now why (close_start (a_meter b) now) b"
    using False by (simp add: close_session_def performClose_def b_def Let_def)
  then show ?thesis using after_same [OF m] by (simp add: mpart_close_outcome am)
qed (auto simp: close_session_def)

section \<open>The session refines the meter's world\<close>

definition metered :: "meter_options \<Rightarrow> int \<Rightarrow> actor \<Rightarrow> bool" where
  "metered opts t0 a \<longleftrightarrow> (\<exists>w. meter_reach opts t0 w \<and> mpart a = wpart w)"

lemma metered_same: "metered opts t0 a \<Longrightarrow> mpart a' = mpart a \<Longrightarrow> metered opts t0 a'"
  by (simp add: metered_def)

lemma wpart_apply: "wpart w = mpart a \<Longrightarrow> wpart (apply_outcome w out) = after a out"
  by (simp add: wpart_def mpart_def apply_outcome_def after_def split: prod.split)

lemma metered_close: "metered opts t0 a \<Longrightarrow> metered opts t0 (close_session env now why a)"
proof -
  assume "metered opts t0 a"
  then obtain w where w: "meter_reach opts t0 w" "mpart a = wpart w" by (auto simp: metered_def)
  have wm: "w_meter w = a_meter a" using w(2) by (simp add: mpart_def wpart_def)
  have r: "meter_reach opts t0 (apply_outcome w (close_start (a_meter a) now))"
    using meter_reach.step [OF w(1) meter_step.close, of now] by (simp only: wm)
  note p = wpart_apply [OF w(2) [symmetric], of "close_start (a_meter a) now"]
  from mpart_close_session [of env now why a] show ?thesis
  proof
    assume "mpart (close_session env now why a) = mpart a"
    then show ?thesis using w by (auto simp: metered_def)
  next
    assume "mpart (close_session env now why a) = after a (close_start (a_meter a) now)"
    then have "mpart (close_session env now why a) = wpart (apply_outcome w (close_start (a_meter a) now))"
      by (simp only: p)
    with r show ?thesis unfolding metered_def by blast
  qed
qed

text \<open>A tick's outcome: its events first, of which only the last can close the session.\<close>

lemma quiet_events: "On_exhausted \<notin> set ev \<Longrightarrow> fold (on_meter_event env now) ev a = fold (meter_event_quiet now) ev a"
proof (induction ev arbitrary: a)
  case (Cons e ev)
  then show ?case by (cases e) auto
qed simp

lemma metered_tick_outcome:
  assumes "meter_reach opts t0 w" and "wpart w = after a (ev, m, k)" and "exhausted_last ev k"
  shows "metered opts t0 (tick_outcome env now (ev, m, k) a)"
proof (cases "On_exhausted \<in> set ev")
  case False
  let ?a = "fold (meter_event_quiet now) ev (a\<lparr>a_meter := m\<rparr>)"
  have q: "mpart ?a = (m, a_waits a, calls_made (a_out a))" by (simp add: mpart_meter)
  have "mpart (tick_outcome env now (ev, m, k) a) = after a (ev, m, k)"
    using q by (cases k) (simp_all add: tick_outcome_def quiet_events [OF False] Let_def after_def mpart_suspend [OF q])
  then show ?thesis using assms(1,2) by (auto simp: metered_def)
next
  case True
  then obtain ev' where ev: "ev = ev' @ [On_exhausted]" "On_exhausted \<notin> set ev'" and k: "k = Finished"
    using assms(3) by (auto simp: exhausted_last_def)
  let ?a = "fold (meter_event_quiet now) ev' (a\<lparr>a_meter := m\<rparr>)"
  have "mpart ?a = after a (ev, m, k)" by (simp add: mpart_meter after_def k)
  then have "metered opts t0 ?a" using assms(1,2) by (auto simp: metered_def)
  then have "metered opts t0 (close_session env now End_credits_exhausted ?a)" by (rule metered_close)
  then show ?thesis
    by (simp add: tick_outcome_def ev k Let_def quiet_events [OF ev(2)] metered_def)
qed

lemma metered_tick: "metered opts t0 a \<Longrightarrow> metered opts t0 (onTick env now a)"
proof (cases "a_tickInFlight a \<or> a_state a \<noteq> RUNNING")
  case False
  assume "metered opts t0 a"
  then obtain w where w: "meter_reach opts t0 w" "mpart a = wpart w" by (auto simp: metered_def)
  let ?a = "signalSilenceIfIdle env now (a\<lparr>a_tickInFlight := True\<rparr>)"
  have m: "mpart ?a = wpart w" using w(2) by simp
  then have wm: "w_meter w = a_meter ?a" by (simp add: mpart_def wpart_def)
  obtain ev m k where t: "tick_start (a_meter ?a) now = (ev, m, k)" by (metis prod_cases3)
  have r: "meter_reach opts t0 (apply_outcome w (ev, m, k))"
    using meter_reach.step [OF w(1) meter_step.tick, of now] by (simp only: wm t)
  have eq: "onTick env now a = tick_outcome env now (ev, m, k) ?a" using False t by (simp add: onTick_def Let_def)
  show ?thesis unfolding eq
    by (rule metered_tick_outcome [OF r wpart_apply [OF m [symmetric]] tick_start_last [OF t]])
qed (auto simp: onTick_def)

lemma metered_gateway:
  assumes "metered opts t0 a" and "i < length (a_waits a)" and "answer_ok (fst (a_waits a ! i)) answer"
  shows "metered opts t0 (onGateway env now i answer a)"
proof -
  obtain w where w: "meter_reach opts t0 w" "mpart a = wpart w" using assms(1) by (auto simp: metered_def)
  obtain c wt where c: "a_waits a ! i = (c, wt)" by fastforce
  let ?ws = "take i (a_waits a) @ drop (i + 1) (a_waits a)"
  let ?b = "a\<lparr>a_waits := ?ws\<rparr>" and ?w = "w\<lparr>w_waits := ?ws, w_credit := w_credit w + answer_credit answer\<rparr>"
  have ww: "w_waits w = take i (a_waits a) @ (c, wt) # drop (i + 1) (a_waits a)" and wm: "w_meter w = a_meter a"
    using w(2) id_take_nth_drop [OF assms(2)] c by (simp_all add: mpart_def wpart_def)
  have ok: "answer_ok c answer" using assms(3) c by simp
  obtain ev m k where r: "resume (a_meter ?b) wt answer = (ev, m, k)" by (metis prod_cases3)
  have reach: "meter_reach opts t0 (apply_outcome ?w (ev, m, k))"
    using meter_reach.step [OF w(1) meter_step.answer [OF ww ok]] r by (simp add: wm)
  have mb: "wpart ?w = mpart ?b" using w(2) by (simp add: wpart_def mpart_def)
  show ?thesis
  proof (cases "is_closing wt")
    case False
    let ?c = "if answer = Rejected \<and> (\<exists>t. wt = Tick_reserve t) then outp (Log ''meter tick failed'') ?b else ?b"
    have "after ?c (ev, m, k) = after ?b (ev, m, k)" by (rule after_same) simp
    then have "wpart (apply_outcome ?w (ev, m, k)) = after ?c (ev, m, k)"
      using wpart_apply [OF mb] by simp
    moreover have "onGateway env now i answer a = tick_outcome env now (ev, m, k) ?c"
      using assms(2) c r False by (cases wt) (auto simp: onGateway_def Let_def)
    ultimately show ?thesis using metered_tick_outcome [OF reach _ resume_last [OF r]] by simp
  next
    case True
    let ?c = "if answer = Rejected \<and> wt = Close_release then outp (Log ''final ledger settlement failed'') ?b else ?b"
    have "after ?c (ev, m, k) = after ?b (ev, m, k)" by (rule after_same) simp
    then have "wpart (apply_outcome ?w (ev, m, k)) = after ?c (ev, m, k)"
      using wpart_apply [OF mb] by simp
    moreover have "onGateway env now i answer a = close_outcome env now (the (a_closing a)) (ev, m, k) ?c"
      using assms(2) c r True by (cases wt) (auto simp: onGateway_def Let_def)
    ultimately show ?thesis using reach by (auto simp: metered_def mpart_close_outcome)
  qed
qed

lemma metered_audio: "metered opts t0 a \<Longrightarrow> metered opts t0 (onAudioFrame now frame a)"
proof -
  assume m: "metered opts t0 a"
  obtain b x where x: "acceptFrame now a = (b, x)" by fastforce
  have "mpart (snd (acceptFrame now a)) = mpart a" by (rule mpart_core)
  then have mx: "mpart x = mpart a" by (simp add: x)
  obtain w where w: "meter_reach opts t0 w" "mpart a = wpart w" using m by (auto simp: metered_def)
  have r: "meter_reach opts t0 (w\<lparr>w_meter := markAudio (w_meter w) now\<rparr>)"
    by (rule meter_reach.step [OF w(1) meter_step.audio])
  have "mpart (x\<lparr>a_meter := markAudio (a_meter x) now\<rparr>) = wpart (w\<lparr>w_meter := markAudio (w_meter w) now\<rparr>)"
    using w(2) mx by (simp add: mpart_def wpart_def)
  moreover have "mpart (outp (Stt_audio pcm) (y\<lparr>a_meter := mm\<rparr>)) = mpart (y\<lparr>a_meter := mm\<rparr>)" for y mm pcm by simp
  ultimately have "metered opts t0 (outp (Stt_audio pcm)
      (x\<lparr>a_lastAudioAt := now, a_silenceSignalled := False, a_meter := markAudio (a_meter x) now\<rparr>))" for pcm
    using r by (auto simp: metered_def mpart_def outp_def)
  then show ?thesis
    using m mx by (cases "a_state a = RUNNING"; cases b) (auto simp: onAudioFrame_def x intro: metered_same)
qed

lemma metered_step:
  assumes "metered opts t0 a" and "input_ok a inp"
  shows "metered opts t0 (actor_step env inp a)"
proof (cases inp)
  case In_start
  have "mpart (actor_start a env) = mpart a" by (simp add: actor_start_def Let_def)
  then show ?thesis using In_start metered_same [OF assms(1)] by simp
next
  case (In_studio now msg)
  have "mpart (applyConfigure now patch a) = mpart a" for patch
    by (simp add: applyConfigure_def Let_def split: option.split)
  then show ?thesis
    using In_studio assms(1) metered_same [OF assms(1)] metered_close by (cases msg) auto
next
  case (In_attach role lastSeq)
  have "calls_made (map (To_projector p) msgs) = []" for p msgs by (rule calls_made_none) auto
  then have "mpart (attachProjector env role lastSeq a) = mpart a" by (simp add: attach_eq Let_def mpart_def)
  then show ?thesis using In_attach metered_same [OF assms(1)] by simp
next
  case (In_stt_error now e)
  have "metered opts t0 (outp (Log ''stt upstream exhausted retries'') a)" by (rule metered_same [OF assms(1)]) simp
  then show ?thesis
    using In_stt_error metered_close metered_same [OF assms(1)] by (auto simp: onSttError_def split: stt_error.split)
next
  case (In_gateway now i answer)
  then show ?thesis using metered_gateway [OF assms(1)] assms(2) by simp
qed (use assms(1) metered_same [OF assms(1)] in
    \<open>simp_all add: metered_audio metered_tick metered_close detachProjector_def onTtsError_def\<close>)

text \<open>
  C3: A session bills like its meter. Whatever happens to a session, the meter inside it, the calls it
  waits for and the calls it has made to the gateway are those of some run of the meter on its own; so the
  books of a session balance: what it sent to the ledger and what is pending is what it spent, it never
  spends beyond its reservation, and its flushes are numbered 1, 2, 3, \<dots>.
\<close>

theorem session_bills_like_its_meter:
  assumes "actor_reach env cfg (new_meter opts t0) t0 a" and "on_grid (mo_reserved opts)" and "0 \<le> mo_reserved opts"
  shows "(\<exists>w. meter_reach opts t0 w \<and> w_meter w = a_meter a \<and> w_waits w = a_waits a \<and> w_calls w = calls_made (a_out a))
     \<and> billed (calls_made (a_out a)) + m_pendingCredits (a_meter a) = spent (m_reservation (a_meter a))
     \<and> spent (m_reservation (a_meter a)) \<le> reserved (m_reservation (a_meter a))
     \<and> map fl_sequence (flushes (calls_made (a_out a))) = [1..<Suc (m_flushSequence (a_meter a))]"
proof -
  have "metered opts t0 a"
    using assms(1)
  proof (induction rule: actor_reach.induct)
    case start
    have "mpart (new_actor env cfg (new_meter opts t0) t0) = wpart (world_start opts t0)"
      by (simp add: mpart_def wpart_def new_actor_def world_start_def)
    then show ?case using meter_reach.start by (auto simp: metered_def)
  next
    case (step a inp)
    then show ?case by (intro metered_step)
  qed
  then obtain w where w: "meter_reach opts t0 w" "mpart a = wpart w" by (auto simp: metered_def)
  have "books (w_meter w) (w_calls w) (w_credit w)"
    using meter_reach_ok [OF w(1) assms(2,3)] by (simp add: world_ok_def)
  then show ?thesis using w unfolding books_def mpart_def wpart_def by auto
qed

theorem session_bills_like_its_meter_witness:
  "billed (calls_made (a_out demo_actor)) + m_pendingCredits (a_meter demo_actor) = spent (m_reservation (a_meter demo_actor))"
  using session_bills_like_its_meter [OF demo_actor_reach [unfolded demo_meter_def]] by simp

end
