(* ===== verification/Upstream_Socket.thy ===== *)
theory Upstream_Socket
  imports Contracts
begin

text \<open>
  What the provider clients share: \<open>apps/relay/src/providers/socket.ts\<close>, the hosts and constants of
  \<open>apps/relay/src/config.ts\<close>, parsed JSON values and the parts of a URL. A socket is named by the
  order in which it was made; the list \<open>sockets\<close> holds the flag \<open>open\<close> of each.
\<close>

section \<open>config.ts\<close>

datatype elevenlabs_region = Region_global | Region_us | Region_eu | Region_in | Region_sg

definition elevenLabsHost :: "elevenlabs_region \<Rightarrow> string" where
  "elevenLabsHost region =
     (case region of
        Region_global \<Rightarrow> ''api.elevenlabs.io''
      | Region_us \<Rightarrow> ''api.us.elevenlabs.io''
      | Region_eu \<Rightarrow> ''api.eu.residency.elevenlabs.io''
      | Region_in \<Rightarrow> ''api.in.residency.elevenlabs.io''
      | Region_sg \<Rightarrow> ''api.sg.residency.elevenlabs.io'')"

definition OPENROUTER_BASE_URL :: string where
  "OPENROUTER_BASE_URL = ''https://openrouter.ai/api/v1''"

definition HANDSHAKE_TIMEOUT_MS :: int where
  "HANDSHAKE_TIMEOUT_MS = 5000"

definition MAX_HANDSHAKES_PER_IP_PER_MINUTE :: nat where
  "MAX_HANDSHAKES_PER_IP_PER_MINUTE = 30"

definition DRAIN_TIMEOUT_MS :: int where
  "DRAIN_TIMEOUT_MS = 10 * 60 * 1000"

section \<open>Parsed JSON\<close>

datatype json =
    JNull
  | JBool bool
  | JNum rat
  | JStr jstring
  | JArr "json list"
  | JObj "(string \<times> json) list"

text \<open>A field of a value that is known to be neither \<open>null\<close> nor \<open>undefined\<close>. Arrays and
  primitive values have none of the fields read here.\<close>

fun json_field :: "string \<Rightarrow> json \<Rightarrow> json option" where
  "json_field k (JObj fs) = map_of fs k"
| "json_field k v = None"

text \<open>\<open>typeof v === 'string'\<close>, and \<open>typeof v === 'object' && v !== null\<close>.\<close>

fun as_string :: "json option \<Rightarrow> jstring option" where
  "as_string (Some (JStr s)) = Some s"
| "as_string v = None"

fun is_object :: "json \<Rightarrow> bool" where
  "is_object (JObj fs) = True"
| "is_object (JArr vs) = True"
| "is_object v = False"

section \<open>URLs\<close>

text \<open>A URL before the library writes it out: host, segments of the path, query.\<close>

record url =
  url_scheme :: string
  url_host :: string
  url_path :: "jstring list"
  url_query :: "(string \<times> jstring) list"

definition js_bool :: "bool \<Rightarrow> jstring" where
  "js_bool b = (if b then js ''true'' else js ''false'')"

section \<open>Sockets\<close>

type_synonym sockets = "bool list"

datatype socket_event =
    Sock_open
  | Sock_message "json option"
  | Sock_close int jstring
  | Sock_error jstring

text \<open>\<open>createWsSocket\<close>: the new socket is not open.\<close>

definition create_socket :: "sockets \<Rightarrow> nat \<times> sockets" where
  "create_socket ss = (length ss, ss @ [False])"

definition is_open :: "sockets \<Rightarrow> nat option \<Rightarrow> bool" where
  "is_open ss s = (case s of None \<Rightarrow> False | Some i \<Rightarrow> i < length ss \<and> ss ! i)"

text \<open>The flag as the handlers of the library's events set it.\<close>

definition socket_flag :: "nat \<Rightarrow> socket_event \<Rightarrow> sockets \<Rightarrow> sockets" where
  "socket_flag i e ss =
     (case e of
        Sock_open \<Rightarrow> ss[i := True]
      | Sock_message m \<Rightarrow> ss
      | Sock_close code r \<Rightarrow> ss[i := False]
      | Sock_error msg \<Rightarrow> ss[i := False])"

definition socket_close :: "nat \<Rightarrow> sockets \<Rightarrow> sockets" where
  "socket_close i ss = ss[i := False]"

lemma length_sockets [simp]:
  "length (socket_flag i e ss) = length ss" "length (socket_close i ss) = length ss"
  by (simp_all add: socket_flag_def socket_close_def split: socket_event.split)

end
