(* ===== verification/Upstream_Stt.thy ===== *)
theory Upstream_Stt
  imports Upstream_Socket Session_Actor
begin

text \<open>
  \<open>apps/relay/src/providers/elevenlabs-stt.ts\<close>: the client of the transcription service. Its state is the
  record \<open>stt_client\<close>; timers and sockets are named by the order in which they were made, what
  the client does to the outside is the trace \<open>st_out\<close>. The jitter is an argument of what draws it.
\<close>

section \<open>Pure helpers\<close>

definition MAX_RECONNECT_ATTEMPTS :: nat where
  "MAX_RECONNECT_ATTEMPTS = 3"

definition BASE_BACKOFF_MS :: jsnum where
  "BASE_BACKOFF_MS = 250"

definition MAX_BACKOFF_MS :: jsnum where
  "MAX_BACKOFF_MS = 4000"

definition backoffDelayMs :: "nat \<Rightarrow> jsnum \<Rightarrow> int" where
  "backoffDelayMs attempt jitter =
     (let window = min MAX_BACKOFF_MS (BASE_BACKOFF_MS * 2 ^ (attempt - 1));
          clamped = min 1 (max 0 jitter)
      in js_round (window * (1 / 2 + clamped * (1 / 2))))"

fun keyterms_loop :: "unicode \<Rightarrow> jstring list \<Rightarrow> jstring list \<Rightarrow> jstring list \<Rightarrow> jstring list" where
  "keyterms_loop u seen out [] = out"
| "keyterms_loop u seen out (raw # terms) =
     (let t = trim raw; key = lower u t
      in if t = [] \<or> length t > GLOSSARY_MAX_TERM_LENGTH then keyterms_loop u seen out terms
         else if key \<in> set seen then keyterms_loop u seen out terms
         else if length (out @ [t]) \<ge> GLOSSARY_MAX_TERMS then out @ [t]
         else keyterms_loop u (key # seen) (out @ [t]) terms)"

definition sanitiseKeyterms :: "unicode \<Rightarrow> jstring list \<Rightarrow> jstring list" where
  "sanitiseKeyterms u terms = keyterms_loop u [] [] terms"

record stt_options =
  so_model :: jstring
  so_region :: elevenlabs_region
  so_languageCode :: "string option"
  so_keyterms :: "jstring list"
  so_noVerbatim :: bool

definition buildSttUrl :: "stt_options \<Rightarrow> jstring list \<Rightarrow> url" where
  "buildSttUrl opts keyterms =
     \<lparr>url_scheme = ''wss'', url_host = elevenLabsHost (so_region opts),
      url_path = [js ''v1'', js ''speech-to-text'', js ''realtime''],
      url_query =
        [(''model_id'', so_model opts), (''audio_format'', js ''pcm_16000''), (''commit_strategy'', js ''vad''),
         (''no_verbatim'', js_bool (so_noVerbatim opts))]
        @ (if truthy (so_languageCode opts) then [(''language_code'', js (the (so_languageCode opts)))] else [])
        @ map (\<lambda>t. (''keyterms'', t)) keyterms\<rparr>"

section \<open>Messages of the service\<close>

definition message_type :: "unicode \<Rightarrow> json \<Rightarrow> jstring" where
  "message_type u m = (case as_string (json_field ''message_type'' m) of Some s \<Rightarrow> lower u s | None \<Rightarrow> [])"

definition normaliseSttMessage :: "unicode \<Rightarrow> json \<Rightarrow> int \<Rightarrow> stt_event option" where
  "normaliseSttMessage u m atMs =
     (if \<not> is_object m then None
      else
        let t = message_type u m;
            s = (case as_string (json_field ''text'' m) of Some s \<Rightarrow> s | None \<Rightarrow> [])
        in if t = js ''partial_transcript'' then (if trim s = [] then None else Some (Partial s atMs))
           else if t = js ''committed_transcript'' \<or> t = js ''committed_transcript_with_timestamps''
             then Some (if trim s = [] then Silence atMs else Committed s atMs)
           else None)"

definition ERROR_TYPES :: "jstring list" where
  "ERROR_TYPES = map js [''error'', ''auth_error'', ''quota_exceeded'', ''rate_limited'', ''input_error'']"

definition readUpstreamError :: "unicode \<Rightarrow> json \<Rightarrow> jstring option" where
  "readUpstreamError u m =
     (if \<not> is_object m then None
      else
        let t = message_type u m
        in if t \<notin> set ERROR_TYPES then None
           else Some (case as_string (json_field ''message'' m) of Some s \<Rightarrow> t @ js '': '' @ s | None \<Rightarrow> t))"

section \<open>The client\<close>

datatype stt_connection = Stt_idle | Stt_connecting | Stt_open | Stt_reconnecting | Stt_closed

datatype stt_payload = Pay_audio "byte list" nat bool | Pay_commit

datatype stt_effect =
    Eff_connect nat url
  | Eff_send nat stt_payload
  | Eff_socket_close nat int jstring
  | Eff_set_timer nat int
  | Eff_clear_timer nat
  | Eff_event stt_event
  | Eff_error stt_error jstring
  | Eff_state stt_connection

record stt_client =
  st_socket :: "nat option"
  st_state :: stt_connection
  st_attempt :: nat
  st_retryHandle :: "nat option"
  st_stopped :: bool
  st_sockets :: sockets
  st_timers :: "nat list"
  st_nextTimer :: nat
  st_out :: "stt_effect list"

definition new_stt_client :: stt_client where
  "new_stt_client =
     \<lparr>st_socket = None, st_state = Stt_idle, st_attempt = 0, st_retryHandle = None, st_stopped = False,
      st_sockets = [], st_timers = [], st_nextTimer = 0, st_out = []\<rparr>"

definition st_do :: "stt_effect \<Rightarrow> stt_client \<Rightarrow> stt_client" where
  "st_do e s = s\<lparr>st_out := st_out s @ [e]\<rparr>"

definition setState :: "stt_connection \<Rightarrow> stt_client \<Rightarrow> stt_client" where
  "setState c s = (if st_state s = c then s else st_do (Eff_state c) (s\<lparr>st_state := c\<rparr>))"

definition stt_set_timer :: "int \<Rightarrow> stt_client \<Rightarrow> stt_client" where
  "stt_set_timer ms s =
     (let h = st_nextTimer s
      in st_do (Eff_set_timer h ms)
           (s\<lparr>st_retryHandle := Some h, st_timers := st_timers s @ [h], st_nextTimer := h + 1\<rparr>))"

definition connect :: "unicode \<Rightarrow> stt_options \<Rightarrow> stt_client \<Rightarrow> stt_client" where
  "connect u opts s =
     (if st_stopped s then s
      else
        let s = setState (if st_attempt s = 0 then Stt_connecting else Stt_reconnecting) s
        in (case create_socket (st_sockets s) of
              (i, ss) \<Rightarrow>
                st_do (Eff_connect i (buildSttUrl opts (sanitiseKeyterms u (so_keyterms opts))))
                  (s\<lparr>st_socket := Some i, st_sockets := ss\<rparr>)))"

definition stt_start :: "unicode \<Rightarrow> stt_options \<Rightarrow> stt_client \<Rightarrow> stt_client" where
  "stt_start u opts s = connect u opts (s\<lparr>st_stopped := False\<rparr>)"

definition sendAudio :: "byte list \<Rightarrow> bool \<Rightarrow> stt_client \<Rightarrow> stt_client" where
  "sendAudio pcm cmt s =
     (if \<not> is_open (st_sockets s) (st_socket s) then s
      else st_do (Eff_send (the (st_socket s)) (Pay_audio pcm SAMPLE_RATE cmt)) s)"

definition stt_commit :: "stt_client \<Rightarrow> stt_client" where
  "stt_commit s =
     (if \<not> is_open (st_sockets s) (st_socket s) then s
      else st_do (Eff_send (the (st_socket s)) Pay_commit) s)"

definition stt_close :: "stt_client \<Rightarrow> stt_client" where
  "stt_close s =
     (let s = s\<lparr>st_stopped := True\<rparr>;
          s = (case st_retryHandle s of
                 None \<Rightarrow> s
               | Some h \<Rightarrow> st_do (Eff_clear_timer h) (s\<lparr>st_timers := filter (\<lambda>t. t \<noteq> h) (st_timers s)\<rparr>));
          s = s\<lparr>st_retryHandle := None\<rparr>;
          s = (case st_socket s of
                 None \<Rightarrow> s
               | Some i \<Rightarrow> st_do (Eff_socket_close i 1000 (js ''session closed''))
                   (s\<lparr>st_sockets := socket_close i (st_sockets s)\<rparr>))
      in setState Stt_closed (s\<lparr>st_socket := None\<rparr>))"

definition handleDrop :: "jsnum \<Rightarrow> jstring \<Rightarrow> stt_client \<Rightarrow> stt_client" where
  "handleDrop jitter msg s =
     (if st_stopped s then s
      else
        let s = s\<lparr>st_socket := None\<rparr>
        in if st_attempt s \<ge> MAX_RECONNECT_ATTEMPTS
           then st_do (Eff_error Stt_FATAL msg) (setState Stt_closed s)
           else
             let s = setState Stt_reconnecting (s\<lparr>st_attempt := st_attempt s + 1\<rparr>);
                 s = st_do (Eff_error (Stt_notice STT_RECONNECTING) msg) s
             in stt_set_timer (backoffDelayMs (st_attempt s) jitter) s)"

text \<open>The service's text did not parse (\<open>None\<close>), or it did.\<close>

definition handleMessage :: "unicode \<Rightarrow> int \<Rightarrow> json option \<Rightarrow> stt_client \<Rightarrow> stt_client" where
  "handleMessage u now raw s =
     (case raw of
        None \<Rightarrow> s
      | Some parsed \<Rightarrow>
          (case normaliseSttMessage u parsed now of
             Some ev \<Rightarrow> st_do (Eff_event ev) s
           | None \<Rightarrow>
               (case readUpstreamError u parsed of
                  Some failure \<Rightarrow> st_do (Eff_error Stt_FATAL failure) s
                | None \<Rightarrow> s)))"

text \<open>The handlers given to the socket: they are those of the client, whichever socket calls them.\<close>

definition stt_socket_event :: "unicode \<Rightarrow> int \<Rightarrow> jsnum \<Rightarrow> nat \<Rightarrow> socket_event \<Rightarrow> stt_client \<Rightarrow> stt_client" where
  "stt_socket_event u now jitter i e s =
     (let s = s\<lparr>st_sockets := socket_flag i e (st_sockets s)\<rparr>
      in (case e of
            Sock_open \<Rightarrow> setState Stt_open (s\<lparr>st_attempt := 0\<rparr>)
          | Sock_message raw \<Rightarrow> handleMessage u now raw s
          | Sock_close code r \<Rightarrow> handleDrop jitter (js ''upstream closed the transcription socket'') s
          | Sock_error msg \<Rightarrow> handleDrop jitter msg s))"

section \<open>Everything that can happen to the client\<close>

datatype stt_input =
    Stt_in_start
  | Stt_in_audio "byte list" bool
  | Stt_in_commit
  | Stt_in_close
  | Stt_in_socket int jsnum nat socket_event
  | Stt_in_timer nat

fun stt_step :: "unicode \<Rightarrow> stt_options \<Rightarrow> stt_input \<Rightarrow> stt_client \<Rightarrow> stt_client" where
  "stt_step u opts Stt_in_start s = stt_start u opts s"
| "stt_step u opts (Stt_in_audio pcm cmt) s = sendAudio pcm cmt s"
| "stt_step u opts Stt_in_commit s = stt_commit s"
| "stt_step u opts Stt_in_close s = stt_close s"
| "stt_step u opts (Stt_in_socket now jitter i e) s = stt_socket_event u now jitter i e s"
| "stt_step u opts (Stt_in_timer h) s =
     (if h \<in> set (st_timers s)
      then connect u opts (s\<lparr>st_timers := filter (\<lambda>t. t \<noteq> h) (st_timers s)\<rparr>) else s)"

definition stt_run :: "unicode \<Rightarrow> stt_options \<Rightarrow> stt_input list \<Rightarrow> stt_client \<Rightarrow> stt_client" where
  "stt_run u opts ins s = fold (stt_step u opts) ins s"

section \<open>Keyterms: the reference\<close>

text \<open>The terms that fit, the first of each spelling.\<close>

fun first_spellings :: "unicode \<Rightarrow> jstring list \<Rightarrow> jstring list \<Rightarrow> jstring list" where
  "first_spellings u seen [] = []"
| "first_spellings u seen (t # ts) =
     (if lower u t \<in> set seen then first_spellings u seen ts
      else t # first_spellings u (lower u t # seen) ts)"

definition term_fits :: "jstring \<Rightarrow> bool" where
  "term_fits t \<longleftrightarrow> t \<noteq> [] \<and> length t \<le> GLOSSARY_MAX_TERM_LENGTH"

lemma keyterms_loop_reference:
  "length out < GLOSSARY_MAX_TERMS \<Longrightarrow>
     keyterms_loop u seen out ts
       = out @ take (GLOSSARY_MAX_TERMS - length out) (first_spellings u seen (filter term_fits (map trim ts)))"
proof (induction ts arbitrary: seen out)
  case (Cons raw ts)
  let ?t = "trim raw"
  consider "\<not> term_fits ?t" | "term_fits ?t" "lower u ?t \<in> set seen" | "term_fits ?t" "lower u ?t \<notin> set seen"
    by blast
  then show ?case
  proof cases
    case 3
    show ?thesis
    proof (cases "length out + 1 \<ge> GLOSSARY_MAX_TERMS")
      case True
      with Cons.prems have "GLOSSARY_MAX_TERMS - length out = 1" by simp
      then show ?thesis using 3 True by (auto simp: term_fits_def Let_def not_le)
    next
      case False
      then have "GLOSSARY_MAX_TERMS - length out = Suc (GLOSSARY_MAX_TERMS - length (out @ [?t]))"
        using Cons.prems by simp
      then show ?thesis using 3 False Cons.IH [of "out @ [?t]" "lower u ?t # seen"]
        by (auto simp: term_fits_def Let_def not_le)
    qed
  qed (use Cons in \<open>auto simp: term_fits_def Let_def not_le\<close>)
qed simp

lemma first_spellings_subset: "set (first_spellings u seen ts) \<subseteq> set ts"
  by (induction ts arbitrary: seen) auto

lemma first_spellings_fresh: "t \<in> set (first_spellings u seen ts) \<Longrightarrow> lower u t \<notin> set seen"
proof (induction ts arbitrary: seen)
  case (Cons a ts)
  then show ?case using Cons.IH [of "lower u a # seen"] Cons.IH [of seen] by (auto split: if_splits)
qed simp

lemma first_spellings_distinct: "distinct (map (lower u) (first_spellings u seen ts))"
  by (induction ts arbitrary: seen) (auto dest: first_spellings_fresh)

section \<open>Reconnecting\<close>

lemma backoff_window:
  assumes "w = min 4000 (250 * 2 ^ (attempt - 1))"
  shows "js_round (w / 2) \<le> backoffDelayMs attempt jitter" "backoffDelayMs attempt jitter \<le> js_round w"
proof -
  let ?c = "min 1 (max 0 jitter)"
  have w: "0 \<le> w" using assms by simp
  have "backoffDelayMs attempt jitter = js_round (w * (1 / 2 + ?c * (1 / 2)))"
    by (simp add: backoffDelayMs_def assms MAX_BACKOFF_MS_def BASE_BACKOFF_MS_def Let_def)
  moreover have "w / 2 \<le> w * (1 / 2 + ?c * (1 / 2))"
    using mult_left_mono [OF _ w, of "1 / 2" "1 / 2 + ?c * (1 / 2)"] by simp
  moreover have "w * (1 / 2 + ?c * (1 / 2)) \<le> w"
    using mult_left_mono [OF _ w, of "1 / 2 + ?c * (1 / 2)" 1] by simp
  ultimately show "js_round (w / 2) \<le> backoffDelayMs attempt jitter" "backoffDelayMs attempt jitter \<le> js_round w"
    by (simp_all add: js_round_mono)
qed

text \<open>The errors reported and the delays of the retries, in order.\<close>

definition errors_of :: "stt_client \<Rightarrow> stt_error list" where
  "errors_of s = List.map_filter (\<lambda>e. case e of Eff_error c m \<Rightarrow> Some c | _ \<Rightarrow> None) (st_out s)"

definition delays_of :: "stt_client \<Rightarrow> int list" where
  "delays_of s = List.map_filter (\<lambda>e. case e of Eff_set_timer h ms \<Rightarrow> Some ms | _ \<Rightarrow> None) (st_out s)"

fun drop_jitter :: "stt_input \<Rightarrow> jsnum option" where
  "drop_jitter (Stt_in_socket now jitter i (Sock_close c r)) = Some jitter"
| "drop_jitter (Stt_in_socket now jitter i (Sock_error m)) = Some jitter"
| "drop_jitter inp = None"

text \<open>Nothing that would end the row of failures: no opened socket, no restart, no close, no message.\<close>

fun no_relief :: "stt_input \<Rightarrow> bool" where
  "no_relief Stt_in_start = False"
| "no_relief Stt_in_close = False"
| "no_relief (Stt_in_socket now jitter i Sock_open) = False"
| "no_relief (Stt_in_socket now jitter i (Sock_message m)) = False"
| "no_relief inp = True"

lemma map_filter_append: "List.map_filter f (xs @ ys) = List.map_filter f xs @ List.map_filter f ys"
  by (simp add: List.map_filter_def)

lemmas map_filter_rules = map_filter_append map_filter_simps

text \<open>What the operations do to the four fields that matter.\<close>

definition retry_view :: "stt_client \<Rightarrow> bool \<times> nat \<times> stt_error list \<times> int list" where
  "retry_view s = (st_stopped s, st_attempt s, errors_of s, delays_of s)"

lemmas retry_defs = retry_view_def errors_of_def delays_of_def

lemma retry_view_do:
  "retry_view (st_do e s) =
     (st_stopped s, st_attempt s, errors_of s @ (case e of Eff_error c m \<Rightarrow> [c] | _ \<Rightarrow> []),
      delays_of s @ (case e of Eff_set_timer h ms \<Rightarrow> [ms] | _ \<Rightarrow> []))"
  by (simp add: retry_defs st_do_def map_filter_rules split: stt_effect.split)

lemma retry_setState [simp]:
  "st_stopped (setState c s) = st_stopped s" "st_attempt (setState c s) = st_attempt s"
  "errors_of (setState c s) = errors_of s" "delays_of (setState c s) = delays_of s"
  by (simp_all add: setState_def retry_defs st_do_def map_filter_rules)

lemma retry_view_connect [simp]: "retry_view (connect u opts s) = retry_view s"
proof -
  have upd: "errors_of (s\<lparr>st_socket := a, st_sockets := b\<rparr>) = errors_of s"
    "delays_of (s\<lparr>st_socket := a, st_sockets := b\<rparr>) = delays_of s" for s a b by (simp_all add: retry_defs)
  show ?thesis
    by (simp add: connect_def Let_def create_socket_def retry_view_do upd) (simp add: retry_view_def)
qed

lemma retry_view_drop:
  "retry_view (handleDrop jitter msg s) =
     (if st_stopped s then retry_view s
      else if st_attempt s \<ge> MAX_RECONNECT_ATTEMPTS
        then (False, st_attempt s, errors_of s @ [Stt_FATAL], delays_of s)
      else (False, st_attempt s + 1, errors_of s @ [Stt_notice STT_RECONNECTING],
            delays_of s @ [backoffDelayMs (st_attempt s + 1) jitter]))"
  by (simp add: handleDrop_def Let_def setState_def stt_set_timer_def)
     (simp add: retry_defs st_do_def map_filter_rules)

lemma retry_view_flags [simp]: "retry_view (s\<lparr>st_sockets := ss\<rparr>) = retry_view s"
  "retry_view (s\<lparr>st_timers := ts\<rparr>) = retry_view s"
  by (simp_all add: retry_defs)

text \<open>The reference: a counter, an outcome per failure.\<close>

fun escalate :: "nat \<Rightarrow> jsnum list \<Rightarrow> nat \<times> stt_error list \<times> int list" where
  "escalate n [] = (n, [], [])"
| "escalate n (j # draws) =
     (if n \<ge> MAX_RECONNECT_ATTEMPTS
      then (case escalate n draws of (n', es, ds) \<Rightarrow> (n', Stt_FATAL # es, ds))
      else (case escalate (n + 1) draws of (n', es, ds) \<Rightarrow>
              (n', Stt_notice STT_RECONNECTING # es, backoffDelayMs (n + 1) j # ds)))"

lemma escalate_errors:
  "n \<le> MAX_RECONNECT_ATTEMPTS \<Longrightarrow>
     fst (snd (escalate n draws))
       = replicate (min (length draws) (MAX_RECONNECT_ATTEMPTS - n)) (Stt_notice STT_RECONNECTING)
         @ replicate (length draws - (MAX_RECONNECT_ATTEMPTS - n)) Stt_FATAL
     \<and> length (snd (snd (escalate n draws))) = min (length draws) (MAX_RECONNECT_ATTEMPTS - n)
     \<and> fst (escalate n draws) = min (n + length draws) MAX_RECONNECT_ATTEMPTS"
proof (induction n draws rule: escalate.induct)
  case (2 n j draws)
  show ?case
  proof (cases "n \<ge> MAX_RECONNECT_ATTEMPTS")
    case True
    with 2 show ?thesis by (simp add: split_beta)
  next
    case False
    then have "MAX_RECONNECT_ATTEMPTS - n = Suc (MAX_RECONNECT_ATTEMPTS - (n + 1))" by simp
    with 2 False show ?thesis by (simp add: split_beta)
  qed
qed simp

lemma retry_view_step:
  assumes "no_relief inp"
  shows "retry_view (stt_step u opts inp s) =
     (case drop_jitter inp of None \<Rightarrow> retry_view s | Some j \<Rightarrow> retry_view (handleDrop j [] s))"
proof (cases inp)
  case (Stt_in_socket now j i e)
  have same: "retry_view (handleDrop j m (s\<lparr>st_sockets := ss\<rparr>)) = retry_view (handleDrop j [] s)" for m ss
    unfolding retry_view_drop by (simp add: retry_defs)
  show ?thesis using assms Stt_in_socket by (cases e) (simp_all add: stt_socket_event_def same)
qed (use assms in \<open>simp_all add: sendAudio_def stt_commit_def retry_view_do, simp_all add: retry_defs\<close>)

lemma run_escalates:
  assumes "\<forall>inp \<in> set ins. no_relief inp" and "\<not> st_stopped s"
  shows "retry_view (stt_run u opts ins s) =
     (case escalate (st_attempt s) (List.map_filter drop_jitter ins) of (n, es, ds) \<Rightarrow>
        (False, n, errors_of s @ es, delays_of s @ ds))"
  using assms
proof (induction ins arbitrary: s)
  case Nil
  then show ?case by (simp add: stt_run_def retry_view_def map_filter_simps)
next
  case (Cons inp ins)
  let ?s = "stt_step u opts inp s"
  have run: "stt_run u opts (inp # ins) s = stt_run u opts ins ?s" by (simp add: stt_run_def)
  have now: "retry_view ?s = (case drop_jitter inp of None \<Rightarrow> retry_view s | Some j \<Rightarrow> retry_view (handleDrop j [] s))"
    using Cons.prems(1) by (intro retry_view_step) simp
  then have live: "\<not> st_stopped ?s"
    using Cons.prems(2) by (auto simp: retry_view_drop split: option.splits if_splits) (auto simp: retry_view_def)
  show ?case
  proof (cases "drop_jitter inp")
    case None
    with now have "st_attempt ?s = st_attempt s" "errors_of ?s = errors_of s" "delays_of ?s = delays_of s"
      by (simp_all add: retry_view_def)
    with Cons.IH [OF _ live] Cons.prems(1) None show ?thesis by (simp add: run map_filter_simps)
  next
    case (Some j)
    with now have "retry_view ?s = retry_view (handleDrop j [] s)" by simp
    then have "st_attempt ?s = (if st_attempt s \<ge> MAX_RECONNECT_ATTEMPTS then st_attempt s else st_attempt s + 1)"
      "errors_of ?s = errors_of s @ [if st_attempt s \<ge> MAX_RECONNECT_ATTEMPTS then Stt_FATAL else Stt_notice STT_RECONNECTING]"
      "delays_of ?s = delays_of s @ (if st_attempt s \<ge> MAX_RECONNECT_ATTEMPTS then [] else [backoffDelayMs (st_attempt s + 1) j])"
      using Cons.prems(2) by (simp_all add: retry_view_drop) (simp_all add: retry_view_def split: if_splits)
    with Cons.IH [OF _ live] Cons.prems(1) Some show ?thesis
      by (auto simp: run map_filter_simps split: prod.splits)
  qed
qed

section \<open>Properties\<close>

text \<open>
  C20: A row of failures is retried three times and then reported as fatal. From a client that is running and whose
  last socket had opened (\<open>attempt = 0\<close>), whatever else happens short of another opened socket, a close of
  the session or a message: the first three failures are announced as \<open>STT_RECONNECTING\<close>, each sets one
  retry timer, every further one is \<open>FATAL\<close> and sets none; the counter ends at the number of failures, at most three.
\<close>

theorem stt_failures_escalate:
  assumes "\<forall>inp \<in> set ins. no_relief inp" and "\<not> st_stopped s" and "st_attempt s = 0"
    and "k = length (List.map_filter drop_jitter ins)"
  shows "errors_of (stt_run u opts ins s)
           = errors_of s @ replicate (min k 3) (Stt_notice STT_RECONNECTING) @ replicate (k - 3) Stt_FATAL
     \<and> (\<exists>ds. delays_of (stt_run u opts ins s) = delays_of s @ ds \<and> length ds = min k 3)
     \<and> st_attempt (stt_run u opts ins s) = min k 3"
proof -
  obtain n es ds where e: "escalate 0 (List.map_filter drop_jitter ins) = (n, es, ds)" by (rule prod_cases3)
  have "es = replicate (min k 3) (Stt_notice STT_RECONNECTING) @ replicate (k - 3) Stt_FATAL \<and> length ds = min k 3 \<and> n = min k 3"
    using escalate_errors [of 0 "List.map_filter drop_jitter ins"] assms(4)
    by (simp add: e MAX_RECONNECT_ATTEMPTS_def)
  moreover have "errors_of (stt_run u opts ins s) = errors_of s @ es" "delays_of (stt_run u opts ins s) = delays_of s @ ds"
    "st_attempt (stt_run u opts ins s) = n"
    using run_escalates [OF assms(1,2), of u opts] assms(3) by (simp_all add: e retry_view_def)
  ultimately show ?thesis by blast
qed

definition demo_stt_options :: stt_options where
  "demo_stt_options =
     \<lparr>so_model = js ''scribe_v2_realtime'', so_region = Region_eu, so_languageCode = Some ''pl'',
      so_keyterms = [js '' OBS '', js ''obs''], so_noVerbatim = True\<rparr>"

definition demo_failures :: "stt_input list" where
  "demo_failures =
     [Stt_in_socket 0 0 0 (Sock_close 1006 []), Stt_in_timer 0, Stt_in_socket 0 1 1 (Sock_close 1006 []), Stt_in_timer 1,
      Stt_in_audio [1, 2] False, Stt_in_socket 0 0 2 (Sock_close 1006 []), Stt_in_timer 2, Stt_in_socket 0 0 3 (Sock_close 1006 [])]"

theorem stt_failures_escalate_witness:
  "errors_of (stt_run latin_tables demo_stt_options demo_failures (stt_start latin_tables demo_stt_options new_stt_client))
     = replicate 3 (Stt_notice STT_RECONNECTING) @ [Stt_FATAL]"
proof -
  let ?s = "stt_start latin_tables demo_stt_options new_stt_client"
  have v: "retry_view ?s = retry_view new_stt_client"
    by (simp add: stt_start_def) (simp add: retry_defs new_stt_client_def)
  then have s: "\<not> st_stopped ?s" "st_attempt ?s = 0" "errors_of ?s = []"
    by (simp_all add: retry_defs new_stt_client_def map_filter_simps)
  have ins: "\<forall>inp \<in> set demo_failures. no_relief inp" "4 = length (List.map_filter drop_jitter demo_failures)"
    by (simp_all add: demo_failures_def map_filter_simps)
  show ?thesis
    using stt_failures_escalate [OF ins(1) s(1,2) ins(2), of latin_tables demo_stt_options] s(3) by simp
qed

text \<open>
  One failure of a socket is an \<open>error\<close> and then a \<open>close\<close>, and both handlers call \<open>handleDrop\<close>: one
  failed connection spends two attempts and sets two timers, both timers connect, and of the
  two sockets only the last is closed with the session.
\<close>

lemma one_failure_opens_two_sockets:
  assumes "s = stt_run latin_tables demo_stt_options
     [Stt_in_start, Stt_in_socket 0 0 0 (Sock_error []), Stt_in_socket 0 0 0 (Sock_close 1006 []),
      Stt_in_timer 0, Stt_in_timer 1, Stt_in_socket 0 0 1 Sock_open, Stt_in_socket 0 0 2 Sock_open, Stt_in_close]
     new_stt_client"
  shows "delays_of s = [125, 250] \<and> st_sockets s = [False, True, False] \<and> st_socket s = None
     \<and> Eff_socket_close 1 1000 (js ''session closed'') \<notin> set (st_out s)"
  unfolding assms by code_simp

end
