(* ===== verification/Upstream_Tts.thy ===== *)
theory Upstream_Tts
  imports Upstream_Socket Session_Actor
begin

text \<open>
  \<open>apps/relay/src/providers/elevenlabs-tts.ts\<close>: the client of the voice service, one socket for the session.
  Its state is the record \<open>tts_client\<close>; what it does to the outside is the trace \<open>tt_out\<close>.
\<close>

section \<open>The URL\<close>

definition TTS_OUTPUT_FORMAT :: string where
  "TTS_OUTPUT_FORMAT = ''mp3_44100_128''"

definition INACTIVITY_TIMEOUT_SECONDS :: nat where
  "INACTIVITY_TIMEOUT_SECONDS = 180"

definition RECONNECT_DELAYS_MS :: "int list" where
  "RECONNECT_DELAYS_MS = [500, 2000]"

record tts_options =
  to_model :: jstring
  to_region :: elevenlabs_region
  to_voiceId :: jstring
  to_lang :: string
  to_speed :: jsnum

definition buildTtsUrl :: "tts_options \<Rightarrow> url" where
  "buildTtsUrl opts =
     \<lparr>url_scheme = ''wss'', url_host = elevenLabsHost (to_region opts),
      url_path = [js ''v1'', js ''text-to-speech'', to_voiceId opts, js ''stream-input''],
      url_query =
        [(''model_id'', to_model opts), (''output_format'', js TTS_OUTPUT_FORMAT), (''auto_mode'', js ''true''),
         (''inactivity_timeout'', js (show_nat INACTIVITY_TIMEOUT_SECONDS)), (''language_code'', js (to_lang opts))]\<rparr>"

section \<open>The client\<close>

record pending_utterance =
  pu_cardId :: string
  pu_lang :: string

text \<open>What is sent: the voice settings, a sentence, the end of the stream.\<close>

datatype tts_payload = Tts_settings jsnum | Tts_sentence jstring | Tts_end_of_stream

datatype tts_effect =
    Tts_connect nat url
  | Tts_send nat tts_payload
  | Tts_socket_close nat int jstring
  | Tts_set_timer nat int
  | Tts_clear_timer nat
  | Tts_on_audio string string jstring bool
  | Tts_on_error notice_code jstring

record tts_client =
  tt_socket :: "nat option"
  tt_opened :: bool
  tt_closed :: bool
  tt_unavailable :: bool
  tt_pending :: "pending_utterance list"
  tt_backlog :: "tts_payload list"
  tt_attempts :: nat
  tt_retryTimer :: "nat option"
  tt_timers :: "nat list"
  tt_sockets :: sockets
  tt_nextTimer :: nat
  tt_out :: "tts_effect list"

definition new_tts_client :: tts_client where
  "new_tts_client =
     \<lparr>tt_socket = None, tt_opened = False, tt_closed = False, tt_unavailable = False, tt_pending = [],
      tt_backlog = [], tt_attempts = 0, tt_retryTimer = None, tt_timers = [], tt_sockets = [], tt_nextTimer = 0, tt_out = []\<rparr>"

definition tt_do :: "tts_effect \<Rightarrow> tts_client \<Rightarrow> tts_client" where
  "tt_do e t = t\<lparr>tt_out := tt_out t @ [e]\<rparr>"

text \<open>\<open>this.socket?.send(payload)\<close>: a socket that is not open drops it.\<close>

definition tt_send :: "tts_payload \<Rightarrow> tts_client \<Rightarrow> tts_client" where
  "tt_send p t =
     (case tt_socket t of
        None \<Rightarrow> t
      | Some i \<Rightarrow> if is_open (tt_sockets t) (Some i) then tt_do (Tts_send i p) t else t)"

definition tts_start :: "tts_options \<Rightarrow> tts_client \<Rightarrow> tts_client" where
  "tts_start opts t =
     (if tt_socket t \<noteq> None \<or> tt_closed t \<or> tt_unavailable t then t
      else (case create_socket (tt_sockets t) of
              (i, ss) \<Rightarrow> tt_do (Tts_connect i (buildTtsUrl opts)) (t\<lparr>tt_socket := Some i, tt_sockets := ss\<rparr>)))"

definition tts_write :: "tts_options \<Rightarrow> tts_payload \<Rightarrow> tts_client \<Rightarrow> tts_client" where
  "tts_write opts p t =
     (if tt_unavailable t \<or> tt_closed t then t
      else
        let t = (if tt_socket t = None then tts_start opts t else t)
        in if tt_opened t then tt_send p t else t\<lparr>tt_backlog := tt_backlog t @ [p]\<rparr>)"

definition speak :: "tts_options \<Rightarrow> string \<Rightarrow> jstring \<Rightarrow> tts_client \<Rightarrow> tts_client" where
  "speak opts i s t =
     (let clean = trim s
      in if clean = [] \<or> tt_closed t \<or> tt_unavailable t then t
         else tts_write opts (Tts_sentence (clean @ js '' ''))
                (t\<lparr>tt_pending := tt_pending t @ [\<lparr>pu_cardId = i, pu_lang = to_lang opts\<rparr>]\<rparr>))"

definition cancelRetry :: "tts_client \<Rightarrow> tts_client" where
  "cancelRetry t =
     (case tt_retryTimer t of
        None \<Rightarrow> t
      | Some h \<Rightarrow> tt_do (Tts_clear_timer h)
          (t\<lparr>tt_retryTimer := None, tt_timers := filter (\<lambda>x. x \<noteq> h) (tt_timers t)\<rparr>))"

definition markUnavailable :: "tts_client \<Rightarrow> tts_client" where
  "markUnavailable t =
     cancelRetry (t\<lparr>tt_unavailable := True, tt_opened := False, tt_socket := None, tt_pending := [], tt_backlog := []\<rparr>)"

definition tts_close :: "tts_client \<Rightarrow> tts_client" where
  "tts_close t =
     (if tt_closed t then t
      else
        let t = cancelRetry (t\<lparr>tt_closed := True\<rparr>);
            t = (if tt_opened t then tt_send Tts_end_of_stream t else t);
            t = (case tt_socket t of
                   None \<Rightarrow> t
                 | Some i \<Rightarrow> tt_do (Tts_socket_close i 1000 (js ''session closed''))
                     (t\<lparr>tt_sockets := socket_close i (tt_sockets t)\<rparr>))
        in t\<lparr>tt_socket := None, tt_opened := False\<rparr>)"

definition handleOpen :: "tts_options \<Rightarrow> tts_client \<Rightarrow> tts_client" where
  "handleOpen opts t =
     (let t = tt_send (Tts_settings (to_speed opts)) (t\<lparr>tt_opened := True, tt_attempts := 0\<rparr>);
          queued = tt_backlog t
      in fold tt_send queued (t\<lparr>tt_backlog := []\<rparr>))"

definition handleClose :: "tts_client \<Rightarrow> tts_client" where
  "handleClose t =
     (let t = t\<lparr>tt_opened := False, tt_socket := None\<rparr>
      in if tt_closed t \<or> tt_unavailable t then t
         else (case at_index RECONNECT_DELAYS_MS (tt_attempts t) of
                 Some delay \<Rightarrow>
                   let h = tt_nextTimer t
                   in tt_do (Tts_set_timer h delay)
                        (t\<lparr>tt_attempts := tt_attempts t + 1, tt_retryTimer := Some h,
                            tt_timers := tt_timers t @ [h], tt_nextTimer := h + 1\<rparr>)
               | None \<Rightarrow> tt_do (Tts_on_error TTS_UNAVAILABLE (js ''voice socket closed'')) (markUnavailable t)))"

text \<open>A text that does not parse (\<open>None\<close>) or is not an object is ignored.\<close>

definition tts_handleMessage :: "json option \<Rightarrow> tts_client \<Rightarrow> tts_client" where
  "tts_handleMessage raw t =
     (case raw of
        None \<Rightarrow> t
      | Some parsed \<Rightarrow>
          if \<not> is_object parsed then t
          else
            let final = (json_field ''isFinal'' parsed = Some (JBool True));
                audio = as_string (json_field ''audio'' parsed)
            in (case tt_pending t of
                  [] \<Rightarrow> t
                | head # rest \<Rightarrow>
                    let t = (if truthy audio then tt_do (Tts_on_audio (pu_cardId head) (pu_lang head) (the audio) final) t else t)
                    in if final
                       then let t = t\<lparr>tt_pending := rest\<rparr>
                            in if truthy audio then t else tt_do (Tts_on_audio (pu_cardId head) (pu_lang head) [] True) t
                       else t))"

definition tts_socket_event :: "tts_options \<Rightarrow> nat \<Rightarrow> socket_event \<Rightarrow> tts_client \<Rightarrow> tts_client" where
  "tts_socket_event opts i e t =
     (let t = t\<lparr>tt_sockets := socket_flag i e (tt_sockets t)\<rparr>
      in (case e of
            Sock_open \<Rightarrow> handleOpen opts t
          | Sock_message raw \<Rightarrow> tts_handleMessage raw t
          | Sock_close code r \<Rightarrow> handleClose t
          | Sock_error msg \<Rightarrow> tt_do (Tts_on_error TTS_UNAVAILABLE msg) (markUnavailable t)))"

section \<open>Everything that can happen to the client\<close>

datatype tts_input =
    Tts_in_start
  | Tts_in_speak string jstring
  | Tts_in_close
  | Tts_in_socket nat socket_event
  | Tts_in_timer nat

text \<open>A timer that was cleared does not fire.\<close>

fun tts_step :: "tts_options \<Rightarrow> tts_input \<Rightarrow> tts_client \<Rightarrow> tts_client" where
  "tts_step opts Tts_in_start t = tts_start opts t"
| "tts_step opts (Tts_in_speak i s) t = speak opts i s t"
| "tts_step opts Tts_in_close t = tts_close t"
| "tts_step opts (Tts_in_socket i e) t = tts_socket_event opts i e t"
| "tts_step opts (Tts_in_timer h) t =
     (if h \<in> set (tt_timers t)
      then tts_start opts (t\<lparr>tt_timers := filter (\<lambda>x. x \<noteq> h) (tt_timers t), tt_retryTimer := None\<rparr>) else t)"

definition tts_run :: "tts_options \<Rightarrow> tts_input list \<Rightarrow> tts_client \<Rightarrow> tts_client" where
  "tts_run opts ins t = fold (tts_step opts) ins t"

section \<open>An undisturbed session\<close>

text \<open>Nothing closes: neither the socket nor the session, and there is one socket.\<close>

fun undisturbed :: "tts_input \<Rightarrow> bool" where
  "undisturbed Tts_in_close = False"
| "undisturbed (Tts_in_socket i (Sock_close c r)) = False"
| "undisturbed (Tts_in_socket i (Sock_error m)) = False"
| "undisturbed (Tts_in_socket i e) = (i = 0)"
| "undisturbed inp = True"

text \<open>What the studio and the projectors hear, and the sentences the service was given.\<close>

definition audio_of :: "tts_client \<Rightarrow> (string \<times> jstring \<times> bool) list" where
  "audio_of t = List.map_filter (\<lambda>e. case e of Tts_on_audio i l c f \<Rightarrow> Some (i, c, f) | _ \<Rightarrow> None) (tt_out t)"

definition sentences_sent :: "tts_client \<Rightarrow> jstring list" where
  "sentences_sent t =
     List.map_filter (\<lambda>e. case e of Tts_send i (Tts_sentence s) \<Rightarrow> Some s | _ \<Rightarrow> None) (tt_out t)"

definition sentences_waiting :: "tts_client \<Rightarrow> jstring list" where
  "sentences_waiting t = List.map_filter (\<lambda>p. case p of Tts_sentence s \<Rightarrow> Some s | _ \<Rightarrow> None) (tt_backlog t)"

text \<open>The reference: sentences are numbered as they are spoken; a piece of audio belongs to the
  sentence whose number is the number of sentences finished so far.\<close>

definition audio_piece :: "json option \<Rightarrow> jstring \<times> bool" where
  "audio_piece raw =
     (case raw of
        Some (JObj fs) \<Rightarrow>
          (case as_string (json_field ''audio'' (JObj fs)) of Some c \<Rightarrow> c | None \<Rightarrow> [],
           json_field ''isFinal'' (JObj fs) = Some (JBool True))
      | _ \<Rightarrow> ([], False))"

fun voice_log :: "tts_input list \<Rightarrow> string list \<Rightarrow> nat \<Rightarrow> (string \<times> jstring \<times> bool) list" where
  "voice_log [] spoken n = []"
| "voice_log (Tts_in_speak i s # ins) spoken n =
     voice_log ins (if trim s = [] then spoken else spoken @ [i]) n"
| "voice_log (Tts_in_socket k (Sock_message raw) # ins) spoken n =
     (case audio_piece raw of
        (c, final) \<Rightarrow>
          if n \<ge> length spoken \<or> (c = [] \<and> \<not> final) then voice_log ins spoken n
          else (spoken ! n, c, final) # voice_log ins spoken (if final then n + 1 else n))"
| "voice_log (inp # ins) spoken n = voice_log ins spoken n"

fun spoken_of :: "tts_input list \<Rightarrow> jstring list" where
  "spoken_of [] = []"
| "spoken_of (Tts_in_speak i s # ins) = (if trim s = [] then [] else [trim s @ js '' '']) @ spoken_of ins"
| "spoken_of (inp # ins) = spoken_of ins"

text \<open>The client between two inputs, \<open>n\<close> of the \<open>spoken\<close> cards finished.\<close>

definition voice_ok :: "string list \<Rightarrow> nat \<Rightarrow> tts_client \<Rightarrow> bool" where
  "voice_ok spoken n t \<longleftrightarrow>
     \<not> tt_closed t \<and> \<not> tt_unavailable t \<and> tt_socket t = Some 0 \<and> length (tt_sockets t) = 1
     \<and> (tt_opened t \<longrightarrow> tt_sockets t ! 0 \<and> tt_backlog t = []) \<and> tt_timers t = []
     \<and> n \<le> length spoken \<and> map pu_cardId (tt_pending t) = drop n spoken"

lemma audio_of_do [simp]:
  "audio_of (tt_do e t) = audio_of t @ (case e of Tts_on_audio i l c f \<Rightarrow> [(i, c, f)] | _ \<Rightarrow> [])"
  by (simp add: audio_of_def tt_do_def List.map_filter_def split: tts_effect.split)

lemma sent_of_do [simp]:
  "sentences_sent (tt_do e t) = sentences_sent t @ (case e of Tts_send i (Tts_sentence s) \<Rightarrow> [s] | _ \<Rightarrow> [])"
  by (simp add: sentences_sent_def tt_do_def List.map_filter_def split: tts_effect.split tts_payload.split)

lemma waiting_of_do [simp]: "sentences_waiting (tt_do e t) = sentences_waiting t"
  by (simp add: sentences_waiting_def tt_do_def)

lemma voice_ok_do [simp]: "voice_ok spoken n (tt_do e t) = voice_ok spoken n t"
  by (simp add: voice_ok_def tt_do_def)

text \<open>Three views of the trace and the backlog that no update of another field changes.\<close>

definition heard :: "tts_client \<Rightarrow> (string \<times> jstring \<times> bool) list \<times> jstring list \<times> jstring list" where
  "heard t = (audio_of t, sentences_sent t, sentences_waiting t)"

lemma heard_updates [simp]:
  "heard (t\<lparr>tt_pending := p\<rparr>) = heard t" "heard (t\<lparr>tt_sockets := ss\<rparr>) = heard t"
  "heard (t\<lparr>tt_opened := b\<rparr>) = heard t" "heard (t\<lparr>tt_attempts := k\<rparr>) = heard t"
  by (simp_all add: heard_def audio_of_def sentences_sent_def sentences_waiting_def)

lemma heard_send:
  assumes "tt_socket t = Some 0" "is_open (tt_sockets t) (Some 0)"
  shows "heard (tt_send p t) = (audio_of t, sentences_sent t @ (case p of Tts_sentence s \<Rightarrow> [s] | _ \<Rightarrow> []), sentences_waiting t)"
  using assms by (simp add: tt_send_def heard_def)

lemma fields_send [simp]:
  "tt_socket (tt_send p t) = tt_socket t" "tt_sockets (tt_send p t) = tt_sockets t"
  "tt_backlog (tt_send p t) = tt_backlog t" "voice_ok spoken n (tt_send p t) = voice_ok spoken n t"
  by (simp_all add: tt_send_def split: option.split) (simp_all add: tt_do_def)

lemma heard_flush:
  "tt_socket t = Some 0 \<Longrightarrow> is_open (tt_sockets t) (Some 0) \<Longrightarrow> tt_backlog t = [] \<Longrightarrow>
     heard (fold tt_send ps t) =
       (audio_of t, sentences_sent t @ List.map_filter (\<lambda>p. case p of Tts_sentence s \<Rightarrow> Some s | _ \<Rightarrow> None) ps, [])
     \<and> voice_ok spoken n (fold tt_send ps t) = voice_ok spoken n t"
proof (induction ps arbitrary: t)
  case Nil
  then show ?case by (simp add: heard_def sentences_waiting_def List.map_filter_def)
next
  case (Cons p ps)
  have "heard (tt_send p t) = (audio_of t, sentences_sent t @ (case p of Tts_sentence s \<Rightarrow> [s] | _ \<Rightarrow> []), sentences_waiting t)"
    using Cons.prems by (intro heard_send)
  then show ?case using Cons.IH [of "tt_send p t"] Cons.prems
    by (simp add: heard_def List.map_filter_def split: tts_payload.split)
qed

lemma voice_speak:
  assumes "voice_ok spoken n t" and "trim s \<noteq> []"
  shows "voice_ok (spoken @ [i]) n (speak opts i s t) \<and> audio_of (speak opts i s t) = audio_of t
     \<and> sentences_sent (speak opts i s t) @ sentences_waiting (speak opts i s t)
         = sentences_sent t @ sentences_waiting t @ [trim s @ js '' '']"
proof -
  let ?p = "\<lparr>pu_cardId = i, pu_lang = to_lang opts\<rparr>"
  let ?x = "trim s @ js '' ''"
  let ?t = "t\<lparr>tt_pending := tt_pending t @ [?p]\<rparr>"
  have ok: "voice_ok (spoken @ [i]) n ?t" using assms(1) by (simp add: voice_ok_def)
  have fields: "\<not> tt_closed t" "\<not> tt_unavailable t" "tt_socket t = Some 0" "length (tt_sockets t) = 1"
    "tt_opened t \<longrightarrow> tt_sockets t ! 0 \<and> tt_backlog t = []"
    using assms(1) by (auto simp: voice_ok_def)
  have run: "speak opts i s t =
      (if tt_opened t then tt_send (Tts_sentence ?x) ?t
       else ?t\<lparr>tt_backlog := tt_backlog t @ [Tts_sentence ?x]\<rparr>)"
    using assms(2) fields by (simp add: speak_def tts_write_def Let_def)
  show ?thesis
  proof (cases "tt_opened t")
    case True
    have "heard (tt_send (Tts_sentence ?x) ?t) = (audio_of ?t, sentences_sent ?t @ [?x], sentences_waiting ?t)"
      using heard_send [of ?t "Tts_sentence ?x"] fields True by (simp add: is_open_def)
    moreover have "sentences_waiting t = []" using fields True by (simp add: sentences_waiting_def List.map_filter_def)
    moreover have "heard ?t = heard t" by simp
    ultimately show ?thesis using run True ok by (simp add: heard_def)
  next
    case False
    have "voice_ok (spoken @ [i]) n (?t\<lparr>tt_backlog := b\<rparr>)" for b using ok False by (simp add: voice_ok_def)
    moreover have "audio_of (?t\<lparr>tt_backlog := b\<rparr>) = audio_of t" "sentences_sent (?t\<lparr>tt_backlog := b\<rparr>) = sentences_sent t" for b
      by (simp_all add: audio_of_def sentences_sent_def)
    moreover have "sentences_waiting (?t\<lparr>tt_backlog := tt_backlog t @ [Tts_sentence ?x]\<rparr>) = sentences_waiting t @ [?x]"
      by (simp add: sentences_waiting_def List.map_filter_def)
    ultimately show ?thesis using run False by simp
  qed
qed

lemma voice_open:
  assumes "voice_ok spoken n t"
  shows "voice_ok spoken n (tts_socket_event opts 0 Sock_open t) \<and> audio_of (tts_socket_event opts 0 Sock_open t) = audio_of t
     \<and> sentences_sent (tts_socket_event opts 0 Sock_open t) @ sentences_waiting (tts_socket_event opts 0 Sock_open t)
         = sentences_sent t @ sentences_waiting t"
proof -
  let ?t = "t\<lparr>tt_sockets := (tt_sockets t)[0 := True], tt_opened := True, tt_attempts := 0\<rparr>"
  let ?u = "tt_send (Tts_settings (to_speed opts)) ?t"
  have fields: "tt_socket t = Some 0" "length (tt_sockets t) = 1" using assms by (auto simp: voice_ok_def)
  then have sock: "tt_socket ?t = Some 0" "is_open (tt_sockets ?t) (Some 0)" by (simp_all add: is_open_def)
  have step: "tts_socket_event opts 0 Sock_open t = fold tt_send (tt_backlog t) (?u\<lparr>tt_backlog := []\<rparr>)"
    by (simp add: tts_socket_event_def handleOpen_def socket_flag_def Let_def)
  have "voice_ok spoken n (?t\<lparr>tt_backlog := []\<rparr>)"
    using assms by (auto simp: voice_ok_def)
  moreover have "voice_ok spoken n (?u\<lparr>tt_backlog := []\<rparr>) = voice_ok spoken n (tt_send (Tts_settings (to_speed opts)) (?t\<lparr>tt_backlog := []\<rparr>))"
    by (auto simp: voice_ok_def tt_send_def tt_do_def split: option.split)
  ultimately have ok: "voice_ok spoken n (?u\<lparr>tt_backlog := []\<rparr>)" by simp
  have "heard ?u = (audio_of ?t, sentences_sent ?t, sentences_waiting ?t)"
    using heard_send [OF sock] by simp
  moreover have "heard ?t = heard t" by simp
  moreover have "audio_of (?u\<lparr>tt_backlog := []\<rparr>) = audio_of ?u" "sentences_sent (?u\<lparr>tt_backlog := []\<rparr>) = sentences_sent ?u"
    by (simp_all add: audio_of_def sentences_sent_def)
  ultimately have "audio_of (?u\<lparr>tt_backlog := []\<rparr>) = audio_of t" "sentences_sent (?u\<lparr>tt_backlog := []\<rparr>) = sentences_sent t"
    by (simp_all add: heard_def)
  moreover have "heard (fold tt_send (tt_backlog t) (?u\<lparr>tt_backlog := []\<rparr>)) =
      (audio_of (?u\<lparr>tt_backlog := []\<rparr>), sentences_sent (?u\<lparr>tt_backlog := []\<rparr>) @ sentences_waiting t, [])
    \<and> voice_ok spoken n (fold tt_send (tt_backlog t) (?u\<lparr>tt_backlog := []\<rparr>)) = voice_ok spoken n (?u\<lparr>tt_backlog := []\<rparr>)"
    unfolding sentences_waiting_def by (rule heard_flush) (use sock in simp_all)
  ultimately show ?thesis using ok by (simp add: step heard_def)
qed

text \<open>One message of the service.\<close>

definition finished_by :: "string list \<Rightarrow> nat \<Rightarrow> json option \<Rightarrow> nat" where
  "finished_by spoken n raw = (if snd (audio_piece raw) \<and> n < length spoken then n + 1 else n)"

definition heard_by :: "string list \<Rightarrow> nat \<Rightarrow> json option \<Rightarrow> (string \<times> jstring \<times> bool) list" where
  "heard_by spoken n raw =
     (case audio_piece raw of (c, final) \<Rightarrow>
        if n \<ge> length spoken \<or> (c = [] \<and> \<not> final) then [] else [(spoken ! n, c, final)])"

lemma voice_message:
  assumes "voice_ok spoken n t"
  shows "voice_ok spoken (finished_by spoken n raw) (tts_handleMessage raw t)
     \<and> audio_of (tts_handleMessage raw t) = audio_of t @ heard_by spoken n raw
     \<and> sentences_sent (tts_handleMessage raw t) = sentences_sent t
     \<and> sentences_waiting (tts_handleMessage raw t) = sentences_waiting t"
proof (cases "\<exists>fs. raw = Some (JObj fs)")
  case False
  then have "audio_piece raw = ([], False)" by (auto simp: audio_piece_def split: option.splits json.splits)
  moreover have "json_field k j = None" if "raw = Some j" for j k using False that by (cases j) auto
  then have "tts_handleMessage raw t = t"
    by (cases raw) (auto simp: tts_handleMessage_def Let_def split: list.split)
  ultimately show ?thesis using assms by (simp add: finished_by_def heard_by_def)
next
  case True
  then obtain fs where raw: "raw = Some (JObj fs)" ..
  let ?final = "map_of fs ''isFinal'' = Some (JBool True)"
  let ?audio = "as_string (map_of fs ''audio'')"
  have piece: "audio_piece (Some (JObj fs)) = (case ?audio of Some c \<Rightarrow> c | None \<Rightarrow> [], ?final)"
    by (simp add: audio_piece_def)
  have upd: "audio_of (t\<lparr>tt_pending := p\<rparr>) = audio_of t" "sentences_sent (t\<lparr>tt_pending := p\<rparr>) = sentences_sent t"
    "sentences_waiting (t\<lparr>tt_pending := p\<rparr>) = sentences_waiting t" for t p
    by (simp_all add: audio_of_def sentences_sent_def sentences_waiting_def)
  show ?thesis
  proof (cases "tt_pending t")
    case Nil
    then have "n = length spoken" using assms by (auto simp: voice_ok_def)
    then show ?thesis using assms Nil by (simp add: tts_handleMessage_def raw finished_by_def heard_by_def split_beta)
  next
    case (Cons p rest)
    then have d: "drop n spoken = pu_cardId p # map pu_cardId rest" using assms by (simp add: voice_ok_def)
    then have lt: "n < length spoken" by (metis drop_all list.distinct(1) not_le)
    with d have n: "n < length spoken" "spoken ! n = pu_cardId p" "drop (Suc n) spoken = map pu_cardId rest"
      by (simp_all add: Cons_nth_drop_Suc [symmetric])
    have ok: "voice_ok spoken (Suc n) (t\<lparr>tt_pending := rest\<rparr>)" using assms n by (auto simp: voice_ok_def)
    have ok': "voice_ok spoken (Suc n) ((tt_do e t)\<lparr>tt_pending := rest\<rparr>)" for e
      using ok by (simp add: voice_ok_def tt_do_def)
    show ?thesis
      using assms n Cons ok ok'
      by (auto simp: tts_handleMessage_def raw finished_by_def heard_by_def piece upd Let_def truthy_iff split: option.splits)
  qed
qed

section \<open>Properties\<close>

lemma voice_run:
  assumes "\<forall>inp \<in> set ins. undisturbed inp" and "voice_ok spoken n t"
  shows "audio_of (tts_run opts ins t) = audio_of t @ voice_log ins spoken n
     \<and> sentences_sent (tts_run opts ins t) @ sentences_waiting (tts_run opts ins t)
         = sentences_sent t @ sentences_waiting t @ spoken_of ins
     \<and> (\<exists>spoken' n'. voice_ok spoken' n' (tts_run opts ins t))"
  using assms
proof (induction ins arbitrary: spoken n t)
  case Nil
  then show ?case by (auto simp: tts_run_def)
next
  case (Cons inp ins)
  have run: "tts_run opts (inp # ins) t = tts_run opts ins (tts_step opts inp t)" by (simp add: tts_run_def)
  have IH: "audio_of (tts_run opts ins t') = audio_of t' @ voice_log ins sp k
     \<and> sentences_sent (tts_run opts ins t') @ sentences_waiting (tts_run opts ins t')
         = sentences_sent t' @ sentences_waiting t' @ spoken_of ins
     \<and> (\<exists>spoken' n'. voice_ok spoken' n' (tts_run opts ins t'))" if "voice_ok sp k t'" for sp k t'
    using Cons.IH [OF _ that] Cons.prems(1) by simp
  have idle: "tts_step opts inp t = t" if "inp = Tts_in_start \<or> (\<exists>h. inp = Tts_in_timer h)"
    using that Cons.prems(2) by (auto simp: tts_start_def voice_ok_def)
  show ?case
  proof (cases inp)
    case Tts_in_start
    then show ?thesis using IH [OF Cons.prems(2)] idle run by simp
  next
    case (Tts_in_timer h)
    then show ?thesis using IH [OF Cons.prems(2)] idle run by simp
  next
    case (Tts_in_speak i s)
    show ?thesis
    proof (cases "trim s = []")
      case True
      then have "tts_step opts inp t = t" using Tts_in_speak by (simp add: speak_def)
      then show ?thesis using IH [OF Cons.prems(2)] run Tts_in_speak True by simp
    next
      case False
      from voice_speak [OF Cons.prems(2) False, of i opts]
      have ok: "voice_ok (spoken @ [i]) n (speak opts i s t)" and a: "audio_of (speak opts i s t) = audio_of t"
        and se: "sentences_sent (speak opts i s t) @ sentences_waiting (speak opts i s t)
          = sentences_sent t @ sentences_waiting t @ [trim s @ js '' '']" by simp_all
      from IH [OF ok] se have "sentences_sent (tts_run opts ins (speak opts i s t)) @ sentences_waiting (tts_run opts ins (speak opts i s t))
          = (sentences_sent t @ sentences_waiting t @ [trim s @ js '' '']) @ spoken_of ins"
        by (simp only: append_assoc [symmetric])
      then show ?thesis using IH [OF ok] a run Tts_in_speak False by simp
    qed
  next
    case (Tts_in_socket k e)
    show ?thesis
    proof (cases e)
      case Sock_open
      with Tts_in_socket Cons.prems(1) have k: "k = 0" by simp
      from voice_open [OF Cons.prems(2), of opts]
      have ok: "voice_ok spoken n (tts_socket_event opts 0 Sock_open t)"
        and a: "audio_of (tts_socket_event opts 0 Sock_open t) = audio_of t"
        and se: "sentences_sent (tts_socket_event opts 0 Sock_open t) @ sentences_waiting (tts_socket_event opts 0 Sock_open t)
         = sentences_sent t @ sentences_waiting t" by simp_all
      have "tts_run opts (inp # ins) t = tts_run opts ins (tts_socket_event opts 0 Sock_open t)"
        unfolding run by (simp add: Tts_in_socket Sock_open k)
      moreover from IH [OF ok] se
      have "sentences_sent (tts_run opts ins (tts_socket_event opts 0 Sock_open t))
          @ sentences_waiting (tts_run opts ins (tts_socket_event opts 0 Sock_open t))
          = (sentences_sent t @ sentences_waiting t) @ spoken_of ins"
        by (simp only: append_assoc [symmetric])
      ultimately show ?thesis using IH [OF ok] a by (simp add: Tts_in_socket Sock_open)
    next
      case (Sock_message raw)
      have step: "tts_step opts inp t = tts_handleMessage raw t"
        using Tts_in_socket Sock_message by (simp add: tts_socket_event_def socket_flag_def)
      note v = voice_message [OF Cons.prems(2), of raw]
      have "heard_by spoken n raw @ voice_log ins spoken (finished_by spoken n raw) = voice_log (inp # ins) spoken n"
        by (auto simp: Tts_in_socket Sock_message heard_by_def finished_by_def split: prod.splits)
      then show ?thesis using IH [OF conjunct1 [OF v]] v
        by (simp add: run step) (simp add: Tts_in_socket Sock_message)
    qed (use Cons.prems(1) Tts_in_socket in simp_all)
  qed (use Cons.prems(1) in simp)
qed

text \<open>
  C18: The voice keeps its order and its attribution. While neither the socket nor the session closes, the
  service is given every spoken sentence once and in the order spoken (those not sent yet wait in the backlog,
  which is empty once the socket has opened), and every piece of audio passed on carries the card of the
  sentence it belongs to: the one whose number is the number of sentences the service has finished so far.
\<close>

theorem voice_keeps_order:
  assumes "\<forall>inp \<in> set ins. undisturbed inp" and "t = tts_run opts ins (tts_start opts new_tts_client)"
  shows "audio_of t = voice_log ins [] 0 \<and> sentences_sent t @ sentences_waiting t = spoken_of ins
     \<and> (tt_opened t \<longrightarrow> sentences_waiting t = [])"
proof -
  let ?t = "tts_start opts new_tts_client"
  have ok: "voice_ok [] 0 ?t"
    by (simp add: voice_ok_def tts_start_def new_tts_client_def create_socket_def tt_do_def)
  have z: "audio_of ?t = []" "sentences_sent ?t = []" "sentences_waiting ?t = []"
    by (simp_all add: audio_of_def sentences_sent_def sentences_waiting_def tts_start_def new_tts_client_def
        create_socket_def tt_do_def List.map_filter_def)
  from voice_run [OF assms(1) ok, of opts] obtain spoken n where "voice_ok spoken n t"
    unfolding assms(2) by blast
  then have "tt_opened t \<longrightarrow> sentences_waiting t = []"
    by (simp add: voice_ok_def sentences_waiting_def List.map_filter_def)
  then show ?thesis using voice_run [OF assms(1) ok, of opts] z by (simp add: assms(2))
qed

definition demo_tts_options :: tts_options where
  "demo_tts_options =
     \<lparr>to_model = js ''eleven_flash_v2_5'', to_region = Region_eu, to_voiceId = js ''v'', to_lang = ''en'', to_speed = 1\<rparr>"

definition voice_msg :: "string \<Rightarrow> bool \<Rightarrow> socket_event" where
  "voice_msg chunk final = Sock_message (Some (JObj [(''audio'', JStr (js chunk)), (''isFinal'', JBool final)]))"

definition demo_voice :: "tts_input list" where
  "demo_voice =
     [Tts_in_speak ''c1'' (js ''one''), Tts_in_socket 0 Sock_open, Tts_in_speak ''c2'' (js ''two''),
      Tts_in_socket 0 (voice_msg ''AA'' False), Tts_in_socket 0 (voice_msg ''BB'' True), Tts_in_socket 0 (voice_msg ''CC'' True)]"

theorem voice_keeps_order_witness:
  "audio_of (tts_run demo_tts_options demo_voice (tts_start demo_tts_options new_tts_client))
     = [(''c1'', js ''AA'', False), (''c1'', js ''BB'', True), (''c2'', js ''CC'', True)]"
proof -
  have "\<forall>inp \<in> set demo_voice. undisturbed inp" by (simp add: demo_voice_def voice_msg_def)
  from voice_keeps_order [OF this refl, of demo_tts_options]
  have "audio_of (tts_run demo_tts_options demo_voice (tts_start demo_tts_options new_tts_client)) = voice_log demo_voice [] 0"
    by blast
  then show ?thesis by (simp, code_simp)
qed

text \<open>
  A socket that drops in the middle of a sentence leaves that sentence at the head of \<open>pending\<close>: after the reconnect
  the audio of the next sentence is passed on under the card of the lost one.
\<close>

lemma drop_shifts_attribution:
  "audio_of (tts_run demo_tts_options
     [Tts_in_socket 0 Sock_open, Tts_in_speak ''c1'' (js ''one''), Tts_in_socket 0 (voice_msg ''AA'' False),
      Tts_in_socket 0 (Sock_close 1006 []), Tts_in_timer 0, Tts_in_socket 1 Sock_open,
      Tts_in_speak ''c2'' (js ''two''), Tts_in_socket 1 (voice_msg ''BB'' True)]
     (tts_start demo_tts_options new_tts_client))
   = [(''c1'', js ''AA'', False), (''c1'', js ''BB'', True)]"
  by code_simp

text \<open>The pause before a reconnect holds for the timer only: a sentence spoken in it opens a socket at once.\<close>

lemma speaking_skips_the_backoff:
  "tt_sockets (tts_run demo_tts_options
     [Tts_in_socket 0 Sock_open, Tts_in_socket 0 (Sock_close 1006 []), Tts_in_speak ''c1'' (js ''one'')]
     (tts_start demo_tts_options new_tts_client)) = [False, False]"
  by code_simp

end
