(* ===== verification/Openrouter.thy ===== *)
theory Openrouter
  imports Upstream_Socket Translation
begin

text \<open>
  \<open>apps/relay/src/providers/openrouter.ts\<close>: the translation call and the management of the per-user keys.
  The network is the parameter \<open>fetch\<close>, a function of the request; a rejected promise is an error value.
\<close>

section \<open>Requests and answers\<close>

record http_request =
  hq_method :: string
  hq_url :: jstring
  hq_authorization :: jstring
  hq_body :: "json option"

text \<open>\<open>hr_body\<close> is \<open>None\<close> when the body is not JSON and \<open>json()\<close> rejects.\<close>

record http_response =
  hr_ok :: bool
  hr_status :: int
  hr_body :: "json option"

text \<open>\<open>OpenRouterError\<close> with its status, a rejected \<open>fetch\<close> (None), a rejected \<open>json()\<close>, a \<open>TypeError\<close>.\<close>

datatype openrouter_error = Openrouter_error int string | Network_error | Body_error | Type_error

type_synonym fetch_impl = "http_request \<Rightarrow> http_response option"

section \<open>Translation\<close>

record translate_params =
  tp_apiKey :: jstring
  tp_model :: jstring
  tp_srcLang :: jstring
  tp_dstLang :: jstring
  tp_glossary :: "jstring list"
  tp_context :: "jstring list"
  tp_text :: jstring

text \<open>\<open>raw.replace(/\s+/g, ' ')\<close>: every run of white space becomes one space.\<close>

function collapse_ws :: "jstring \<Rightarrow> jstring" where
  "collapse_ws [] = []"
| "collapse_ws (c # s) = (if is_ws c then 32 # collapse_ws (dropWhile is_ws s) else c # collapse_ws s)"
  by pat_completeness auto

termination
  by (relation "measure length") (simp_all add: length_dropWhile_le le_imp_less_Suc)

definition sanitiseTranslation :: "jstring \<Rightarrow> jstring \<Rightarrow> jstring" where
  "sanitiseTranslation raw source =
     (let limit = max 120 (length source * 3) in take limit (collapse_ws (trim raw)))"

definition maxTokensFor :: "jstring \<Rightarrow> nat" where
  "maxTokensFor s = min 512 (max 64 ((length s + 1) div 2))"

text \<open>\<open>choices[0]\<close> may be \<open>null\<close>, and reading a field of it then throws (\<open>Inl\<close>).\<close>

definition readFirstChoice :: "json \<Rightarrow> openrouter_error + jstring option" where
  "readFirstChoice body =
     (if \<not> is_object body then Inr None
      else (case json_field ''choices'' body of
              Some (JArr (first # rest)) \<Rightarrow>
                if first = JNull then Inl Type_error
                else Inr (case json_field ''message'' first of
                            Some msg \<Rightarrow> as_string (json_field ''content'' msg)
                          | None \<Rightarrow> None)
            | _ \<Rightarrow> Inr None))"

definition chat_request :: "jstring \<Rightarrow> jstring \<Rightarrow> jstring \<Rightarrow> jstring \<Rightarrow> nat \<Rightarrow> http_request" where
  "chat_request apiKey model system user maxTokens =
     \<lparr>hq_method = ''POST'', hq_url = js (OPENROUTER_BASE_URL @ ''/chat/completions''),
      hq_authorization = js ''Bearer '' @ apiKey,
      hq_body = Some (JObj
        [(''model'', JStr model), (''max_tokens'', JNum (of_nat maxTokens)), (''temperature'', JNum (2 / 10)),
         (''messages'', JArr
            [JObj [(''role'', JStr (js ''system'')), (''content'', JStr system)],
             JObj [(''role'', JStr (js ''user'')), (''content'', JStr user)]])])\<rparr>"

definition chatCompletion ::
    "fetch_impl \<Rightarrow> jstring \<Rightarrow> jstring \<Rightarrow> jstring \<Rightarrow> jstring \<Rightarrow> nat \<Rightarrow> openrouter_error + jstring" where
  "chatCompletion fetch apiKey model system user maxTokens =
     (case fetch (chat_request apiKey model system user maxTokens) of
        None \<Rightarrow> Inl Network_error
      | Some response \<Rightarrow>
          if \<not> hr_ok response then Inl (Openrouter_error (hr_status response) ''chat completion failed'')
          else (case hr_body response of
                  None \<Rightarrow> Inl Body_error
                | Some body \<Rightarrow>
                    (case readFirstChoice body of
                       Inl e \<Rightarrow> Inl e
                     | Inr None \<Rightarrow> Inl (Openrouter_error (hr_status response) ''chat completion had no content'')
                     | Inr (Some content) \<Rightarrow> Inr content)))"

definition translate :: "fetch_impl \<Rightarrow> translate_params \<Rightarrow> openrouter_error + jstring" where
  "translate fetch params =
     (let system = buildTranslationPrompt
            \<lparr>pp_srcLang = tp_srcLang params, pp_dstLang = tp_dstLang params,
             pp_glossary = tp_glossary params, pp_context = tp_context params\<rparr>
      in (case chatCompletion fetch (tp_apiKey params) (tp_model params) system
                 (wrapTranscript (tp_text params)) (maxTokensFor (tp_text params)) of
            Inl e \<Rightarrow> Inl e
          | Inr raw \<Rightarrow> Inr (sanitiseTranslation raw (tp_text params))))"

section \<open>Runtime keys\<close>

record runtime_key =
  rk_key :: jstring
  rk_hash :: jstring
  rk_limitUsd :: "rat option"

definition parseRuntimeKey :: "json \<Rightarrow> openrouter_error + runtime_key" where
  "parseRuntimeKey body =
     (let unexpected = Inl (Openrouter_error 200 ''management API returned an unexpected body'');
          data = json_field ''data'' body
      in if \<not> is_object body then unexpected
         else (case (as_string (json_field ''key'' body),
                     as_string (case data of Some d \<Rightarrow> json_field ''hash'' d | None \<Rightarrow> None)) of
                 (Some key, Some hash) \<Rightarrow>
                   Inr \<lparr>rk_key = key, rk_hash = hash,
                        rk_limitUsd = (case data of
                          Some d \<Rightarrow> (case json_field ''limit'' d of Some (JNum n) \<Rightarrow> Some n | _ \<Rightarrow> None)
                        | None \<Rightarrow> None)\<rparr>
               | _ \<Rightarrow> unexpected))"

definition management_request ::
    "fetch_impl \<Rightarrow> jstring \<Rightarrow> string \<Rightarrow> jstring \<Rightarrow> json option \<Rightarrow> openrouter_error + json" where
  "management_request fetch managementKey meth path payload =
     (case fetch \<lparr>hq_method = meth, hq_url = js OPENROUTER_BASE_URL @ path,
                  hq_authorization = js ''Bearer '' @ managementKey, hq_body = payload\<rparr> of
        None \<Rightarrow> Inl Network_error
      | Some response \<Rightarrow>
          if \<not> hr_ok response then Inl (Openrouter_error (hr_status response) (meth @ '' failed''))
          else if meth = ''DELETE'' then Inr JNull
          else (case hr_body response of None \<Rightarrow> Inl Body_error | Some body \<Rightarrow> Inr body))"

definition createRuntimeKey :: "fetch_impl \<Rightarrow> jstring \<Rightarrow> jstring \<Rightarrow> rat \<Rightarrow> openrouter_error + runtime_key" where
  "createRuntimeKey fetch managementKey name limitUsd =
     (case management_request fetch managementKey ''POST'' (js ''/keys'')
             (Some (JObj [(''name'', JStr name), (''limit'', JNum limitUsd), (''limit_reset'', JNull)])) of
        Inl e \<Rightarrow> Inl e
      | Inr body \<Rightarrow> parseRuntimeKey body)"

text \<open>The hash as it stands in the path is the library's percent encoding, a parameter.\<close>

definition updateRuntimeKey ::
    "fetch_impl \<Rightarrow> (jstring \<Rightarrow> jstring) \<Rightarrow> jstring \<Rightarrow> jstring \<Rightarrow> rat option \<Rightarrow> bool option \<Rightarrow> openrouter_error + unit" where
  "updateRuntimeKey fetch encodeURIComponent managementKey keyHash limitUsd disabled =
     (case management_request fetch managementKey ''PATCH'' (js ''/keys/'' @ encodeURIComponent keyHash)
             (Some (JObj ((case limitUsd of None \<Rightarrow> [] | Some n \<Rightarrow> [(''limit'', JNum n)])
                          @ (case disabled of None \<Rightarrow> [] | Some b \<Rightarrow> [(''disabled'', JBool b)])))) of
        Inl e \<Rightarrow> Inl e
      | Inr body \<Rightarrow> Inr ())"

definition deleteRuntimeKey :: "fetch_impl \<Rightarrow> (jstring \<Rightarrow> jstring) \<Rightarrow> jstring \<Rightarrow> jstring \<Rightarrow> openrouter_error + unit" where
  "deleteRuntimeKey fetch encodeURIComponent managementKey keyHash =
     (case management_request fetch managementKey ''DELETE'' (js ''/keys/'' @ encodeURIComponent keyHash) None of
        Inl e \<Rightarrow> Inl e
      | Inr body \<Rightarrow> Inr ())"

section \<open>What can reach a screen\<close>

fun single_spaced :: "jstring \<Rightarrow> bool" where
  "single_spaced (c # d # s) \<longleftrightarrow> \<not> (is_ws c \<and> is_ws d) \<and> single_spaced (d # s)"
| "single_spaced s \<longleftrightarrow> True"

lemma collapse_ws_hd: "collapse_ws s = c # r \<Longrightarrow> is_ws c \<Longrightarrow> s \<noteq> [] \<and> is_ws (hd s)"
  by (cases s) (auto split: if_splits)

lemma collapse_ws_spaces: "c \<in> set (collapse_ws s) \<Longrightarrow> is_ws c \<Longrightarrow> c = 32"
  by (induction s rule: collapse_ws.induct) (auto split: if_splits)

lemma collapse_ws_single: "single_spaced (collapse_ws s)"
proof (induction s rule: collapse_ws.induct)
  case (2 c s)
  show ?case
  proof (cases "is_ws c")
    case True
    let ?r = "collapse_ws (dropWhile is_ws s)"
    have "\<not> is_ws (hd ?r)" if "?r \<noteq> []"
      using that collapse_ws_hd [of "dropWhile is_ws s" "hd ?r" "tl ?r"]
      by (metis hd_dropWhile list.collapse)
    then show ?thesis using 2(1) [OF True] True by (cases ?r) auto
  next
    case False
    then show ?thesis using 2(2) [OF False] by (cases "collapse_ws s") auto
  qed
qed simp

lemma single_spaced_take: "single_spaced s \<Longrightarrow> single_spaced (take n s)"
proof (induction s arbitrary: n rule: single_spaced.induct)
  case (1 c d s)
  show ?case
  proof (cases n)
    case (Suc m)
    then show ?thesis using 1(1) [of m] "1.prems" by (cases m) auto
  qed simp
qed (auto simp: take_Cons' split: if_splits)

text \<open>Collapsing is splitting at white space and joining with spaces.\<close>

lemma collapse_ws_word: "\<forall>c \<in> set w. \<not> is_ws c \<Longrightarrow> collapse_ws (w @ s) = w @ collapse_ws s"
  by (induction w) auto

lemma split_ws_not_Nil: "split_ws s \<noteq> []"
  by (subst split_ws_eq) simp

lemma collapse_ws_split: "collapse_ws s = unwords (split_ws s)"
proof (induction s rule: split_ws.induct)
  case (1 s)
  let ?w = "takeWhile (\<lambda>c. \<not> is_ws c) s" and ?r = "dropWhile (\<lambda>c. \<not> is_ws c) s"
  have w: "collapse_ws s = ?w @ collapse_ws ?r"
  proof -
    have "\<forall>c \<in> set ?w. \<not> is_ws c" by (auto dest: set_takeWhileD)
    from collapse_ws_word [OF this, of ?r] show ?thesis by (simp only: takeWhile_dropWhile_id)
  qed
  show ?case
  proof (cases "?r = []")
    case True
    then have "split_ws s = [?w]" by (subst split_ws_eq) simp
    then show ?thesis using w True by simp
  next
    case False
    let ?p = "split_ws (dropWhile is_ws ?r)"
    obtain c s' where r: "?r = c # s'" using False by (cases ?r) auto
    then have "is_ws c" by (metis hd_dropWhile list.sel(1) False)
    then have "collapse_ws ?r = 32 # collapse_ws (dropWhile is_ws ?r)" by (simp add: r)
    moreover have "collapse_ws (dropWhile is_ws ?r) = unwords ?p" using 1 [OF refl refl False] .
    moreover have "split_ws s = ?w # ?p" by (simp only: split_ws_eq [of s] False if_False)
    moreover have "?p \<noteq> []" by (rule split_ws_not_Nil)
    then have "unwords (?w # ?p) = ?w @ 32 # unwords ?p" by (simp add: join_Cons)
    ultimately show ?thesis using w by (simp only:)
  qed
qed

lemma split_ws_inner:
  "s \<noteq> [] \<Longrightarrow> \<not> is_ws (hd s) \<Longrightarrow> \<not> is_ws (last s) \<Longrightarrow> [] \<notin> set (split_ws s)"
proof (induction s rule: split_ws.induct)
  case (1 s)
  let ?w = "takeWhile (\<lambda>c. \<not> is_ws c) s" and ?r = "dropWhile (\<lambda>c. \<not> is_ws c) s"
  have w: "?w \<noteq> []" using "1.prems" by (cases s) auto
  show ?case
  proof (cases "?r = []")
    case True
    then show ?thesis using w by (subst split_ws_eq) auto
  next
    case False
    let ?d = "dropWhile is_ws ?r"
    have l: "last ?r = last s" using False by (metis append_is_Nil_conv last_appendR takeWhile_dropWhile_id)
    have d: "?d \<noteq> []" using "1.prems"(3) l False by (metis dropWhile_eq_Nil_conv last_in_set)
    then have "last ?d = last s" using l by (metis last_appendR takeWhile_dropWhile_id)
    moreover have "\<not> is_ws (hd ?d)" using d hd_dropWhile by blast
    ultimately have "[] \<notin> set (split_ws ?d)" using 1(1) [OF refl refl False d] "1.prems"(3) by simp
    then show ?thesis using w False by (subst split_ws_eq) auto
  qed
qed

lemma collapse_trimmed: "collapse_ws (trim s) = unwords (words s)"
proof (cases "trim s = []")
  case True
  have "words s = words (trim s)" by simp
  also have "\<dots> = []" by (simp only: True words_Nil)
  finally show ?thesis using True by simp
next
  case False
  have "\<not> is_ws (last (trim s))" using False unfolding trim_def by (metis hd_dropWhile last_rev rev.simps(1))
  moreover have "\<not> is_ws (hd (trim s))"
  proof -
    have "trim_start s \<noteq> []" using False by (auto simp: trim_def)
    then have "\<not> is_ws (hd (trim_start s))" unfolding trim_start_def by (metis hd_dropWhile)
    moreover have "\<exists>e. trim_start s = trim s @ e" unfolding trim_def
      by (metis rev_append rev_rev_ident takeWhile_dropWhile_id)
    ultimately show ?thesis using False by (metis hd_append)
  qed
  ultimately have "[] \<notin> set (split_ws (trim s))" using False by (intro split_ws_inner)
  then have "words (trim s) = split_ws (trim s)" unfolding words_def by (intro filter_True) auto
  then show ?thesis by (simp add: collapse_ws_split)
qed

text \<open>What the service answered, when it answered with a text.\<close>

definition answered :: "fetch_impl \<Rightarrow> http_request \<Rightarrow> jstring option" where
  "answered fetch req =
     (case fetch req of
        Some r \<Rightarrow>
          (case hr_body r of
             Some b \<Rightarrow> if hr_ok r then (case readFirstChoice b of Inr c \<Rightarrow> c | Inl e \<Rightarrow> None) else None
           | None \<Rightarrow> None)
      | None \<Rightarrow> None)"

section \<open>Property\<close>

text \<open>
  C21: What a translation call can put on a screen. For any network and any model: the call makes one request, whose
  answer alone decides it. It returns a text exactly when the answer has one, and then that text is the words of the answer
  joined by single spaces and cut at 120 characters or three times the source, whichever is more; so it has no other white space,
  and nothing follows from how long or how formatted the answer was. In every other case it is an error value.
\<close>

theorem translation_is_contained:
  "(let req = chat_request (tp_apiKey params) (tp_model params)
         (buildTranslationPrompt \<lparr>pp_srcLang = tp_srcLang params, pp_dstLang = tp_dstLang params,
            pp_glossary = tp_glossary params, pp_context = tp_context params\<rparr>)
         (wrapTranscript (tp_text params)) (maxTokensFor (tp_text params))
    in (case answered fetch req of
          None \<Rightarrow> (\<exists>e. translate fetch params = Inl e)
        | Some content \<Rightarrow>
            translate fetch params
              = Inr (take (max 120 (3 * length (tp_text params))) (unwords (words content)))))
   \<and> (case translate fetch params of
        Inl e \<Rightarrow> True
      | Inr s \<Rightarrow> length s \<le> max 120 (3 * length (tp_text params)) \<and> single_spaced s \<and> (\<forall>c \<in> set s. is_ws c \<longrightarrow> c = 32))"
proof -
  have s: "length s \<le> max 120 (3 * length (tp_text params)) \<and> single_spaced s \<and> (\<forall>c \<in> set s. is_ws c \<longrightarrow> c = 32)"
    if "s = sanitiseTranslation raw (tp_text params)" for s raw
    using that by (auto simp: sanitiseTranslation_def Let_def single_spaced_take collapse_ws_single
        dest: in_set_takeD collapse_ws_spaces)
  show ?thesis
    by (auto simp: translate_def Let_def s answered_def chatCompletion_def sanitiseTranslation_def collapse_trimmed
        mult.commute split: sum.splits option.splits)
qed

definition demo_fetch :: fetch_impl where
  "demo_fetch req = Some \<lparr>hr_ok = True, hr_status = 200, hr_body = Some (JObj [(''choices'', JArr
     [JObj [(''message'', JObj [(''content'', JStr (js '' Good  evening '' @ [10] @ js ''all ''))])]])])\<rparr>"

definition demo_params :: translate_params where
  "demo_params = \<lparr>tp_apiKey = [], tp_model = [], tp_srcLang = js ''pl'', tp_dstLang = js ''en'', tp_glossary = [],
     tp_context = [], tp_text = js ''Dobry wieczor''\<rparr>"

theorem translation_is_contained_witness:
  "translate demo_fetch demo_params = Inr (js ''Good evening all'')"
proof -
  have "answered demo_fetch req = Some (js '' Good  evening '' @ [10] @ js ''all '')" for req
    by (simp add: answered_def demo_fetch_def readFirstChoice_def)
  then have "translate demo_fetch demo_params
      = Inr (take (max 120 (3 * length (tp_text demo_params))) (unwords (words (js '' Good  evening '' @ [10] @ js ''all ''))))"
    using translation_is_contained [where fetch = demo_fetch and params = demo_params] by (simp add: Let_def)
  moreover have "unwords (words (js '' Good  evening '' @ [10] @ js ''all '')) = js ''Good evening all''" by code_simp
  ultimately show ?thesis by (simp add: js_def)
qed

end
