(* ===== verification/Session_Assembly.thy ===== *)
theory Session_Assembly
  imports Upstream_Stt Upstream_Tts Openrouter Secrets Session_Actor Ledger_Gateway
begin

text \<open>
  \<open>apps/relay/src/index.ts\<close>: how a verified token becomes a session (\<open>buildSession\<close>), the per-user key
  of the translation service, the projector lookup; and the fingerprints of
  \<open>apps/relay/src/logger.ts\<close>. The network, the cipher, sha-256 and UTF-8 are parameters.
\<close>

section \<open>logger.ts\<close>

definition REDACT_KEYS :: "string list" where
  "REDACT_KEYS =
     [''text'', ''transcript'', ''partial'', ''committed'', ''cards'', ''audio'', ''audio_base_64'', ''pcm'', ''chunk'',
      ''jwt'', ''token'', ''projectorToken'', ''apiKey'', ''key'', ''keyEnc'', ''authorization'', ''xi-api-key'', ''email'', ''password'']"

definition REDACT_PATHS :: "string list" where
  "REDACT_PATHS = concat (map (\<lambda>key. [key, ''*.'' @ key, ''*.*.'' @ key]) REDACT_KEYS)"

definition shortHash :: "(string \<Rightarrow> string) \<Rightarrow> string \<Rightarrow> string" where
  "shortHash sha256_hex input = take 8 (sha256_hex input)"

text \<open>After the last at-sign, or the whole address when there is none (\<open>lastIndexOf\<close> is -1).\<close>

definition after_last :: "char \<Rightarrow> string \<Rightarrow> string" where
  "after_last c s = rev (takeWhile (\<lambda>x. x \<noteq> c) (rev s))"

definition emailFingerprint :: "(string \<Rightarrow> string) \<Rightarrow> string \<Rightarrow> string" where
  "emailFingerprint sha256_hex email =
     (let domain = (if CHR ''@'' \<notin> set email then ''unknown'' else ascii_lower (after_last (CHR ''@'') email))
      in shortHash sha256_hex (ascii_lower email) @ ''@'' @ domain)"

definition tokenFingerprint :: "(string \<Rightarrow> string) \<Rightarrow> string \<Rightarrow> string" where
  "tokenFingerprint sha256_hex token = shortHash sha256_hex token"

definition ipFingerprint :: "(string \<Rightarrow> string) \<Rightarrow> string \<Rightarrow> string \<Rightarrow> string" where
  "ipFingerprint sha256_hex ip salt = shortHash sha256_hex (salt @ '':'' @ ip)"

section \<open>Projector routing\<close>

record caption_session_row =
  cs_id :: string
  cs_projectorTokenHash :: string
  cs_ended :: bool

text \<open>The row found by the digest; the registry then says whether the session runs in this process.\<close>

definition resolveProjectorSession :: "(string \<Rightarrow> nat list) \<Rightarrow> caption_session_row list \<Rightarrow> string \<Rightarrow> string option" where
  "resolveProjectorSession sha256 rows token =
     map_option cs_id (find (\<lambda>r. cs_projectorTokenHash r = hashProjectorToken sha256 token \<and> \<not> cs_ended r) rows)"

section \<open>The voice, the glossary\<close>

text \<open>\<open>cfg.voice.lang ?? cfg.dstLangs[0] ?? null\<close>.\<close>

definition resolveVoiceLang :: "session_config \<Rightarrow> string option" where
  "resolveVoiceLang cfg =
     (if \<not> vc_enabled (sc_voice cfg) then None
      else (case vc_lang (sc_voice cfg) of
              Some l \<Rightarrow> Some l
            | None \<Rightarrow> at_index (sc_dstLangs cfg) 0))"

definition loadGlossaryTerms :: "(string \<times> jstring list) list \<Rightarrow> string option \<Rightarrow> jstring list" where
  "loadGlossaryTerms rows glossaryId =
     (if \<not> truthy glossaryId then []
      else (case map_of rows (the glossaryId) of None \<Rightarrow> [] | Some terms \<Rightarrow> terms))"

section \<open>The key of the translation service\<close>

definition providerKeyCeilingUsd :: "jsnum \<Rightarrow> int" where
  "providerKeyCeilingUsd credits =
     (let bestRate = foldl (\<lambda>best pack. max best (of_int (price_eur (pack_price pack)) / 100 / of_int (pack_credits pack))) 0 TOPUP_PACKS
      in max 1 \<lceil>credits * bestRate\<rceil>)"

record provider_key_row =
  pk_userId :: string
  pk_externalRef :: jstring
  pk_keyEnc :: string
  pk_keyEncVersion :: nat
  pk_limitUsd :: int

datatype assembly_error = Key_service openrouter_error | Key_cipher crypto_error | Key_row_exists

record key_env =
  ke_fetch :: fetch_impl
  ke_encodeURIComponent :: "jstring \<Rightarrow> jstring"
  ke_managementKey :: jstring
  ke_seal :: "nat list seal"
  ke_unseal :: "nat list unseal"
  ke_encryptionKey :: "nat list"
  ke_utf8 :: "jstring \<Rightarrow> nat list"
  ke_read_utf8 :: "nat list \<Rightarrow> jstring"

text \<open>\<open>insert\<close> into a table with a unique index on the user (and the one provider used).\<close>

definition insert_key :: "provider_key_row \<Rightarrow> provider_key_row list \<Rightarrow> provider_key_row list option" where
  "insert_key row rows = (if pk_userId row \<in> pk_userId ` set rows then None else Some (rows @ [row]))"

text \<open>\<open>resolveRuntimeKey\<close>: \<open>seen\<close> are the rows when it reads them, \<open>rows\<close> the table when it writes; \<open>iv\<close> is the
  random vector of the cipher. A failed re-cap is only logged.\<close>

definition resolveRuntimeKey ::
    "key_env \<Rightarrow> nat list \<Rightarrow> provider_key_row list \<Rightarrow> provider_key_row list \<Rightarrow> string \<Rightarrow> jsnum
       \<Rightarrow> (assembly_error + jstring) \<times> provider_key_row list" where
  "resolveRuntimeKey k iv seen rows userId creditsAvailable =
     (let limitUsd = providerKeyCeilingUsd creditsAvailable
      in (case find (\<lambda>r. pk_userId r = userId) seen of
            Some row \<Rightarrow>
              let recap = updateRuntimeKey (ke_fetch k) (ke_encodeURIComponent k) (ke_managementKey k) (pk_externalRef row)
                            (Some (of_int limitUsd)) None
              in ((case decryptSecret (ke_unseal k) (pk_keyEnc row) (ke_encryptionKey k) of
                     Inl e \<Rightarrow> Inl (Key_cipher e)
                   | Inr secret \<Rightarrow> Inr (ke_read_utf8 k (ds_plaintext secret))), rows)
          | None \<Rightarrow>
              (case createRuntimeKey (ke_fetch k) (ke_managementKey k) (js (''u_'' @ userId)) (of_int limitUsd) of
                 Inl e \<Rightarrow> (Inl (Key_service e), rows)
               | Inr created \<Rightarrow>
                   (case insert_key
                       \<lparr>pk_userId = userId, pk_externalRef = rk_hash created,
                        pk_keyEnc = encryptSecret (ke_seal k) iv (ke_utf8 k (rk_key created)) (ke_encryptionKey k) CURRENT_KEY_VERSION,
                        pk_keyEncVersion = CURRENT_KEY_VERSION, pk_limitUsd = limitUsd\<rparr> rows of
                      None \<Rightarrow> (Inl Key_row_exists, rows)
                    | Some rows' \<Rightarrow> (Inr (rk_key created), rows')))))"

section \<open>Assembly\<close>

record relay_config =
  rcf_sttModel :: jstring
  rcf_ttsModel :: jstring
  rcf_region :: elevenlabs_region
  rcf_modelFast :: jstring
  rcf_modelQuality :: jstring

record session_parts =
  sp_env :: actor_env
  sp_config :: session_config
  sp_meter :: meter_options
  sp_stt :: stt_options
  sp_tts :: "tts_options option"
  sp_runtimeKey :: jstring
  sp_keyterms :: "jstring list"

definition engine_config_of :: "session_config \<Rightarrow> engine_config" where
  "engine_config_of cfg =
     DEFAULT_ENGINE_CONFIG\<lparr>targetLangs := sc_dstLangs cfg, voiceLang := resolveVoiceLang cfg,
       maxCharsPerLine := rc_maxCharsPerLine (sc_render cfg), maxLines := rc_maxLines (sc_render cfg)\<rparr>"

definition burn_of :: "session_config \<Rightarrow> burn_config" where
  "burn_of cfg = \<lparr>targetLanguages = int (length (sc_dstLangs cfg)), burn_voiceEnabled = vc_enabled (sc_voice cfg)\<rparr>"

definition stt_options_of :: "relay_config \<Rightarrow> session_config \<Rightarrow> jstring list \<Rightarrow> stt_options" where
  "stt_options_of conf cfg keyterms =
     \<lparr>so_model = rcf_sttModel conf, so_region = rcf_region conf,
      so_languageCode = (if sc_srcLang cfg = ''auto'' then None else Some (sc_srcLang cfg)),
      so_keyterms = keyterms, so_noVerbatim = sc_noVerbatim cfg\<rparr>"

text \<open>\<open>createTts\<close>: no client without a voice or a language.\<close>

definition tts_options_of :: "relay_config \<Rightarrow> session_config \<Rightarrow> tts_options option" where
  "tts_options_of conf cfg =
     (case resolveVoiceLang cfg of
        None \<Rightarrow> None
      | Some l \<Rightarrow>
          if \<not> vc_enabled (sc_voice cfg) \<or> \<not> truthy (vc_voiceId (sc_voice cfg)) \<or> l = [] then None
          else Some \<lparr>to_model = rcf_ttsModel conf, to_region = rcf_region conf,
                     to_voiceId = js (the (vc_voiceId (sc_voice cfg))), to_lang = l, to_speed = vc_speed (sc_voice cfg)\<rparr>)"

text \<open>The call made for a translation job.\<close>

definition translate_params_of :: "relay_config \<Rightarrow> session_parts \<Rightarrow> translation_request \<Rightarrow> translate_params" where
  "translate_params_of conf parts job =
     \<lparr>tp_apiKey = sp_runtimeKey parts,
      tp_model = (if tq_speculative job then rcf_modelFast conf else rcf_modelQuality conf),
      tp_srcLang = js (sc_srcLang (sp_config parts)), tp_dstLang = js (tq_lang job),
      tp_glossary = sp_keyterms parts, tp_context = tq_context job, tp_text = tq_text job\<rparr>"

text \<open>\<open>buildSession\<close>, given what its awaits answered: the opening read of the balance, the glossary, the key.\<close>

definition buildSession ::
    "relay_config \<Rightarrow> unicode \<Rightarrow> relay_jwt_claims \<Rightarrow> reservation_result \<Rightarrow> jstring list \<Rightarrow> jstring \<Rightarrow> session_parts" where
  "buildSession conf u claims opening keyterms runtimeKey =
     (let cfg = claim_cfg claims
      in \<lparr>sp_env =
            \<lparr>env_sessionId = claim_sid claims, env_watermark = plan_watermark (planOf (claim_plan claims)),
             env_tts = (tts_options_of conf cfg \<noteq> None), env_unicode = u,
             env_ids = (\<lambda>n. ''c'' @ show_nat n), env_engine = engine_config_of cfg\<rparr>,
          sp_config = cfg,
          sp_meter = \<lparr>mo_burn = burn_of cfg, mo_reserved = claim_reserved claims,
                      mo_balanceRemaining = rr_balanceRemaining opening\<rparr>,
          sp_stt = stt_options_of conf cfg keyterms,
          sp_tts = tts_options_of conf cfg,
          sp_runtimeKey = runtimeKey, sp_keyterms = keyterms\<rparr>)"

definition actor_of :: "session_parts \<Rightarrow> int \<Rightarrow> actor" where
  "actor_of parts now = new_actor (sp_env parts) (sp_config parts) (new_meter (sp_meter parts) now) now"

section \<open>Facts\<close>

text \<open>The opening reservation of nothing is a read: it grants nothing and leaves the hold alone.\<close>

lemma reserve_nothing: "gw_reserve g 0 = (reserve_decide g 0, g) \<and> granted (reserve_decide g 0) = 0"
  by (simp add: gw_reserve_def reserve_commit_def reserve_decide_def Let_def)

text \<open>The cap is above what the balance cost in euro at the price of any pack.\<close>

lemma ceiling_covers_packs:
  assumes "0 \<le> credits" and "p \<in> set TOPUP_PACKS"
  shows "credits * (of_int (price_eur (pack_price p)) / 100 / of_int (pack_credits p)) \<le> of_int (providerKeyCeilingUsd credits)"
proof -
  let ?best = "foldl (\<lambda>best pack. max best (of_int (price_eur (pack_price pack)) / 100 / of_int (pack_credits pack))) 0 TOPUP_PACKS :: jsnum"
  have "of_int (price_eur (pack_price p)) / 100 / of_int (pack_credits p) \<le> ?best"
    using assms(2) by (auto simp: TOPUP_PACKS_def)
  then have "credits * (of_int (price_eur (pack_price p)) / 100 / of_int (pack_credits p)) \<le> credits * ?best"
    using assms(1) by (intro mult_left_mono)
  also have "\<dots> \<le> of_int \<lceil>credits * ?best\<rceil>" by (rule le_of_int_ceiling)
  also have "\<dots> \<le> of_int (providerKeyCeilingUsd credits)" by (simp add: providerKeyCeilingUsd_def Let_def)
  finally show ?thesis .
qed

text \<open>The key that a first session creates and stores is the key every later session reads, whatever the
  re-cap answers.\<close>

lemma stored_key_comes_back:
  assumes "createRuntimeKey (ke_fetch k) (ke_managementKey k) (js (''u_'' @ user)) (of_int (providerKeyCeilingUsd x)) = Inr created"
    and "user \<notin> pk_userId ` set rows"
    and "ke_seal k (ke_encryptionKey k) iv (ke_utf8 k (rk_key created)) = (ct, tag)"
    and "is_bytes iv" "length iv = 12" "is_bytes tag" "length tag = 16" "is_bytes ct"
    and "ke_unseal k (ke_encryptionKey k) iv tag ct = Some (ke_utf8 k (rk_key created))"
    and "ke_read_utf8 k (ke_utf8 k (rk_key created)) = rk_key created"
  shows "\<exists>rows'. resolveRuntimeKey k iv rows rows user x = (Inr (rk_key created), rows')
     \<and> fst (resolveRuntimeKey k iv' rows' rows' user y) = Inr (rk_key created)"
proof -
  let ?row = "\<lparr>pk_userId = user, pk_externalRef = rk_hash created,
      pk_keyEnc = encryptSecret (ke_seal k) iv (ke_utf8 k (rk_key created)) (ke_encryptionKey k) CURRENT_KEY_VERSION,
      pk_keyEncVersion = CURRENT_KEY_VERSION, pk_limitUsd = providerKeyCeilingUsd x\<rparr>"
  have none: "find (\<lambda>r. pk_userId r = user) rows = None" using assms(2) by (auto simp: find_None_iff)
  have first: "resolveRuntimeKey k iv rows rows user x = (Inr (rk_key created), rows @ [?row])"
    using assms(1,2) none by (simp add: resolveRuntimeKey_def insert_key_def Let_def)
  have "find (\<lambda>r. pk_userId r = user) (rows @ [?row]) = Some ?row"
    using none by (induction rows) (auto split: if_splits)
  moreover have "decryptSecret (ke_unseal k) (pk_keyEnc ?row) (ke_encryptionKey k)
      = Inr \<lparr>ds_plaintext = ke_utf8 k (rk_key created), ds_version = CURRENT_KEY_VERSION\<rparr>"
    using envelope_parts [OF assms(4,6,8), of CURRENT_KEY_VERSION] assms(3-9)
    by (simp add: encryptSecret_def decryptSecret_def IV_BYTES_def TAG_BYTES_def)
  ultimately show ?thesis using assms(10) first by (simp add: resolveRuntimeKey_def Let_def)
qed

text \<open>Two sessions of a user that both read the table before either writes: the second start fails.\<close>

lemma racing_first_sessions:
  assumes "createRuntimeKey (ke_fetch k) (ke_managementKey k) (js (''u_'' @ user)) (of_int (providerKeyCeilingUsd x)) = Inr created"
    and "resolveRuntimeKey k iv [] [] user x = (Inr key, rows)"
  shows "resolveRuntimeKey k iv [] rows user x = (Inl Key_row_exists, rows)"
  using assms by (auto simp: resolveRuntimeKey_def insert_key_def Let_def)

text \<open>A session with the voice enabled and no voice chosen pays the voice rate and has no voice.\<close>

lemma voice_billed_without_voice:
  assumes "vc_enabled (sc_voice (claim_cfg claims))" and "vc_voiceId (sc_voice (claim_cfg claims)) = None"
  shows "mo_burn (sp_meter (buildSession conf u claims opening kt key))
       = \<lparr>targetLanguages = int (length (sc_dstLangs (claim_cfg claims))), burn_voiceEnabled = True\<rparr>
     \<and> burnRatePerMinute \<lparr>targetLanguages = n, burn_voiceEnabled = True\<rparr>
       = burnRatePerMinute \<lparr>targetLanguages = n, burn_voiceEnabled = False\<rparr> + RATE_VOICE_PER_MIN
     \<and> sp_tts (buildSession conf u claims opening kt key) = None"
  using assms by (simp add: buildSession_def tts_options_of_def burn_of_def burnRatePerMinute_exact RATE_VOICE_PER_MIN_def
      Let_def split: option.split)

text \<open>Without translation the voice has no language, although the comment says that it then reads the source.\<close>

lemma no_voice_for_the_source:
  "vc_lang (sc_voice cfg) = None \<Longrightarrow> sc_dstLangs cfg = [] \<Longrightarrow> resolveVoiceLang cfg = None"
  by (simp add: resolveVoiceLang_def at_index_def)

end
