(* ===== verification/Relay_Server.thy ===== *)
theory Relay_Server
  imports Registry Auth Session_Assembly Session_Lifecycle
begin

text \<open>
  \<open>apps/relay/src/server.ts\<close>: the front door. Connections, actors and handshakes in flight are named by
  their position in the lists of the record \<open>relay_server\<close>; an \<open>await\<close> is an entry of
  \<open>rs_verifying\<close>, \<open>rs_building\<close> or \<open>rs_attaching\<close>, and a later input goes on from there. A text frame is
  the message it parses to, or \<open>None\<close> when it is not JSON or not of the schema.
\<close>

section \<open>Close codes, paths, addresses\<close>

definition CLOSE_AUTH_FAILED :: nat where "CLOSE_AUTH_FAILED = 4001"

definition CLOSE_NOT_FOUND :: nat where "CLOSE_NOT_FOUND = 4004"

definition CLOSE_PROTOCOL_ERROR :: nat where "CLOSE_PROTOCOL_ERROR = 4008"

definition CLOSE_CONCURRENCY_LIMIT :: nat where "CLOSE_CONCURRENCY_LIMIT = 4009"

definition CLOSE_RATE_LIMITED :: nat where "CLOSE_RATE_LIMITED = 4029"

definition CLOSE_DRAINING :: nat where "CLOSE_DRAINING = 1013"

definition STUDIO_PATHS :: "string list" where
  "STUDIO_PATHS = [''/session'', ''/studio'']"

definition isStudioPath :: "string \<Rightarrow> bool" where
  "isStudioPath path \<longleftrightarrow> path \<in> set STUDIO_PATHS"

text \<open>A header is absent, one value, or several.\<close>

datatype header = No_header | One_header string | Many_headers "string list"

definition clientIp :: "header \<Rightarrow> string option \<Rightarrow> string" where
  "clientIp forwarded remoteAddress =
     (let first = (case forwarded of
            No_header \<Rightarrow> None
          | One_header s \<Rightarrow> Some (hd (split_on (CHR '','') s))
          | Many_headers hs \<Rightarrow> at_index hs 0)
      in ascii_trim (case first of Some s \<Rightarrow> s
                     | None \<Rightarrow> (case remoteAddress of Some s \<Rightarrow> s | None \<Rightarrow> ''unknown'')))"

section \<open>The handshake limiter\<close>

type_synonym hit_map = "(string, int list) jsmap"

definition allow :: "nat \<Rightarrow> int \<Rightarrow> string \<Rightarrow> hit_map \<Rightarrow> bool \<times> hit_map" where
  "allow limit now key hits =
     (let cutoff = now - 60000;
          recent = filter (\<lambda>t. t > cutoff) (case map_of hits key of None \<Rightarrow> [] | Some ts \<Rightarrow> ts)
      in if length recent \<ge> limit then (False, map_set key recent hits)
         else (True, map_set key (recent @ [now]) hits))"

section \<open>State\<close>

text \<open>A refused connection gets no handlers; a socket that is closing still delivers messages until its
  \<open>close\<close> event.\<close>

datatype ws_state = Ws_open | Ws_closing | Ws_closed

record studio_conn =
  sk_ipHash :: string
  sk_ws :: ws_state
  sk_handlers :: bool
  sk_timer :: bool
  sk_handshakeDone :: bool
  sk_actor :: "nat option"

record projector_conn =
  pk_ipHash :: string
  pk_ws :: ws_state
  pk_handlers :: bool
  pk_timer :: bool
  pk_attached :: "(nat \<times> nat) option"
  pk_attaching :: bool
  pk_disposed :: bool

datatype connection = Studio_conn studio_conn | Projector_conn projector_conn

datatype server_effect =
    Srv_destroy
  | Srv_close nat nat string
  | Srv_pong nat
  | Srv_log string

text \<open>\<open>rs_actors\<close> are the actors created so far, \<open>rs_refs\<close> the references that the registry holds by id.\<close>

record relay_server =
  rs_draining :: bool
  rs_hits :: hit_map
  rs_jti :: jti_store
  rs_registry :: registry
  rs_actors :: "(actor_env \<times> actor) list"
  rs_refs :: "(string, nat) jsmap"
  rs_conns :: "connection list"
  rs_verifying :: "(nat \<times> string) list"
  rs_building :: "(nat \<times> relay_jwt_claims) list"
  rs_attaching :: "(nat \<times> string \<times> projector_role \<times> nat option) list"
  rs_out :: "server_effect list"

definition new_server :: relay_server where
  "new_server =
     \<lparr>rs_draining = False, rs_hits = [], rs_jti = \<lparr>js_used = [], js_revoked = []\<rparr>, rs_registry = new_registry,
      rs_actors = [], rs_refs = [], rs_conns = [], rs_verifying = [], rs_building = [], rs_attaching = [], rs_out = []\<rparr>"

definition rs_do :: "server_effect \<Rightarrow> relay_server \<Rightarrow> relay_server" where
  "rs_do e s = s\<lparr>rs_out := rs_out s @ [e]\<rparr>"

definition set_conn :: "nat \<Rightarrow> connection \<Rightarrow> relay_server \<Rightarrow> relay_server" where
  "set_conn i x s = s\<lparr>rs_conns := (rs_conns s)[i := x]\<rparr>"

text \<open>\<open>ws.close(code, reason)\<close>: an open socket starts to close, the others are left alone.\<close>

definition ws_close :: "ws_state \<Rightarrow> ws_state" where
  "ws_close w = (if w = Ws_open then Ws_closing else w)"

definition close_conn :: "nat \<Rightarrow> nat \<Rightarrow> string \<Rightarrow> relay_server \<Rightarrow> relay_server" where
  "close_conn i code why s =
     (if i \<ge> length (rs_conns s) then s
      else rs_do (Srv_close i code why)
             (set_conn i (case rs_conns s ! i of
                            Studio_conn x \<Rightarrow> Studio_conn (x\<lparr>sk_ws := ws_close (sk_ws x)\<rparr>)
                          | Projector_conn p \<Rightarrow> Projector_conn (p\<lparr>pk_ws := ws_close (pk_ws p)\<rparr>)) s))"

section \<open>Actors\<close>

text \<open>The calls of \<open>onClosed\<close> that an actor made in a step; each unregisters the id it is given.\<close>

definition said_goodbye :: "actor \<Rightarrow> actor \<Rightarrow> string list" where
  "said_goodbye a a' = drop (length (goodbyes (a_out a))) (goodbyes (a_out a'))"

definition unregister_all :: "string list \<Rightarrow> relay_server \<Rightarrow> relay_server" where
  "unregister_all sids s =
     s\<lparr>rs_registry := fold reg_unregister sids (rs_registry s), rs_refs := fold map_delete sids (rs_refs s)\<rparr>"

definition actor_does :: "nat \<Rightarrow> actor_input \<Rightarrow> relay_server \<Rightarrow> relay_server" where
  "actor_does r inp s =
     (if r \<ge> length (rs_actors s) then s
      else (case rs_actors s ! r of
              (env, a) \<Rightarrow>
                let a' = actor_step env inp a
                in unregister_all (said_goodbye a a')
                     (s\<lparr>rs_actors := (rs_actors s)[r := (env, a')]\<rparr>)))"

section \<open>Upgrades\<close>

definition healthz :: "string \<Rightarrow> relay_server \<Rightarrow> nat \<times> (string \<times> nat) option" where
  "healthz u s =
     (if u = ''/healthz''
      then (if rs_draining s then 503 else 200, Some (if rs_draining s then ''draining'' else ''ok'', reg_size (rs_registry s)))
      else (404, None))"

definition accept_studio :: "int \<Rightarrow> string \<Rightarrow> relay_server \<Rightarrow> relay_server" where
  "accept_studio now ipHash s =
     (let i = length (rs_conns s);
          fresh = \<lparr>sk_ipHash = ipHash, sk_ws = Ws_open, sk_handlers = False, sk_timer = False, sk_handshakeDone = False, sk_actor = None\<rparr>;
          s = s\<lparr>rs_conns := rs_conns s @ [Studio_conn fresh]\<rparr>
      in if rs_draining s then close_conn i CLOSE_DRAINING ''relay draining'' s
         else (case allow MAX_HANDSHAKES_PER_IP_PER_MINUTE now ipHash (rs_hits s) of
                 (ok, hits) \<Rightarrow>
                   let s = s\<lparr>rs_hits := hits\<rparr>
                   in if \<not> ok then close_conn i CLOSE_RATE_LIMITED ''too many handshakes'' s
                      else set_conn i (Studio_conn (fresh\<lparr>sk_handlers := True, sk_timer := True\<rparr>)) s))"

definition accept_projector :: "int \<Rightarrow> string \<Rightarrow> relay_server \<Rightarrow> relay_server" where
  "accept_projector now ipHash s =
     (let i = length (rs_conns s);
          fresh = \<lparr>pk_ipHash = ipHash, pk_ws = Ws_open, pk_handlers = False, pk_timer = False,
                   pk_attached = None, pk_attaching = False, pk_disposed = False\<rparr>;
          s = s\<lparr>rs_conns := rs_conns s @ [Projector_conn fresh]\<rparr>
      in (case allow MAX_HANDSHAKES_PER_IP_PER_MINUTE now ipHash (rs_hits s) of
            (ok, hits) \<Rightarrow>
              let s = s\<lparr>rs_hits := hits\<rparr>
              in if \<not> ok then close_conn i CLOSE_RATE_LIMITED ''too many handshakes'' s
                 else set_conn i (Projector_conn (fresh\<lparr>pk_handlers := True, pk_timer := True\<rparr>)) s))"

definition upgrade :: "int \<Rightarrow> string \<Rightarrow> string \<Rightarrow> relay_server \<Rightarrow> relay_server" where
  "upgrade now path ipHash s =
     (if isStudioPath path then accept_studio now ipHash s
      else if path = ''/projector'' then accept_projector now ipHash s
      else rs_do Srv_destroy s)"

section \<open>The studio's handshake\<close>

text \<open>What the front door is built with: the configuration, the signature check and parser of a token,
  the digest of projector tokens, the Unicode tables.\<close>

record 'p server_env =
  se_conf :: relay_config
  se_unicode :: unicode
  se_verify :: "string \<Rightarrow> int \<Rightarrow> jose_error + 'p"
  se_parse :: "'p \<Rightarrow> relay_jwt_claims option"
  se_sha256 :: "string \<Rightarrow> nat list"

definition failure_name :: "auth_failure \<Rightarrow> string" where
  "failure_name f =
     (case f of
        MALFORMED \<Rightarrow> ''MALFORMED'' | BAD_SIGNATURE \<Rightarrow> ''BAD_SIGNATURE'' | BAD_AUDIENCE \<Rightarrow> ''BAD_AUDIENCE''
      | EXPIRED \<Rightarrow> ''EXPIRED'' | BAD_CLAIMS \<Rightarrow> ''BAD_CLAIMS'' | REVOKED \<Rightarrow> ''REVOKED'' | REPLAYED \<Rightarrow> ''REPLAYED''
      | PROTOCOL_UNSUPPORTED \<Rightarrow> ''PROTOCOL_UNSUPPORTED'')"

definition reject_handshake :: "nat \<Rightarrow> string \<Rightarrow> relay_server \<Rightarrow> relay_server" where
  "reject_handshake i why s =
     close_conn i CLOSE_AUTH_FAILED why (rs_do (Srv_log ''studio handshake rejected'') s)"

text \<open>\<open>completeStudioHandshake\<close> up to its first await.\<close>

definition begin_handshake :: "nat \<Rightarrow> studio_conn \<Rightarrow> string \<Rightarrow> string \<Rightarrow> relay_server \<Rightarrow> relay_server" where
  "begin_handshake i x version jwt s =
     (let s = set_conn i (Studio_conn (x\<lparr>sk_handshakeDone := True, sk_timer := False\<rparr>)) s
      in (case assertProtocolSupported version of
            Some f \<Rightarrow> reject_handshake i (failure_name f) s
          | None \<Rightarrow> s\<lparr>rs_verifying := rs_verifying s @ [(i, jwt)]\<rparr>))"

text \<open>The token is verified: the gate of the plan, and the session is asked for.\<close>

definition handshake_verified :: "'p server_env \<Rightarrow> int \<Rightarrow> nat \<Rightarrow> relay_server \<Rightarrow> relay_server" where
  "handshake_verified e now i s =
     (case map_of (rs_verifying s) i of
        None \<Rightarrow> s
      | Some jwt \<Rightarrow>
          let s = s\<lparr>rs_verifying := filter (\<lambda>v. fst v \<noteq> i) (rs_verifying s)\<rparr>
          in (case verifySessionJwt (se_verify e) (se_parse e) (rs_jti s) now jwt of
                (Inl f, jti) \<Rightarrow> reject_handshake i (failure_name f) (s\<lparr>rs_jti := jti\<rparr>)
              | (Inr claims, jti) \<Rightarrow>
                  let s = s\<lparr>rs_jti := jti\<rparr>
                  in if reg_activeFor (rs_registry s) (claim_sub claims) \<ge> maxConcurrentSessions (planOf (claim_plan claims))
                     then close_conn i CLOSE_CONCURRENCY_LIMIT ''concurrent session limit reached'' s
                     else s\<lparr>rs_building := rs_building s @ [(i, claims)]\<rparr>))"

text \<open>\<open>createSession\<close> answers: what \<open>buildSession\<close> awaited, or a rejection. \<open>token\<close> is the random
  projector token of the actor.\<close>

definition handshake_built ::
    "'p server_env \<Rightarrow> int \<Rightarrow> nat \<Rightarrow> string \<Rightarrow> (reservation_result \<times> jstring list \<times> jstring) option
       \<Rightarrow> relay_server \<Rightarrow> relay_server" where
  "handshake_built e now i token result s =
     (case map_of (rs_building s) i of
        None \<Rightarrow> s
      | Some claims \<Rightarrow>
          let s = s\<lparr>rs_building := filter (\<lambda>v. fst v \<noteq> i) (rs_building s)\<rparr>
          in (case result of
                None \<Rightarrow> reject_handshake i ''INTERNAL'' s
              | Some (opening, keyterms, runtimeKey) \<Rightarrow>
                  let parts = buildSession (se_conf e) (se_unicode e) claims opening keyterms runtimeKey;
                      handle = \<lparr>sh_sessionId = claim_sid claims, sh_userId = claim_sub claims, sh_projectorToken = token\<rparr>
                  in (case reg_register handle (rs_registry s) of
                        None \<Rightarrow> reject_handshake i ''INTERNAL'' s
                      | Some reg \<Rightarrow>
                          let r = length (rs_actors s);
                              s = s\<lparr>rs_registry := reg, rs_refs := map_set (claim_sid claims) r (rs_refs s),
                                    rs_actors := rs_actors s @ [(sp_env parts, actor_of parts now)]\<rparr>;
                              s = (case rs_conns s ! i of
                                     Studio_conn x \<Rightarrow> set_conn i (Studio_conn (x\<lparr>sk_actor := Some r\<rparr>)) s
                                   | Projector_conn p \<Rightarrow> s)
                          in actor_does r In_start s)))"

section \<open>The studio's socket\<close>

datatype studio_frame = Frame_binary "byte list" | Frame_text "studio_message option"

definition on_studio_frame :: "int \<Rightarrow> nat \<Rightarrow> studio_conn \<Rightarrow> studio_frame \<Rightarrow> relay_server \<Rightarrow> relay_server" where
  "on_studio_frame now i x frame s =
     (case frame of
        Frame_binary data \<Rightarrow>
          (case sk_actor x of
             None \<Rightarrow> if \<not> sk_handshakeDone x then close_conn i CLOSE_PROTOCOL_ERROR ''audio before handshake'' s else s
           | Some r \<Rightarrow>
               (case decodeAudioFrame data of None \<Rightarrow> s | Some f \<Rightarrow> actor_does r (In_audio now f) s))
      | Frame_text None \<Rightarrow> close_conn i CLOSE_PROTOCOL_ERROR ''malformed control message'' s
      | Frame_text (Some msg) \<Rightarrow>
          if \<not> sk_handshakeDone x then
            (case msg of
               Studio_hello version jwt cfg \<Rightarrow> begin_handshake i x version jwt s
             | _ \<Rightarrow> close_conn i CLOSE_PROTOCOL_ERROR ''expected hello'' s)
          else (case sk_actor x of None \<Rightarrow> s | Some r \<Rightarrow> actor_does r (In_studio now msg) s))"

definition studio_timer :: "nat \<Rightarrow> studio_conn \<Rightarrow> relay_server \<Rightarrow> relay_server" where
  "studio_timer i x s =
     (if \<not> sk_timer x then s
      else
        let s = set_conn i (Studio_conn (x\<lparr>sk_timer := False\<rparr>)) s
        in if \<not> sk_handshakeDone x then close_conn i CLOSE_PROTOCOL_ERROR ''handshake timeout'' s else s)"

text \<open>The socket is gone: an actor that is there is closed, one that is still being built is not.\<close>

definition studio_gone :: "int \<Rightarrow> nat \<Rightarrow> studio_conn \<Rightarrow> relay_server \<Rightarrow> relay_server" where
  "studio_gone now i x s =
     (let s = set_conn i (Studio_conn (x\<lparr>sk_ws := Ws_closed, sk_handlers := False, sk_timer := False\<rparr>)) s
      in (case sk_actor x of None \<Rightarrow> s | Some r \<Rightarrow> actor_does r (In_close now End_user) s))"

section \<open>The projector's socket\<close>

definition set_projector :: "nat \<Rightarrow> projector_conn \<Rightarrow> relay_server \<Rightarrow> relay_server" where
  "set_projector i p s = set_conn i (Projector_conn p) s"

text \<open>\<open>socket.send\<close> of the pong checks that the socket is open.\<close>

definition on_projector_frame :: "nat \<Rightarrow> projector_conn \<Rightarrow> projector_message option \<Rightarrow> relay_server \<Rightarrow> relay_server" where
  "on_projector_frame i p parsed s =
     (case parsed of
        None \<Rightarrow> close_conn i CLOSE_PROTOCOL_ERROR ''malformed projector message'' s
      | Some Projector_ping \<Rightarrow> if pk_ws p = Ws_open then rs_do (Srv_pong i) s else s
      | Some (Projector_attach version token lastSeq role) \<Rightarrow>
          if pk_attached p \<noteq> None \<or> pk_attaching p then s
          else if assertProtocolSupported version \<noteq> None
            then close_conn i CLOSE_PROTOCOL_ERROR ''unsupported protocol version'' (set_projector i (p\<lparr>pk_timer := False\<rparr>) s)
          else (set_projector i (p\<lparr>pk_timer := False, pk_attaching := True\<rparr>) s)
                 \<lparr>rs_attaching := rs_attaching s @ [(i, token, role, lastSeq)]\<rparr>)"

text \<open>The lookup answers with the table as it is then, or is rejected (\<open>None\<close>).\<close>

definition projector_resolved :: "'p server_env \<Rightarrow> nat \<Rightarrow> caption_session_row list option \<Rightarrow> relay_server \<Rightarrow> relay_server" where
  "projector_resolved e i rows s =
     (case map_of (rs_attaching s) i of
        None \<Rightarrow> s
      | Some (token, role, lastSeq) \<Rightarrow>
          (case rs_conns s ! i of
             Studio_conn x \<Rightarrow> s
           | Projector_conn p \<Rightarrow>
               let p = p\<lparr>pk_attaching := False\<rparr>;
                   s = set_projector i p (s\<lparr>rs_attaching := filter (\<lambda>v. fst v \<noteq> i) (rs_attaching s)\<rparr>);
                   s = (if rows = None then rs_do (Srv_log ''projector token lookup failed'') s else s);
                   sid = (case rows of None \<Rightarrow> None | Some rows \<Rightarrow> resolveProjectorSession (se_sha256 e) rows token);
                   ref = (case sid of None \<Rightarrow> None
                          | Some sid \<Rightarrow> if reg_get (rs_registry s) sid = None then None else map_of (rs_refs s) sid)
               in (case ref of
                     None \<Rightarrow> close_conn i CLOSE_NOT_FOUND ''no such session'' s
                   | Some r \<Rightarrow>
                       if pk_disposed p then s
                       else actor_does r (In_attach role lastSeq)
                              (set_projector i (p\<lparr>pk_attached := Some (r, a_nextProjector (snd (rs_actors s ! r)))\<rparr>) s))))"

definition projector_timer :: "nat \<Rightarrow> projector_conn \<Rightarrow> relay_server \<Rightarrow> relay_server" where
  "projector_timer i p s =
     (if \<not> pk_timer p then s
      else
        let s = set_projector i (p\<lparr>pk_timer := False\<rparr>) s
        in if pk_attached p = None then close_conn i CLOSE_PROTOCOL_ERROR ''attach timeout'' s else s)"

definition projector_gone :: "nat \<Rightarrow> projector_conn \<Rightarrow> relay_server \<Rightarrow> relay_server" where
  "projector_gone i p s =
     (let s = set_projector i (p\<lparr>pk_ws := Ws_closed, pk_handlers := False, pk_disposed := True, pk_timer := False\<rparr>) s
      in (case pk_attached p of None \<Rightarrow> s | Some (r, h) \<Rightarrow> actor_does r (In_detach h) s))"

section \<open>Draining\<close>

text \<open>\<open>closeAll\<close>: every running session is asked to close.\<close>

definition close_all :: "int \<Rightarrow> end_reason \<Rightarrow> relay_server \<Rightarrow> relay_server" where
  "close_all now why s =
     fold (\<lambda>h s. case map_of (rs_refs s) (sh_sessionId h) of
                   None \<Rightarrow> s | Some r \<Rightarrow> actor_does r (In_close now why) s) (reg_list (rs_registry s)) s"

text \<open>One turn of the loop of \<open>drain\<close>, which is left (second component) when no session runs or the
  deadline has passed.\<close>

definition drain_turn :: "int \<Rightarrow> int \<Rightarrow> end_reason \<Rightarrow> relay_server \<Rightarrow> relay_server \<times> bool" where
  "drain_turn now deadline why s =
     (if reg_size (rs_registry s) > 0 \<and> now < deadline then (s, False)
      else if reg_size (rs_registry s) > 0
        then (close_all now why (rs_do (Srv_log ''drain deadline reached, closing'') s), True)
      else (s, True))"

definition drain_begin :: "relay_server \<Rightarrow> relay_server" where
  "drain_begin s = s\<lparr>rs_draining := True\<rparr>"

section \<open>Everything that can happen at the front door\<close>

datatype server_input =
    In_upgrade int string string
  | In_studio_frame int nat studio_frame
  | In_projector_frame nat "projector_message option"
  | In_timeout nat
  | In_gone int nat
  | In_verified int nat
  | In_built int nat string "(reservation_result \<times> jstring list \<times> jstring) option"
  | In_resolved nat "caption_session_row list option"
  | In_session nat actor_input
  | In_drain_begin
  | In_drain_turn int int end_reason

text \<open>What reaches an actor past the front door: its upstreams, its clock, its gateway.\<close>

fun from_inside :: "actor_input \<Rightarrow> bool" where
  "from_inside (In_stt now ev) = True"
| "from_inside (In_stt_error now er) = True"
| "from_inside (In_tts ch) = True"
| "from_inside (In_tts_error now code) = True"
| "from_inside (In_translated now i result) = True"
| "from_inside (In_tick now) = True"
| "from_inside (In_gateway now i answer) = True"
| "from_inside inp = False"

fun server_step :: "'p server_env \<Rightarrow> server_input \<Rightarrow> relay_server \<Rightarrow> relay_server" where
  "server_step e (In_upgrade now path ipHash) s = upgrade now path ipHash s"
| "server_step e (In_studio_frame now i frame) s =
     (if i \<ge> length (rs_conns s) then s
      else (case rs_conns s ! i of
              Studio_conn x \<Rightarrow> if sk_handlers x then on_studio_frame now i x frame s else s
            | Projector_conn p \<Rightarrow> s))"
| "server_step e (In_projector_frame i parsed) s =
     (if i \<ge> length (rs_conns s) then s
      else (case rs_conns s ! i of
              Studio_conn x \<Rightarrow> s
            | Projector_conn p \<Rightarrow> if pk_handlers p then on_projector_frame i p parsed s else s))"
| "server_step e (In_timeout i) s =
     (if i \<ge> length (rs_conns s) then s
      else (case rs_conns s ! i of Studio_conn x \<Rightarrow> studio_timer i x s | Projector_conn p \<Rightarrow> projector_timer i p s))"
| "server_step e (In_gone now i) s =
     (if i \<ge> length (rs_conns s) then s
      else (case rs_conns s ! i of
              Studio_conn x \<Rightarrow> if sk_handlers x then studio_gone now i x s else s
            | Projector_conn p \<Rightarrow> if pk_handlers p then projector_gone i p s else s))"
| "server_step e (In_verified now i) s = handshake_verified e now i s"
| "server_step e (In_built now i token result) s = handshake_built e now i token result s"
| "server_step e (In_resolved i rows) s = projector_resolved e i rows s"
| "server_step e (In_session r inp) s = (if from_inside inp then actor_does r inp s else s)"
| "server_step e In_drain_begin s = drain_begin s"
| "server_step e (In_drain_turn now deadline why) s = fst (drain_turn now deadline why s)"

definition server_run :: "'p server_env \<Rightarrow> server_input list \<Rightarrow> relay_server \<Rightarrow> relay_server" where
  "server_run e ins s = fold (server_step e) ins s"

end
