(* ===== verification/Front_Door.thy ===== *)
theory Front_Door
  imports Relay_Server
begin

text \<open>
  What the front door of the relay keeps: the limiter is a sliding window over all admitted handshakes, and
  the registry is exactly the sessions that have not closed. Two runs at the end show where the gate and
  the handshake do not keep what they mean to.
\<close>

section \<open>The limiter against a full adm\<close>

text \<open>A series of handshakes at one limiter, and the reference: a log of everything admitted, never pruned.\<close>

fun limiter_run :: "nat \<Rightarrow> (int \<times> string) list \<Rightarrow> hit_map \<Rightarrow> bool list" where
  "limiter_run limit [] hits = []"
| "limiter_run limit ((now, key) # calls) hits =
     (case allow limit now key hits of (ok, hits') \<Rightarrow> ok # limiter_run limit calls hits')"

definition in_last_minute :: "int \<Rightarrow> string \<Rightarrow> (int \<times> string) list \<Rightarrow> nat" where
  "in_last_minute now key adm = length (filter (\<lambda>(t, k). k = key \<and> now - 60000 < t \<and> t \<le> now) adm)"

fun logged_run :: "nat \<Rightarrow> (int \<times> string) list \<Rightarrow> (int \<times> string) list \<Rightarrow> bool list \<times> (int \<times> string) list" where
  "logged_run limit [] adm = ([], adm)"
| "logged_run limit ((now, key) # calls) adm =
     (if in_last_minute now key adm < limit
      then (case logged_run limit calls (adm @ [(now, key)]) of (ds, l) \<Rightarrow> (True # ds, l))
      else (case logged_run limit calls adm of (ds, l) \<Rightarrow> (False # ds, l)))"

abbreviation hits_of :: "hit_map \<Rightarrow> string \<Rightarrow> int list" where
  "hits_of hits key \<equiv> (case map_of hits key of None \<Rightarrow> [] | Some ts \<Rightarrow> ts)"

text \<open>The pruned lists agree with the log on everything that can still count.\<close>

definition window_ok :: "int \<Rightarrow> hit_map \<Rightarrow> (int \<times> string) list \<Rightarrow> bool" where
  "window_ok now hits adm \<longleftrightarrow>
     (\<forall>p \<in> set adm. fst p \<le> now)
     \<and> (\<forall>key d. now - 60000 \<le> d \<longrightarrow>
          filter (\<lambda>t. d < t) (hits_of hits key) = filter (\<lambda>t. d < t) (map fst (filter (\<lambda>p. snd p = key) adm)))"

lemma in_last_minute_eq:
  assumes "window_ok last_now hits adm" and "last_now \<le> now"
  shows "in_last_minute now key adm = length (filter (\<lambda>t. now - 60000 < t) (hits_of hits key))"
proof -
  have "filter (\<lambda>(t, k). k = key \<and> now - 60000 < t \<and> t \<le> now) adm
      = filter (\<lambda>p. now - 60000 < fst p) (filter (\<lambda>p. snd p = key) adm)"
    using assms by (auto simp: window_ok_def intro!: filter_cong)
  then have "in_last_minute now key adm = length (filter (\<lambda>t. now - 60000 < t) (map fst (filter (\<lambda>p. snd p = key) adm)))"
    by (simp add: in_last_minute_def filter_map o_def)
  moreover have "now - 60000 \<ge> last_now - 60000" using assms(2) by simp
  ultimately show ?thesis using assms(1) by (simp add: window_ok_def)
qed

lemma window_ok_admit:
  assumes "window_ok last_now hits adm" and "last_now \<le> now"
  shows "window_ok now (map_set key (filter (\<lambda>t. now - 60000 < t) (hits_of hits key) @ [now]) hits) (adm @ [(now, key)])"
    and "window_ok now (map_set key (filter (\<lambda>t. now - 60000 < t) (hits_of hits key)) hits) adm"
proof -
  have old: "filter (\<lambda>t. d < t) (hits_of hits k) = filter (\<lambda>t. d < t) (map fst (filter (\<lambda>p. snd p = k) adm))"
    if "now - 60000 \<le> d" for d k
    using assms that by (auto simp: window_ok_def)
  have prune: "filter (\<lambda>t. d < t) (filter (\<lambda>t. now - 60000 < t) ts) = filter (\<lambda>t. d < t) ts"
    if "now - 60000 \<le> d" for d and ts :: "int list"
    using that by (auto intro!: filter_cong)
  have le: "\<forall>p \<in> set adm. fst p \<le> now" using assms by (auto simp: window_ok_def)
  show "window_ok now (map_set key (filter (\<lambda>t. now - 60000 < t) (hits_of hits key) @ [now]) hits) (adm @ [(now, key)])"
    "window_ok now (map_set key (filter (\<lambda>t. now - 60000 < t) (hits_of hits key)) hits) adm"
    using le old prune unfolding window_ok_def by (simp_all del: filter_filter)
qed

lemma limiter_run_logged:
  "window_ok last_now hits adm \<Longrightarrow> sorted (last_now # map fst calls) \<Longrightarrow>
     limiter_run limit calls hits = fst (logged_run limit calls adm)"
proof (induction limit calls hits arbitrary: last_now adm rule: limiter_run.induct)
  case (2 limit now key calls hits)
  have le: "last_now \<le> now" and srt: "sorted (now # map fst calls)" using "2.prems"(2) by auto
  note w = window_ok_admit [OF "2.prems"(1) le, of key]
  note eq = in_last_minute_eq [OF "2.prems"(1) le, of key]
  show ?case
  proof (cases "in_last_minute now key adm < limit")
    case True
    then have a: "allow limit now key hits = (True, map_set key (filter (\<lambda>t. now - 60000 < t) (hits_of hits key) @ [now]) hits)"
      by (simp add: allow_def eq)
    show ?thesis using "2.IH" [OF a [symmetric] w(1) srt] True by (simp add: a split_beta)
  next
    case False
    then have a: "allow limit now key hits = (False, map_set key (filter (\<lambda>t. now - 60000 < t) (hits_of hits key)) hits)"
      by (simp add: allow_def eq)
    show ?thesis using "2.IH" [OF a [symmetric] w(2) srt] False by (simp add: a split_beta)
  qed
qed simp

lemma minute_bound_step:
  assumes "\<forall>t. in_last_minute t key adm \<le> limit" and "\<forall>p \<in> set adm. fst p \<le> now"
    and "in_last_minute now k adm < limit"
  shows "in_last_minute t key (adm @ [(now, k)]) \<le> limit"
proof (cases "k = key \<and> t - 60000 < now \<and> now \<le> t")
  case False
  then show ?thesis using assms(1) by (auto simp: in_last_minute_def)
next
  case True
  have "length (filter (\<lambda>(x, c). c = key \<and> t - 60000 < x \<and> x \<le> t) adm)
      = length (filter (\<lambda>(x, c). c = key \<and> t - 60000 < x) (filter (\<lambda>(x, c). c = key \<and> now - 60000 < x \<and> x \<le> now) adm))"
    using True assms(2) by (auto intro!: arg_cong [where f = length] filter_cong)
  also have "\<dots> \<le> length (filter (\<lambda>(x, c). c = key \<and> now - 60000 < x \<and> x \<le> now) adm)"
    by (rule length_filter_le)
  also have "\<dots> < limit" using assms(3) True by (simp add: in_last_minute_def)
  finally show ?thesis using True by (simp add: in_last_minute_def)
qed

lemma logged_run_bound:
  "\<forall>t. in_last_minute t key adm \<le> limit \<Longrightarrow> \<forall>p \<in> set adm. fst p \<le> now \<Longrightarrow> sorted (now # map fst calls) \<Longrightarrow>
     in_last_minute t key (snd (logged_run limit calls adm)) \<le> limit"
proof (induction limit calls adm arbitrary: now rule: logged_run.induct)
  case (2 limit now' k calls adm)
  have older: "\<forall>p \<in> set adm. fst p \<le> now'" and srt: "sorted (now' # map fst calls)" using "2.prems"(2,3) by fastforce+
  show ?case
  proof (cases "in_last_minute now' k adm < limit")
    case True
    have "\<forall>t. in_last_minute t key (adm @ [(now', k)]) \<le> limit"
      using minute_bound_step [OF "2.prems"(1) older True] by blast
    moreover have "\<forall>p \<in> set (adm @ [(now', k)]). fst p \<le> now'" using older by auto
    ultimately show ?thesis using "2.IH"(1) [OF True _ _ srt] True by (simp add: split_beta)
  next
    case False
    then show ?thesis using "2.IH"(2) [OF False "2.prems"(1) older srt] by (simp add: split_beta)
  qed
qed simp

text \<open>
  C22: The limiter is a sliding window. For handshakes in the order of time, the pruned lists of
  \<open>HandshakeLimiter\<close> decide exactly as a adm of everything ever admitted would: a handshake passes when fewer
  than \<open>limit\<close> of its address were admitted in the minute before it; and so no minute has more than \<open>limit\<close> of one address.
\<close>

theorem limiter_is_a_sliding_window:
  assumes "sorted (map fst calls)"
  shows "limiter_run limit calls [] = fst (logged_run limit calls [])
     \<and> in_last_minute t key (snd (logged_run limit calls [])) \<le> limit"
proof (cases calls)
  case Nil
  then show ?thesis by (simp add: in_last_minute_def)
next
  case (Cons p rest)
  have s: "sorted (fst p # map fst calls)" using assms Cons by simp
  have "window_ok (fst p) [] []" by (simp add: window_ok_def)
  from limiter_run_logged [OF this s] logged_run_bound [of key "[]" limit "fst p" calls t] s
  show ?thesis by (simp add: in_last_minute_def)
qed

theorem limiter_is_a_sliding_window_witness:
  "limiter_run 2 [(0, ''a''), (1, ''a''), (2, ''a''), (2, ''b''), (60000, ''a''), (60001, ''a'')] []
     = [True, True, False, True, True, True]"
proof -
  let ?calls = "[(0, ''a''), (1, ''a''), (2, ''a''), (2, ''b''), (60000, ''a''), (60001, ''a'')] :: (int \<times> string) list"
  have "sorted (map fst ?calls)" by simp
  from conjunct1 [OF limiter_is_a_sliding_window [OF this]]
  show ?thesis by (simp add: in_last_minute_def)
qed

section \<open>The registry mirrors the sessions\<close>

definition sid_at :: "relay_server \<Rightarrow> nat \<Rightarrow> string" where
  "sid_at s r = env_sessionId (fst (rs_actors s ! r))"

text \<open>The actors that have not closed.\<close>

definition open_actors :: "relay_server \<Rightarrow> nat set" where
  "open_actors s = {r. r < length (rs_actors s) \<and> a_state (snd (rs_actors s ! r)) \<noteq> CLOSED}"

definition mirror :: "relay_server \<Rightarrow> bool" where
  "mirror s \<longleftrightarrow>
     reg_ok (rs_registry s)
     \<and> (\<forall>r < length (rs_actors s). life_ok (fst (rs_actors s ! r)) (snd (rs_actors s ! r)))
     \<and> (\<forall>sid. reg_get (rs_registry s) sid = None \<longleftrightarrow> map_of (rs_refs s) sid = None)
     \<and> (\<forall>sid r. map_of (rs_refs s) sid = Some r \<longleftrightarrow> r \<in> open_actors s \<and> sid_at s r = sid)"

definition sessions_part :: "relay_server \<Rightarrow> registry \<times> (actor_env \<times> actor) list \<times> (string, nat) jsmap" where
  "sessions_part s = (rs_registry s, rs_actors s, rs_refs s)"

lemma mirror_same: "sessions_part s' = sessions_part s \<Longrightarrow> mirror s' = mirror s"
  by (simp add: sessions_part_def mirror_def open_actors_def sid_at_def)

lemma sessions_part_updates [simp]:
  "sessions_part (rs_do eff s) = sessions_part s" "sessions_part (set_conn i c s) = sessions_part s"
  "sessions_part (close_conn i code why s) = sessions_part s" "sessions_part (set_projector i p s) = sessions_part s"
  "sessions_part (reject_handshake i why s) = sessions_part s" "sessions_part (begin_handshake i x v jwt s) = sessions_part s"
  "sessions_part (s\<lparr>rs_hits := h\<rparr>) = sessions_part s" "sessions_part (s\<lparr>rs_jti := j\<rparr>) = sessions_part s"
  "sessions_part (s\<lparr>rs_conns := cs\<rparr>) = sessions_part s" "sessions_part (s\<lparr>rs_draining := d\<rparr>) = sessions_part s"
  "sessions_part (s\<lparr>rs_verifying := v'\<rparr>) = sessions_part s" "sessions_part (s\<lparr>rs_building := b\<rparr>) = sessions_part s"
  "sessions_part (s\<lparr>rs_attaching := a\<rparr>) = sessions_part s"
  by (simp_all add: sessions_part_def rs_do_def set_conn_def close_conn_def set_projector_def reject_handshake_def
      begin_handshake_def Let_def split: option.split)

lemma reg_get_unregister [simp]:
  "reg_get (reg_unregister sid r) sid' = (if sid' = sid then None else reg_get r sid')"
  by (auto simp: reg_get_def reg_unregister_def Let_def split: option.split)

lemma reg_get_register:
  "reg_register h r = Some r' \<Longrightarrow>
     reg_get r (sh_sessionId h) = None \<and> reg_get r' sid = (if sid = sh_sessionId h then Some h else reg_get r sid)"
  by (auto simp: reg_get_def reg_register_def split: if_splits)

text \<open>An actor that takes a step says goodbye exactly when it closes.\<close>

lemma goodbye_when_closing:
  assumes "life_ok env a"
  shows "said_goodbye a (actor_step env inp a)
      = (if a_state a \<noteq> CLOSED \<and> a_state (actor_step env inp a) = CLOSED then [env_sessionId env] else [])"
    and "life_ok env (actor_step env inp a)"
    and "a_state a = CLOSED \<Longrightarrow> a_state (actor_step env inp a) = CLOSED"
proof -
  have o: "onward env a (actor_step env inp a)" by (rule step_onward [OF assms])
  then show "life_ok env (actor_step env inp a)" by (simp add: onward_def)
  moreover have stay: "a_state (actor_step env inp a) = CLOSED" if "a_state a = CLOSED"
    using o that by (cases "a_state (actor_step env inp a)") (simp_all add: onward_def state_order)
  ultimately show "said_goodbye a (actor_step env inp a)
      = (if a_state a \<noteq> CLOSED \<and> a_state (actor_step env inp a) = CLOSED then [env_sessionId env] else [])"
    using assms by (auto simp: said_goodbye_def life_ok_def)
  show "a_state a = CLOSED \<Longrightarrow> a_state (actor_step env inp a) = CLOSED" by (rule stay)
qed

lemma mirror_actor_does:
  assumes m: "mirror s"
  shows "mirror (actor_does r inp s)"
proof (cases "r < length (rs_actors s)")
  case False
  then show ?thesis using m by (simp add: actor_does_def)
next
  case True
  obtain env a where ea: "rs_actors s ! r = (env, a)" by fastforce
  have lo: "life_ok env a" using m True ea unfolding mirror_def by (metis fst_conv snd_conv)
  let ?a = "actor_step env inp a"
  note g = goodbye_when_closing [OF lo, of inp]
  let ?s = "s\<lparr>rs_actors := (rs_actors s)[r := (env, ?a)]\<rparr>"
  have step: "actor_does r inp s = unregister_all (said_goodbye a ?a) ?s"
    using True ea by (simp add: actor_does_def Let_def)
  have life: "\<forall>q < length (rs_actors ?s). life_ok (fst (rs_actors ?s ! q)) (snd (rs_actors ?s ! q))"
    using m g(2) True by (simp add: mirror_def nth_list_update)
  have sid: "sid_at ?s q = sid_at s q" for q
    using True ea by (simp add: sid_at_def nth_list_update) (metis fst_conv list_update_beyond not_le nth_list_update)
  have opn: "open_actors ?s = (if a_state a \<noteq> CLOSED \<and> a_state ?a = CLOSED then open_actors s - {r} else open_actors s)"
    using True ea g(3) by (auto simp: open_actors_def nth_list_update split: if_splits)
  have refs: "map_of (rs_refs s) i = Some q \<longleftrightarrow> q \<in> open_actors s \<and> sid_at s q = i" for i q
    using m by (simp add: mirror_def)
  show ?thesis
  proof (cases "a_state a \<noteq> CLOSED \<and> a_state ?a = CLOSED")
    case False
    then have "said_goodbye a ?a = []" using g(1) by simp
    then have "actor_does r inp s = ?s" using step by (simp add: unregister_all_def)
    then show ?thesis using m life sid opn False by (simp add: mirror_def)
  next
    case True': True
    let ?i = "env_sessionId env"
    have mine: "r \<in> open_actors s" "sid_at s r = ?i" using True True' ea by (simp_all add: open_actors_def sid_at_def)
    have "said_goodbye a ?a = [?i]" using g(1) True' by simp
    then have eq: "actor_does r inp s
        = ?s\<lparr>rs_registry := reg_unregister ?i (rs_registry s), rs_refs := map_delete ?i (rs_refs s)\<rparr>" (is "_ = ?t")
      using step by (simp add: unregister_all_def)
    have "map_of (rs_refs ?t) i = Some q \<longleftrightarrow> q \<in> open_actors ?t \<and> sid_at ?t q = i" for i q
    proof -
      have "open_actors ?t = open_actors s - {r}" "sid_at ?t q = sid_at s q"
        using opn True' sid [of q] by (simp_all add: open_actors_def sid_at_def)
      moreover have "q = r" if "q \<in> open_actors s" "sid_at s q = ?i"
        using refs [of ?i q] refs [of ?i r] that mine by simp
      ultimately show ?thesis using refs [of i q] mine by auto
    qed
    moreover have "reg_get (rs_registry ?t) i = None \<longleftrightarrow> map_of (rs_refs ?t) i = None" for i
      using m by (simp add: mirror_def)
    moreover have "reg_ok (rs_registry ?t)" using m unregister_ok [of "rs_registry s" ?i] by (simp add: mirror_def)
    ultimately show ?thesis unfolding eq mirror_def using life by simp
  qed
qed

lemma mirror_built:
  assumes m: "mirror s"
  shows "mirror (handshake_built e now i token result s)"
proof (cases "map_of (rs_building s) i")
  case None
  then show ?thesis using m by (simp add: handshake_built_def)
next
  case (Some claims)
  let ?b = "s\<lparr>rs_building := filter (\<lambda>v. fst v \<noteq> i) (rs_building s)\<rparr>"
  let ?h = "\<lparr>sh_sessionId = claim_sid claims, sh_userId = claim_sub claims, sh_projectorToken = token\<rparr>"
  have rej: "mirror (reject_handshake i ''INTERNAL'' ?b)" using m mirror_same [of "reject_handshake i ''INTERNAL'' ?b" s] by simp
  show ?thesis
  proof (cases "result = None \<or> reg_register ?h (rs_registry s) = None")
    case True
    then have "handshake_built e now i token result s = reject_handshake i ''INTERNAL'' ?b"
      using Some by (auto simp: handshake_built_def Let_def split: option.split)
    then show ?thesis using rej by simp
  next
    case False
    then obtain bal kt key reg where r: "result = Some (bal, kt, key)" "reg_register ?h (rs_registry s) = Some reg"
      by (metis not_None_eq prod_cases3)
    let ?parts = "buildSession (se_conf e) (se_unicode e) claims bal kt key"
    let ?n = "length (rs_actors s)"
    let ?t = "?b\<lparr>rs_registry := reg, rs_refs := map_set (claim_sid claims) ?n (rs_refs s),
                 rs_actors := rs_actors s @ [(sp_env ?parts, actor_of ?parts now)]\<rparr>"
    let ?u = "case rs_conns s ! i of Studio_conn x \<Rightarrow> set_conn i (Studio_conn (x\<lparr>sk_actor := Some ?n\<rparr>)) ?t
                                   | Projector_conn p \<Rightarrow> ?t"
    have eq: "handshake_built e now i token result s = actor_does ?n In_start ?u"
      using Some r by (simp add: handshake_built_def Let_def)
    have part: "sessions_part ?u = sessions_part ?t" by (simp split: connection.split)
    have id: "env_sessionId (sp_env ?parts) = claim_sid claims" by (simp add: buildSession_def Let_def)
    have open_new: "a_state (actor_of ?parts now) \<noteq> CLOSED" by (simp add: actor_of_def new_actor_def)
    note reg = reg_get_register [OF r(2)]
    have free: "map_of (rs_refs s) (claim_sid claims) = None" using m reg by (auto simp: mirror_def)
    have opn: "open_actors ?t = insert ?n (open_actors s)"
      using open_new by (auto simp: open_actors_def nth_append)
    have sid: "sid_at ?t q = (if q = ?n then claim_sid claims else sid_at s q)" if "q \<in> insert ?n (open_actors s)" for q
      using that id by (auto simp: sid_at_def open_actors_def nth_append)
    have refs: "map_of (rs_refs s) k = Some q \<longleftrightarrow> q \<in> open_actors s \<and> sid_at s q = k" for k q
      using m by (simp add: mirror_def)
    have n: "?n \<notin> open_actors s" by (simp add: open_actors_def)
    have "mirror ?t" unfolding mirror_def
    proof (intro conjI allI)
      show "reg_ok (rs_registry ?t)" using m register_ok [OF _ r(2)] by (simp add: mirror_def)
    next
      fix q
      show "q < length (rs_actors ?t) \<longrightarrow> life_ok (fst (rs_actors ?t ! q)) (snd (rs_actors ?t ! q))"
        using m by (simp add: mirror_def nth_append actor_of_def life_ok_new)
    next
      fix k
      show "reg_get (rs_registry ?t) k = None \<longleftrightarrow> map_of (rs_refs ?t) k = None"
        using m conjunct2 [OF reg] by (simp add: mirror_def)
    next
      fix k q
      show "map_of (rs_refs ?t) k = Some q \<longleftrightarrow> q \<in> open_actors ?t \<and> sid_at ?t q = k"
      proof (cases "q = ?n")
        case True
        have "sid_at ?t ?n = claim_sid claims" using sid [of ?n] by simp
        then show ?thesis using refs [of k ?n] n unfolding opn True by auto
      next
        case False
        have "q \<in> open_actors s \<Longrightarrow> sid_at ?t q = sid_at s q" using sid [of q] False by simp
        then show ?thesis using refs [of k q] refs [of "claim_sid claims" q] free False unfolding opn by auto
      qed
    qed
    then have "mirror ?u" using mirror_same [OF part] by simp
    then show ?thesis unfolding eq by (rule mirror_actor_does)
  qed
qed

lemma mirror_fold:
  "(\<And>x s. mirror s \<Longrightarrow> mirror (f x s)) \<Longrightarrow> mirror s \<Longrightarrow> mirror (fold f xs s)"
  by (induction xs arbitrary: s) auto

lemma mirror_step:
  assumes m: "mirror s"
  shows "mirror (server_step e inp s)"
proof -
  have same: "mirror s'" if "sessions_part s' = sessions_part s" for s'
    using that m mirror_same by blast
  have does: "mirror (actor_does r x s')" if "sessions_part s' = sessions_part s" for r x s'
    by (rule mirror_actor_does [OF same [OF that]])
  show ?thesis
  proof (cases inp)
    case (In_upgrade now path ip)
    show ?thesis unfolding In_upgrade server_step.simps
      by (rule same) (auto simp: upgrade_def accept_studio_def accept_projector_def Let_def split: prod.split)
  next
    case (In_studio_frame now i frame)
    have "mirror (on_studio_frame now i x frame s)" for x
      by (auto simp: on_studio_frame_def intro!: same does split: studio_frame.split option.split studio_message.split)
    then show ?thesis using m by (simp add: In_studio_frame split: connection.split)
  next
    case (In_projector_frame i parsed)
    have "mirror (on_projector_frame i p parsed s)" for p
      by (auto simp: on_projector_frame_def intro!: same split: option.split projector_message.split)
    then show ?thesis using m by (simp add: In_projector_frame split: connection.split)
  next
    case (In_timeout i)
    have "mirror (studio_timer i x s)" "mirror (projector_timer i p s)" for x p
      by (auto simp: studio_timer_def projector_timer_def Let_def intro!: same)
    then show ?thesis using m by (simp add: In_timeout split: connection.split)
  next
    case (In_gone now i)
    have "mirror (studio_gone now i x s)" "mirror (projector_gone i p s)" for x p
      by (auto simp: studio_gone_def projector_gone_def Let_def intro!: same does split: option.split)
    then show ?thesis using m by (simp add: In_gone split: connection.split)
  next
    case (In_verified now i)
    show ?thesis unfolding In_verified server_step.simps
      by (rule same) (auto simp: handshake_verified_def Let_def split: option.split prod.split sum.split)
  next
    case (In_built now i token result)
    then show ?thesis using mirror_built [OF m] by simp
  next
    case (In_resolved i rows)
    show ?thesis unfolding In_resolved server_step.simps projector_resolved_def Let_def
      using m by (auto intro!: same does split: option.split connection.split)
  next
    case (In_session r x)
    then show ?thesis using m does [OF refl] by simp
  next
    case In_drain_begin
    show ?thesis unfolding In_drain_begin server_step.simps by (rule same) (simp add: drain_begin_def)
  next
    case (In_drain_turn now deadline why)
    have "mirror (close_all now why s')" if "mirror s'" for s'
      unfolding close_all_def using that
      by (intro mirror_fold) (auto intro!: mirror_actor_does split: option.split)
    then show ?thesis using m same by (auto simp: In_drain_turn drain_turn_def)
  qed
qed

lemma mirror_new: "mirror new_server"
  by (simp add: mirror_def new_server_def open_actors_def reg_get_def new_registry_def [symmetric])
     (simp add: new_registry_def)

lemma mirror_run: "mirror (server_run e ins new_server)"
  unfolding server_run_def by (rule mirror_fold [OF mirror_step mirror_new])

text \<open>
  C15: The registry is exactly the sessions that have not closed. Whatever arrives at the front door, in any order and
  however the handshakes, the lookups and the drain interleave: the ids in the registry are those of the actors that
  have not closed, no two of these share an id, and the number that \<open>healthz\<close> reports is their number.
\<close>

theorem registry_mirrors_sessions:
  "let s = server_run e ins new_server in
     {sid. reg_get (rs_registry s) sid \<noteq> None} = sid_at s ` open_actors s
     \<and> inj_on (sid_at s) (open_actors s)
     \<and> healthz ''/healthz'' s
         = (if rs_draining s then 503 else 200,
            Some (if rs_draining s then ''draining'' else ''ok'', card (open_actors s)))"
proof -
  define s where "s = server_run e ins new_server"
  have m: "mirror s" unfolding s_def by (rule mirror_run)
  then have refs: "map_of (rs_refs s) i = Some q \<longleftrightarrow> q \<in> open_actors s \<and> sid_at s q = i" for i q
    by (simp add: mirror_def)
  have ids: "{sid. reg_get (rs_registry s) sid \<noteq> None} = sid_at s ` open_actors s"
    using m refs by (auto simp: mirror_def)
  have inj: "inj_on (sid_at s) (open_actors s)"
  proof (rule inj_onI)
    fix q r
    assume "q \<in> open_actors s" "r \<in> open_actors s" "sid_at s q = sid_at s r"
    then show "q = r" using refs [of "sid_at s r" q] refs [of "sid_at s r" r] by simp
  qed
  have "keys_distinct (reg_sessions (rs_registry s))" using m by (simp add: mirror_def reg_ok_def)
  then have "reg_size (rs_registry s) = card (fst ` set (reg_sessions (rs_registry s)))"
    by (metis distinct_card length_map list.set_map reg_size_def)
  also have "fst ` set (reg_sessions (rs_registry s)) = {sid. reg_get (rs_registry s) sid \<noteq> None}"
    by (auto simp: reg_get_def map_of_eq_None_iff)
  also have "card \<dots> = card (open_actors s)" unfolding ids by (rule card_image [OF inj])
  finally show ?thesis using ids inj by (simp add: s_def [symmetric] healthz_def Let_def)
qed

section \<open>Where the handshake is late\<close>

text \<open>A front door whose tokens are the names of their sessions, all of one user on the trial plan (one session).\<close>

definition demo_claims :: "string \<Rightarrow> relay_jwt_claims" where
  "demo_claims t = \<lparr>claim_sub = ''u'', claim_sid = t, claim_aud = ''relay'', claim_jti = t, claim_plan = ''trial'',
     claim_reserved = 5, claim_cfg = default_SessionConfig, claim_exp = 60, claim_iat = 0\<rparr>"

definition demo_door :: "string server_env" where
  "demo_door = \<lparr>se_conf = \<lparr>rcf_sttModel = [], rcf_ttsModel = [], rcf_region = Region_eu, rcf_modelFast = [], rcf_modelQuality = []\<rparr>,
     se_unicode = latin_tables, se_verify = (\<lambda>t now. Inr t), se_parse = (\<lambda>t. Some (demo_claims t)), se_sha256 = (\<lambda>t. [])\<rparr>"

definition hello :: "string \<Rightarrow> studio_frame" where
  "hello jwt = Frame_text (Some (Studio_hello PROTOCOL_VERSION jwt default_SessionConfig))"

definition built :: "(reservation_result \<times> jstring list \<times> jstring) option" where
  "built = Some (\<lparr>granted = 0, rr_balanceRemaining = 5\<rparr>, [], [])"

text \<open>
  The gate looks at the registry before the session is built and registered after: two handshakes of one
  user that are verified before either is built both pass, and two sessions run on a plan of one.
\<close>

lemma gate_is_passed_twice:
  "(let s = server_run demo_door
      [In_upgrade 0 ''/session'' ''ip'', In_upgrade 0 ''/session'' ''ip'', In_studio_frame 0 0 (hello ''s1''),
       In_studio_frame 0 1 (hello ''s2''), In_verified 0 0, In_verified 0 1, In_built 0 0 ''p1'' built, In_built 0 1 ''p2'' built]
      new_server
    in reg_activeFor (rs_registry s) ''u'' = 2 \<and> maxConcurrentSessions (planOf ''trial'') = 1)"
  by code_simp

text \<open>
  A studio that goes away while its session is being built leaves the session behind: its \<open>close\<close> event
  finds no actor, and the actor made afterwards runs for a closed socket and holds the user's place.
\<close>

lemma session_without_a_studio:
  "(let s = server_run demo_door
      [In_upgrade 0 ''/session'' ''ip'', In_studio_frame 0 0 (hello ''s1''), In_verified 0 0, In_gone 0 0, In_built 0 0 ''p1'' built]
      new_server
    in a_state (snd (rs_actors s ! 0)) = RUNNING \<and> reg_activeFor (rs_registry s) ''u'' = 1
     \<and> (case rs_conns s ! 0 of Studio_conn x \<Rightarrow> sk_ws x = Ws_closed \<and> \<not> sk_handlers x | Projector_conn p \<Rightarrow> False))"
  by code_simp

text \<open>A message that closes the socket does not end the handshake: the next one can still start a session on it.\<close>

lemma hello_after_a_bad_message:
  "(let s = server_run demo_door
      [In_upgrade 0 ''/session'' ''ip'', In_studio_frame 0 0 (Frame_text None), In_studio_frame 0 0 (hello ''s1''),
       In_verified 0 0, In_built 0 0 ''p1'' built]
      new_server
    in rs_out s = [Srv_close 0 4008 ''malformed control message''] \<and> reg_activeFor (rs_registry s) ''u'' = 1)"
  by code_simp

end
