(* ===== verification/Projector_Store.thy ===== *)
theory Projector_Store
  imports Session_Wire
begin

text \<open>
  \<open>apps/web/app/projector/lib/caption-store.ts\<close>: what the browser source in OBS keeps and shows. The
  reducer \<open>applyRelayMessage\<close> is composed with the messages of a session: a projector that loses its
  socket and comes back ends where it would have been.
\<close>

section \<open>The reducer\<close>

record shown_card =
  sw_card :: caption_card
  sw_rev :: nat

record projector_state =
  ps_sessionId :: "string option"
  ps_cards :: "shown_card list"
  ps_render :: render_config
  ps_watermark :: bool
  ps_lastSeq :: nat

definition MAX_CARDS :: nat where
  "MAX_CARDS = 8"

definition INITIAL_STATE :: projector_state where
  "INITIAL_STATE =
     \<lparr>ps_sessionId = None, ps_cards = [], ps_render = default_RenderConfig, ps_watermark = False, ps_lastSeq = 0\<rparr>"

definition blankCard :: "string \<Rightarrow> shown_card" where
  "blankCard i =
     \<lparr>sw_card = \<lparr>cc_cardId = i, cc_text = [], cc_stable = 0, cc_tr = None, cc_trFinal = False, cc_state = Wire_live, cc_at = 0\<rparr>,
      sw_rev = 0\<rparr>"

text \<open>\<open>findIndex\<close> and the change at that index.\<close>

fun change_first :: "('a \<Rightarrow> bool) \<Rightarrow> ('a \<Rightarrow> 'a) \<Rightarrow> 'a list \<Rightarrow> 'a list option" where
  "change_first P f [] = None"
| "change_first P f (x # xs) =
     (if P x then Some (f x # xs) else map_option (\<lambda>ys. x # ys) (change_first P f xs))"

definition withCard :: "projector_state \<Rightarrow> nat \<Rightarrow> string \<Rightarrow> (shown_card \<Rightarrow> shown_card) \<Rightarrow> projector_state" where
  "withCard st n i upd =
     st\<lparr>ps_cards := (case change_first (\<lambda>c. cc_cardId (sw_card c) = i) upd (ps_cards st) of
                       Some cards \<Rightarrow> cards
                     | None \<Rightarrow> slice_last MAX_CARDS (ps_cards st @ [upd (blankCard i)])),
        ps_lastSeq := n\<rparr>"

definition or_else :: "'a option \<Rightarrow> 'a option \<Rightarrow> 'a option" where
  "or_else x y = (case x of None \<Rightarrow> y | Some v \<Rightarrow> Some v)"

definition partial_card :: "jstring \<Rightarrow> nat \<Rightarrow> (string, jstring) jsmap option \<Rightarrow> shown_card \<Rightarrow> shown_card" where
  "partial_card s n tr c =
     c\<lparr>sw_card := (sw_card c)\<lparr>cc_text := s, cc_stable := n, cc_tr := or_else tr (cc_tr (sw_card c)),
                              cc_trFinal := False, cc_state := Wire_live\<rparr>\<rparr>"

definition settled_card :: "jstring \<Rightarrow> (string, jstring) jsmap option \<Rightarrow> shown_card \<Rightarrow> shown_card" where
  "settled_card s tr c =
     c\<lparr>sw_card := (sw_card c)\<lparr>cc_text := s, cc_stable := length s, cc_tr := or_else tr (cc_tr (sw_card c)),
                              cc_trFinal := (tr \<noteq> None \<or> cc_trFinal (sw_card c)), cc_state := Wire_settled\<rparr>\<rparr>"

definition retracted_card :: "jstring \<Rightarrow> (string, jstring) jsmap option \<Rightarrow> shown_card \<Rightarrow> shown_card" where
  "retracted_card s tr c = (settled_card s tr c)\<lparr>sw_rev := sw_rev c + 1\<rparr>"

definition fading_card :: "shown_card \<Rightarrow> shown_card" where
  "fading_card c = c\<lparr>sw_card := (sw_card c)\<lparr>cc_state := Wire_fading\<rparr>\<rparr>"

definition already_seen :: "projector_state \<Rightarrow> relay_message \<Rightarrow> bool" where
  "already_seen st msg \<longleftrightarrow> (case seq_of msg of None \<Rightarrow> False | Some n \<Rightarrow> n \<le> ps_lastSeq st)"

definition applyRelayMessage :: "projector_state \<Rightarrow> relay_message \<Rightarrow> projector_state" where
  "applyRelayMessage st msg =
     (case msg of
        Relay_snapshot n sid cards r w \<Rightarrow>
          \<lparr>ps_sessionId = Some sid, ps_cards = map (\<lambda>c. \<lparr>sw_card = c, sw_rev = 0\<rparr>) (slice_last MAX_CARDS cards),
           ps_render = r, ps_watermark = w, ps_lastSeq = n\<rparr>
      | _ \<Rightarrow>
          if already_seen st msg then st
          else (case msg of
                  Relay_render n r \<Rightarrow> st\<lparr>ps_render := r, ps_lastSeq := n\<rparr>
                | Relay_partial n i s k tr \<Rightarrow> withCard st n i (partial_card s k tr)
                | Relay_commit n i s tr \<Rightarrow> withCard st n i (settled_card s tr)
                | Relay_retract n i s tr \<Rightarrow> withCard st n i (retracted_card s tr)
                | Relay_cardEnd n i \<Rightarrow> withCard st n i fading_card
                | _ \<Rightarrow> st))"

definition apply_all :: "projector_state \<Rightarrow> relay_message list \<Rightarrow> projector_state" where
  "apply_all st msgs = foldl applyRelayMessage st msgs"

section \<open>What is shown\<close>

text \<open>The loop from the last card down: a pop-on display skips live cards.\<close>

fun select_from_end :: "caption_mode \<Rightarrow> shown_card list \<Rightarrow> shown_card option" where
  "select_from_end mode [] = None"
| "select_from_end mode (c # cs) =
     (if mode = Popon \<and> cc_state (sw_card c) = Wire_live then select_from_end mode cs else Some c)"

definition selectActiveCard :: "shown_card list \<Rightarrow> caption_mode \<Rightarrow> shown_card option" where
  "selectActiveCard cards mode = select_from_end mode (rev cards)"

record text_block =
  tb_key :: string
  tb_text :: jstring
  tb_stable :: nat

definition pickTranslation :: "caption_card \<Rightarrow> string option \<Rightarrow> (string \<times> jstring) option" where
  "pickTranslation c lang =
     (case cc_tr c of
        None \<Rightarrow> None
      | Some tr \<Rightarrow>
          if truthy lang then
            (case map_of tr (the lang) of Some s \<Rightarrow> if s \<noteq> [] then Some (the lang, s) else None | None \<Rightarrow> None)
          else (case tr of [] \<Rightarrow> None | (l, s) # rest \<Rightarrow> if s \<noteq> [] then Some (l, s) else None))"

definition cardBlocks :: "shown_card \<Rightarrow> render_config \<Rightarrow> string option \<Rightarrow> text_block list" where
  "cardBlocks c render lang =
     (let crd = sw_card c
      in (if rc_showSource render \<and> length (cc_text crd) > 0
          then [\<lparr>tb_key = ''src'', tb_text = cc_text crd, tb_stable = cc_stable crd\<rparr>] else [])
       @ (if rc_showTranslation render then
            (case pickTranslation crd lang of
               None \<Rightarrow> []
             | Some (l, s) \<Rightarrow> [\<lparr>tb_key = ''tr:'' @ l, tb_text = s, tb_stable = (if cc_trFinal crd then length s else 0)\<rparr>])
          else []))"

record line_parts =
  lp_key :: string
  lp_stable :: jstring
  lp_tail :: jstring

fun lines_loop :: "string \<Rightarrow> nat \<Rightarrow> nat \<Rightarrow> nat \<Rightarrow> jstring list \<Rightarrow> line_parts list" where
  "lines_loop key stb offset i [] = []"
| "lines_loop key stb offset i (l # ls) =
     (let inLine = min (max (stb - offset) 0) (length l)
      in \<lparr>lp_key = key @ '':'' @ show_nat i, lp_stable = take inLine l, lp_tail = drop inLine l\<rparr>
         # lines_loop key stb (offset + length l + 1) (i + 1) ls)"

definition toLines :: "text_block \<Rightarrow> line_parts list" where
  "toLines b = lines_loop (tb_key b) (tb_stable b) 0 0 (split_on 10 (tb_text b))"

section \<open>Query overrides\<close>

definition is_dec :: "char \<Rightarrow> bool" where
  "is_dec c \<longleftrightarrow> 48 \<le> (of_char c :: nat) \<and> (of_char c :: nat) < 58"

text \<open>A sign and what follows it.\<close>

definition split_sign :: "string \<Rightarrow> int \<times> string" where
  "split_sign s =
     (case s of [] \<Rightarrow> (1, [])
      | c # r \<Rightarrow> if c = CHR ''-'' then (- 1, r) else if c = CHR ''+'' then (1, r) else (1, s))"

text \<open>\<open>Number.parseInt(raw, 10)\<close>: white space, a sign, the longest run of digits; no digit is \<open>NaN\<close>. The query is a string
  of 8-bit characters; \<open>ascii_ws\<close> is the white space of JavaScript among them, the no-break space included.\<close>

definition toInt :: "string option \<Rightarrow> int option" where
  "toInt raw =
     (case raw of
        None \<Rightarrow> None
      | Some s \<Rightarrow>
          (case split_sign (dropWhile ascii_ws s) of
             (sg, r) \<Rightarrow>
               let ds = takeWhile is_dec r
               in if ds = [] then None else Some (sg * int (read_digits ds))))"

text \<open>\<open>Number.parseFloat\<close>: the longest decimal literal, with an exponent when it has digits. \<open>Infinity\<close> is not
  finite and so, like no literal at all, is \<open>undefined\<close>.\<close>

definition exponent_of :: "string \<Rightarrow> int" where
  "exponent_of r =
     (case r of
        [] \<Rightarrow> 0
      | c # r' \<Rightarrow>
          if c = CHR ''e'' \<or> c = CHR ''E'' then
            (case split_sign r' of (sg, x) \<Rightarrow> sg * int (read_digits (takeWhile is_dec x)))
          else 0)"

definition ten_to :: "int \<Rightarrow> rat" where
  "ten_to e = (if 0 \<le> e then 10 ^ nat e else 1 / 10 ^ nat (- e))"

definition toFloat :: "string option \<Rightarrow> rat option" where
  "toFloat raw =
     (case raw of
        None \<Rightarrow> None
      | Some s \<Rightarrow>
          (case split_sign (dropWhile ascii_ws s) of
             (sg, r) \<Rightarrow>
               let whole = takeWhile is_dec r; r = dropWhile is_dec r;
                   frac = (case r of c # r' \<Rightarrow> if c = CHR ''.'' then takeWhile is_dec r' else [] | [] \<Rightarrow> []);
                   r = (case r of c # r' \<Rightarrow> if c = CHR ''.'' then dropWhile is_dec r' else r | [] \<Rightarrow> [])
               in if whole = [] \<and> frac = [] then None
                  else Some (of_int sg * of_nat (read_digits (whole @ frac)) * ten_to (exponent_of r - int (length frac)))))"

record render_overrides =
  ov_style :: "caption_style option"
  ov_maxLines :: "nat option"
  ov_fontSize :: "nat option"
  ov_safeAreaPct :: "jsnum option"

definition style_of :: "string option \<Rightarrow> caption_style option" where
  "style_of s =
     (if s = Some ''clean'' then Some Clean else if s = Some ''broadcast'' then Some Broadcast
      else if s = Some ''minimal'' then Some Minimal else if s = Some ''karaoke'' then Some Karaoke else None)"

definition int_between :: "int \<Rightarrow> int \<Rightarrow> int option \<Rightarrow> nat option" where
  "int_between lo hi v = (case v of Some n \<Rightarrow> if lo \<le> n \<and> n \<le> hi then Some (nat n) else None | None \<Rightarrow> None)"

definition readOverrides :: "(string \<Rightarrow> string option) \<Rightarrow> render_overrides \<times> string option" where
  "readOverrides query =
     (\<lparr>ov_style = style_of (query ''style''),
       ov_maxLines = int_between 1 3 (toInt (query ''lines'')),
       ov_fontSize = int_between 20 96 (toInt (query ''size'')),
       ov_safeAreaPct = (case toFloat (query ''safe'') of Some x \<Rightarrow> if 0 \<le> x \<and> x \<le> 15 then Some x else None | None \<Rightarrow> None)\<rparr>,
      (case query ''lang'' of Some l \<Rightarrow> if LanguageCode l then Some l else None | None \<Rightarrow> None))"

definition resolveRender :: "render_config \<Rightarrow> render_overrides \<Rightarrow> render_config" where
  "resolveRender base ov =
     base\<lparr>rc_style := (case ov_style ov of Some x \<Rightarrow> x | None \<Rightarrow> rc_style base),
          rc_maxLines := (case ov_maxLines ov of Some x \<Rightarrow> x | None \<Rightarrow> rc_maxLines base),
          rc_fontSize := (case ov_fontSize ov of Some x \<Rightarrow> x | None \<Rightarrow> rc_fontSize base),
          rc_safeAreaPct := (case ov_safeAreaPct ov of Some x \<Rightarrow> x | None \<Rightarrow> rc_safeAreaPct base)\<rparr>"

section \<open>Lines keep the text and its stable part\<close>

text \<open>Joining the lines gives the text back; joining their stable parts, cut where the stable part ends.\<close>

definition whole_line :: "line_parts \<Rightarrow> jstring" where
  "whole_line l = lp_stable l @ lp_tail l"

lemma lines_loop_whole: "map whole_line (lines_loop key stb offset i ls) = ls"
  by (induction key stb offset i ls rule: lines_loop.induct) (simp_all add: Let_def whole_line_def)

lemma join_split_on [simp]: "join [sep] (split_on sep s) = s"
proof (induction sep s rule: split_on.induct)
  case (2 sep c s)
  obtain p ps where p: "split_on sep s = p # ps" by (cases "split_on sep s") auto
  show ?case using 2 p by (cases ps) auto
qed simp

text \<open>The characters of the lines that count as stable are the stable prefix of the text.\<close>

lemma lines_loop_stable:
  "ls \<noteq> [] \<Longrightarrow> concat (map lp_stable (lines_loop key stb offset i ls))
     = filter (\<lambda>c. c \<noteq> 10) (take (stb - offset) (join [10] ls))" if "\<forall>l \<in> set ls. 10 \<notin> set l"
  using that
proof (induction key stb offset i ls rule: lines_loop.induct)
  case (2 key stb offset i l ls)
  have l: "filter (\<lambda>c. c \<noteq> 10) (take n l) = take n l" for n
    using "2.prems" by (auto simp: filter_id_conv dest: in_set_takeD)
  have t: "take (min (max (stb - offset) 0) (length l)) l = take (stb - offset) l"
    by (simp add: min_def)
  have head: "concat (map lp_stable (lines_loop key stb offset i (l # ls)))
      = take (stb - offset) l @ concat (map lp_stable (lines_loop key stb (offset + length l + 1) (i + 1) ls))"
    using t by (simp add: Let_def)
  show ?case
  proof (cases ls)
    case Nil
    then show ?thesis using head l by simp
  next
    case (Cons l2 rest)
    have IH: "concat (map lp_stable (lines_loop key stb (offset + length l + 1) (i + 1) ls))
        = filter (\<lambda>c. c \<noteq> 10) (take (stb - (offset + length l + 1)) (join [10] ls))"
      using "2.IH" [OF refl] "2.prems" Cons by simp
    have j: "join [10] (l # ls) = l @ 10 # join [10] ls" using Cons by simp
    have "take (stb - offset) (join [10] (l # ls))
        = take (stb - offset) l @ take (stb - offset - length l) (10 # join [10] ls)"
      by (simp add: j)
    moreover have "filter (\<lambda>c. c \<noteq> 10) (take (stb - offset - length l) (10 # join [10] ls))
        = filter (\<lambda>c. c \<noteq> 10) (take (stb - (offset + length l + 1)) (join [10] ls))"
    proof -
      define n where "n = stb - offset - length l"
      have "stb - (offset + length l + 1) = n - 1" by (simp add: n_def)
      then show ?thesis unfolding n_def [symmetric] by (cases n) simp_all
    qed
    ultimately have "filter (\<lambda>c. c \<noteq> 10) (take (stb - offset) (join [10] (l # ls)))
        = take (stb - offset) l @ filter (\<lambda>c. c \<noteq> 10) (take (stb - (offset + length l + 1)) (join [10] ls))"
      using l by simp
    then show ?thesis using IH head by simp
  qed
qed simp

lemma lines_keep_the_text:
  "join [10] (map whole_line (toLines b)) = tb_text b"
  "concat (map lp_stable (toLines b)) = filter (\<lambda>c. c \<noteq> 10) (take (tb_stable b) (tb_text b))"
proof -
  show "join [10] (map whole_line (toLines b)) = tb_text b"
    by (simp add: toLines_def lines_loop_whole)
  have "\<forall>l \<in> set (split_on 10 (tb_text b)). 10 \<notin> set l" by (auto dest: split_on_no_sep)
  from lines_loop_stable [OF this split_on_not_Nil, of "tb_key b" "tb_stable b" 0 0]
  show "concat (map lp_stable (toLines b)) = filter (\<lambda>c. c \<noteq> 10) (take (tb_stable b) (tb_text b))"
    by (simp add: toLines_def)
qed

lemma int_between_ok: "0 \<le> lo \<Longrightarrow> opt_ok (\<lambda>n. nat lo \<le> n \<and> n \<le> nat hi) (int_between lo hi v)"
  by (auto simp: int_between_def opt_ok_def split: option.split)

section \<open>The overrides keep the render configuration valid\<close>

text \<open>
  C37: The OBS link cannot break the layout. Whatever stands in the query string, the render configuration the projector
  uses is valid when the one the relay sent is: every override that parses is within the bounds of the schema, every
  other one is ignored, and the language override is a language code.
\<close>

theorem overrides_keep_render_valid:
  assumes "RenderConfig_ok base" and "readOverrides query = (ov, lang)"
  shows "RenderConfig_ok (resolveRender base ov) \<and> opt_ok LanguageCode lang
     \<and> rc_mode (resolveRender base ov) = rc_mode base \<and> rc_maxCharsPerLine (resolveRender base ov) = rc_maxCharsPerLine base"
proof -
  have f: "ov_maxLines ov = int_between 1 3 (toInt (query ''lines''))" "ov_fontSize ov = int_between 20 96 (toInt (query ''size''))"
    "ov_safeAreaPct ov = (case toFloat (query ''safe'') of Some x \<Rightarrow> if 0 \<le> x \<and> x \<le> 15 then Some x else None | None \<Rightarrow> None)"
    "lang = (case query ''lang'' of Some l \<Rightarrow> if LanguageCode l then Some l else None | None \<Rightarrow> None)"
    using assms(2) by (auto simp: readOverrides_def)
  have ov: "opt_ok (\<lambda>n. 1 \<le> n \<and> n \<le> 3) (ov_maxLines ov)" "opt_ok (\<lambda>n. 20 \<le> n \<and> n \<le> 96) (ov_fontSize ov)"
    "opt_ok (\<lambda>x. 0 \<le> x \<and> x \<le> 15) (ov_safeAreaPct ov)" "opt_ok LanguageCode lang"
    unfolding f using int_between_ok [of 1 3] int_between_ok [of 20 96] by (auto simp: opt_ok_def split: option.split)
  have "1 \<le> rc_maxLines (resolveRender base ov) \<and> rc_maxLines (resolveRender base ov) \<le> 3"
    "20 \<le> rc_fontSize (resolveRender base ov) \<and> rc_fontSize (resolveRender base ov) \<le> 96"
    "0 \<le> rc_safeAreaPct (resolveRender base ov) \<and> rc_safeAreaPct (resolveRender base ov) \<le> 15"
    using ov assms(1) by (simp_all add: resolveRender_def opt_ok_def RenderConfig_ok_def split: option.splits)
  moreover have "rc_maxCharsPerLine (resolveRender base ov) = rc_maxCharsPerLine base" "rc_mode (resolveRender base ov) = rc_mode base"
    by (simp_all add: resolveRender_def)
  ultimately show ?thesis using assms(1) ov(4) by (simp add: RenderConfig_ok_def)
qed

definition demo_query :: "string \<Rightarrow> string option" where
  "demo_query k = (if k = ''lines'' then Some '' 3x'' else if k = ''size'' then Some ''200''
     else if k = ''safe'' then Some ''7.5e-1'' else if k = ''lang'' then Some ''pl'' else None)"

theorem overrides_keep_render_valid_witness:
  "RenderConfig_ok (resolveRender default_RenderConfig (fst (readOverrides demo_query)))
   \<and> rc_maxLines (resolveRender default_RenderConfig (fst (readOverrides demo_query))) = 3
   \<and> rc_fontSize (resolveRender default_RenderConfig (fst (readOverrides demo_query))) = 44
   \<and> rc_safeAreaPct (resolveRender default_RenderConfig (fst (readOverrides demo_query))) = 3 / 4"
proof -
  have "RenderConfig_ok (resolveRender default_RenderConfig (fst (readOverrides demo_query)))"
    using overrides_keep_render_valid [OF defaults_ok(2), of demo_query "fst (readOverrides demo_query)" "snd (readOverrides demo_query)"]
    by simp
  moreover have "rc_maxLines (resolveRender default_RenderConfig (fst (readOverrides demo_query))) = 3" by code_simp
  moreover have "rc_fontSize (resolveRender default_RenderConfig (fst (readOverrides demo_query))) = 44" by code_simp
  moreover have "rc_safeAreaPct (resolveRender default_RenderConfig (fst (readOverrides demo_query))) = 3 / 4" by code_simp
  ultimately show ?thesis by simp
qed

end
