(* ===== verification/Projector_Resume.thy ===== *)
theory Projector_Resume
  imports Projector_Store
begin

text \<open>
  The session and the projector together: what the relay sends on a reattach (\<open>Session_Actor\<close>), applied by the
  store of the projector (\<open>Projector_Store\<close>).
\<close>

section \<open>Applying numbered messages\<close>

lemma apply_old: "seq_of msg = Some k \<Longrightarrow> \<not> is_snapshot msg \<Longrightarrow> k \<le> ps_lastSeq st \<Longrightarrow> applyRelayMessage st msg = st"
  by (cases msg) (simp_all add: applyRelayMessage_def already_seen_def)

lemma lastSeq_withCard [simp]: "ps_lastSeq (withCard st n i upd) = n"
  by (simp add: withCard_def)

lemma apply_new:
  "seq_of msg = Some k \<Longrightarrow> \<not> is_snapshot msg \<Longrightarrow> may_see Role_captions msg \<Longrightarrow> ps_lastSeq st < k \<Longrightarrow>
     ps_lastSeq (applyRelayMessage st msg) = k"
  by (cases msg) (simp_all add: applyRelayMessage_def already_seen_def may_see_def allowedForRole_def)

text \<open>A list of numbered messages that a captions projector may be sent.\<close>

definition caption_feed :: "(nat \<times> relay_message) list \<Rightarrow> bool" where
  "caption_feed S \<longleftrightarrow> (\<forall>(k, msg) \<in> set S. seq_of msg = Some k \<and> \<not> is_snapshot msg \<and> may_see Role_captions msg)"

lemma replay_is_ignored:
  "caption_feed S \<Longrightarrow> \<forall>p \<in> set S. fst p \<le> ps_lastSeq st \<Longrightarrow> apply_all st (map snd S) = st"
proof (induction S)
  case (Cons p S)
  obtain k msg where p: "p = (k, msg)" by fastforce
  have "applyRelayMessage st msg = st"
    using Cons.prems p by (intro apply_old [of msg k]) (auto simp: caption_feed_def)
  then show ?case using Cons p by (simp add: apply_all_def caption_feed_def)
qed (simp add: apply_all_def)

lemma feed_reaches:
  "caption_feed S \<Longrightarrow> sorted_wrt (<) (map fst S) \<Longrightarrow> \<forall>p \<in> set S. ps_lastSeq st < fst p \<Longrightarrow>
     \<forall>p \<in> set S. fst p \<le> ps_lastSeq (apply_all st (map snd S))"
proof (induction S arbitrary: st)
  case (Cons p S)
  obtain k msg where p: "p = (k, msg)" by fastforce
  let ?st = "applyRelayMessage st msg"
  have k: "ps_lastSeq ?st = k"
    using Cons.prems p by (intro apply_new) (auto simp: caption_feed_def)
  have S: "caption_feed S" "sorted_wrt (<) (map fst S)" "\<forall>q \<in> set S. ps_lastSeq ?st < fst q"
    using Cons.prems p k by (auto simp: caption_feed_def)
  have IH: "\<forall>q \<in> set S. fst q \<le> ps_lastSeq (apply_all ?st (map snd S))" by (rule Cons.IH [OF S])
  moreover have "k \<le> ps_lastSeq (apply_all ?st (map snd S))"
  proof (cases "S = []")
    case True
    then show ?thesis using k by (simp add: apply_all_def)
  next
    case False
    then obtain q where "q \<in> set S" by (cases S) auto
    then show ?thesis using IH S(3) k by fastforce
  qed
  ultimately show ?case using p by (auto simp: apply_all_def)
qed simp

section \<open>Coming back\<close>

text \<open>What a captions projector has been sent of a session up to number \<open>k\<close>, and what it is sent when it attaches.\<close>

definition seen_up_to :: "nat \<Rightarrow> actor \<Rightarrow> (nat \<times> relay_message) list" where
  "seen_up_to k a = filter (\<lambda>(i, msg). i \<le> k \<and> may_see Role_captions msg) (sent (a_out a))"

definition sent_on_attach :: "actor_env \<Rightarrow> nat option \<Rightarrow> actor \<Rightarrow> relay_message list" where
  "sent_on_attach env lastSeq a =
     List.map_filter (\<lambda>e. case e of To_projector p msg \<Rightarrow> Some msg | _ \<Rightarrow> None)
       (drop (length (a_out a)) (a_out (attachProjector env Role_captions lastSeq a)))"

lemma sent_on_attach_eq:
  assumes "a_out (attachProjector env Role_captions lastSeq a) = a_out a @ map (To_projector p) msgs"
  shows "sent_on_attach env lastSeq a = msgs"
  using assms by (simp add: sent_on_attach_def List.map_filter_def o_def)

lemma sent_seq: "p \<in> set (sent es) \<Longrightarrow> seq_of (snd p) = Some (fst p)"
proof -
  have "numbered e = Some q \<Longrightarrow> seq_of (snd q) = Some (fst q)" for e q
    by (cases e) auto
  then show "p \<in> set (sent es) \<Longrightarrow> seq_of (snd p) = Some (fst p)" by (auto simp: sent_def set_map_filter)
qed

lemma caption_feed_sent:
  assumes "actor_reach env cfg m now a"
  shows "caption_feed (filter (\<lambda>(i, msg). Q i \<and> may_see Role_captions msg) (sent (a_out a)))"
  using wire_ok_reach [OF assms] sent_seq unfolding caption_feed_def wire_ok_def by fastforce

lemma sorted_numbers: "sorted_wrt (<) [i..<j]"
  by (rule sorted_wrt_upt)

lemma split_feed:
  assumes "sorted_wrt (<) (map fst S)" and "n \<le> (q :: nat)"
  shows "filter (\<lambda>(i, msg). i \<le> q \<and> P msg) S
     = filter (\<lambda>(i, msg). i \<le> n \<and> P msg) S @ filter (\<lambda>(i, msg). (n < i \<and> i \<le> q) \<and> P msg) S"
  using assms(1)
proof (induction S)
  case (Cons p S)
  show ?case
  proof (cases "n < fst p")
    case True
    then have "filter (\<lambda>p. fst p \<le> n \<and> P (snd p)) S = []" using Cons.prems by (auto simp: filter_empty_conv)
    then show ?thesis using Cons True assms(2) by (auto simp: split_beta)
  next
    case False
    then show ?thesis using Cons assms(2) by (auto simp: split_beta)
  qed
qed simp

text \<open>The same for the part after \<open>m\<close>: it splits at \<open>n\<close>, and \<open>n\<close> is not before \<open>m\<close>.\<close>

lemma split_feed_from:
  assumes "sorted_wrt (<) (map fst S)" and "m \<le> n" and "n \<le> (q :: nat)"
  shows "filter (\<lambda>(i, msg). (m < i \<and> i \<le> q) \<and> P msg) S
     = filter (\<lambda>(i, msg). (m < i \<and> i \<le> n) \<and> P msg) S @ filter (\<lambda>(i, msg). (n < i \<and> i \<le> q) \<and> P msg) S"
proof -
  let ?T = "filter (\<lambda>p. m < fst p) S"
  have srt: "sorted_wrt (<) (map fst ?T)" using assms(1) by (simp add: sorted_wrt_map sorted_wrt_filter)
  have T: "filter (\<lambda>(i, msg). Q i \<and> P msg) ?T = filter (\<lambda>(i, msg). (m < i \<and> Q i) \<and> P msg) S" for Q
    by (auto intro!: filter_cong)
  have later: "filter (\<lambda>(i, msg). (m < i \<and> n < i \<and> i \<le> q) \<and> P msg) S = filter (\<lambda>(i, msg). (n < i \<and> i \<le> q) \<and> P msg) S"
    using assms(2) by (intro filter_cong) auto
  show ?thesis using split_feed [OF srt assms(3), of P] unfolding T later .
qed

text \<open>
  C6: A projector that comes back shows what it would have shown. Let a captions projector have applied everything up to
  \<open>n'\<close> and say on reattaching that it has seen up to \<open>n\<close>, which may be older; at most 500 numbered messages came since \<open>n\<close>.
  Then what the relay sends it, repeats included, brings its store to exactly the state of a projector that never left.
  And whatever its state was, one that attaches without a number ends with the last eight cards of the session, the
  session's render configuration, and the current number.
\<close>

theorem returning_projector_catches_up:
  assumes "actor_reach env cfg m now a" and "n \<le> n'" and "n' \<le> a_seq a" and "0 < a_seq a" and "a_seq a \<le> n + 500"
  shows "apply_all (apply_all INITIAL_STATE (map snd (seen_up_to n' a))) (sent_on_attach env (Some n) a)
       = apply_all INITIAL_STATE (map snd (seen_up_to (a_seq a) a))
     \<and> apply_all st (sent_on_attach env None a)
       = \<lparr>ps_sessionId = Some (env_sessionId env),
          ps_cards = map (\<lambda>c. \<lparr>sw_card = c, sw_rev = 0\<rparr>) (slice_last 8 (map toCaptionCard (snapshot (a_engine a)))),
          ps_render = sc_render (a_config a), ps_watermark = env_watermark env, ps_lastSeq = a_seq a\<rparr>"
proof -
  let ?S = "sent (a_out a)" and ?q = "a_seq a" and ?P = "may_see Role_captions"
  have fst: "map fst ?S = [1..<Suc ?q]" by (rule conjunct1 [OF attach_sends [OF assms(1)]])
  have srt: "sorted_wrt (<) (map fst ?S)" unfolding fst by (rule sorted_numbers)
  have rng: "\<forall>p \<in> set ?S. fst p \<le> ?q"
  proof
    fix p assume "p \<in> set ?S"
    then have "fst p \<in> set (map fst ?S)" by simp
    then show "fst p \<le> ?q" unfolding fst by auto
  qed
  let ?F = "\<lambda>Q. filter (\<lambda>(i, msg). Q i \<and> ?P msg) ?S"
  have att: "sent_on_attach env (Some n) a = map snd (?F (\<lambda>i. n < i))"
    using conjunct2 [OF attach_sends [OF assms(1), of Role_captions "Some n"]] assms
    by (intro sent_on_attach_eq [where p = "\<lparr>pj_id = a_nextProjector a, pj_role = Role_captions\<rparr>"]) simp
  have all: "?F (\<lambda>i. n < i) = ?F (\<lambda>i. n < i \<and> i \<le> ?q)"
    using rng by (intro filter_cong) auto
  have old_new: "?F (\<lambda>i. n < i \<and> i \<le> ?q) = ?F (\<lambda>i. n < i \<and> i \<le> n') @ ?F (\<lambda>i. n' < i \<and> i \<le> ?q)"
    by (rule split_feed_from [OF srt assms(2,3)])
  have feed: "caption_feed (?F Q)" for Q by (rule caption_feed_sent [OF assms(1)])
  let ?st = "apply_all INITIAL_STATE (map snd (seen_up_to n' a))"
  have reached: "\<forall>p \<in> set (?F (\<lambda>i. i \<le> n')). fst p \<le> ps_lastSeq ?st"
    unfolding seen_up_to_def
  proof (rule feed_reaches [OF feed])
    show "sorted_wrt (<) (map fst (?F (\<lambda>i. i \<le> n')))" using srt by (simp add: sorted_wrt_map sorted_wrt_filter)
    show "\<forall>p \<in> set (?F (\<lambda>i. i \<le> n')). ps_lastSeq INITIAL_STATE < fst p"
    proof
      fix p assume "p \<in> set (?F (\<lambda>i. i \<le> n'))"
      then have "fst p \<in> set (map fst ?S)" by auto
      then show "ps_lastSeq INITIAL_STATE < fst p" unfolding fst by (auto simp: INITIAL_STATE_def)
    qed
  qed
  have "apply_all ?st (map snd (?F (\<lambda>i. n < i \<and> i \<le> n'))) = ?st"
    using reached by (intro replay_is_ignored [OF feed]) auto
  then have "apply_all ?st (sent_on_attach env (Some n) a) = apply_all ?st (map snd (?F (\<lambda>i. n' < i \<and> i \<le> ?q)))"
    unfolding att all old_new by (simp add: apply_all_def)
  also have "\<dots> = apply_all INITIAL_STATE (map snd (seen_up_to ?q a))"
    using split_feed [OF srt assms(3), of ?P] by (simp add: seen_up_to_def apply_all_def)
  finally have caught_up: "apply_all ?st (sent_on_attach env (Some n) a) = apply_all INITIAL_STATE (map snd (seen_up_to ?q a))" .
  have "sent_on_attach env None a = [buildSnapshot env a]"
    using conjunct2 [OF attach_sends [OF assms(1), of Role_captions None]]
    by (intro sent_on_attach_eq [where p = "\<lparr>pj_id = a_nextProjector a, pj_role = Role_captions\<rparr>"]) simp
  then show ?thesis using caught_up
    by (simp add: apply_all_def applyRelayMessage_def buildSnapshot_def MAX_CARDS_def)
qed

theorem returning_projector_catches_up_witness:
  "apply_all (apply_all INITIAL_STATE (map snd (seen_up_to (a_seq demo_actor) demo_actor)))
       (sent_on_attach demo_env (Some 0) demo_actor)
     = apply_all INITIAL_STATE (map snd (seen_up_to (a_seq demo_actor) demo_actor))
   \<and> length (ps_cards (apply_all INITIAL_STATE (sent_on_attach demo_env None demo_actor))) = 1"
proof -
  have q: "0 < a_seq demo_actor" "a_seq demo_actor \<le> 0 + 500" by code_simp+
  note both = returning_projector_catches_up [OF demo_actor_reach le0 order_refl q, of INITIAL_STATE]
  have "length (slice_last 8 (map toCaptionCard (snapshot (a_engine demo_actor)))) = 1" by code_simp
  then show ?thesis using both by simp
qed

section \<open>A draft that looks final\<close>

text \<open>
  A speculative translation that arrives after its card has settled goes out as a retract, and the store marks every
  card final that is retracted with a translation. The projector that was there shows the draft as final while a
  projector that attaches now is told it is not.
\<close>

definition speculating :: actor where
  "speculating =
     (let env = demo_env\<lparr>env_engine := DEFAULT_ENGINE_CONFIG\<lparr>targetLangs := [''pl'']\<rparr>\<rparr>; s = js ''one two three four five six seven eight nine ten'' in
      foldl (\<lambda>a inp. actor_step env inp a)
        (new_actor env (default_SessionConfig\<lparr>sc_dstLangs := [''pl'']\<rparr>) demo_meter 0)
        [In_start, In_stt 100 (Partial s 100), In_stt 700 (Partial s 700), In_stt 800 (Committed s 800),
         In_translated 900 0 (Some (js ''raz''))])"

lemma speculation_looks_final:
  "map (\<lambda>c. cc_trFinal (sw_card c)) (ps_cards (apply_all INITIAL_STATE (map snd (seen_up_to (a_seq speculating) speculating)))) = [True]
   \<and> map cc_trFinal (map toCaptionCard (snapshot (a_engine speculating))) = [False]"
  by (rule conjI) code_simp+

end
