(* ===== verification/Relay_Client.thy ===== *)
theory Relay_Client
  imports Audio_Frame Contracts "HOL-Library.Sublist"
begin

text \<open>
  \<open>apps/web/lib/studio/relay-client.ts\<close>: the studio's side of the relay socket, and the WebSocket of the browser as far
  as the clients of the web application see it. A socket is named by the order in which it was made.
\<close>

section \<open>Sockets of the browser\<close>

datatype ready_state = Bw_connecting | Bw_open | Bw_closing | Bw_closed

datatype 'm ws_event = Bw_opens | Bw_says 'm | Bw_fails | Bw_closes

text \<open>When the browser fires an event, and the state in which its handler runs.\<close>

fun bw_fires :: "ready_state \<Rightarrow> 'm ws_event \<Rightarrow> bool" where
  "bw_fires r Bw_opens = (r = Bw_connecting)"
| "bw_fires r (Bw_says m) = (r = Bw_open)"
| "bw_fires r Bw_fails = (r \<noteq> Bw_closed)"
| "bw_fires r Bw_closes = (r \<noteq> Bw_closed)"

fun bw_after :: "'m ws_event \<Rightarrow> ready_state \<Rightarrow> ready_state" where
  "bw_after Bw_opens r = Bw_open"
| "bw_after (Bw_says m) r = r"
| "bw_after Bw_fails r = r"
| "bw_after Bw_closes r = Bw_closed"

text \<open>\<open>close()\<close> of a socket.\<close>

definition bw_close :: "ready_state \<Rightarrow> ready_state" where
  "bw_close r = (if r = Bw_closed then Bw_closed else Bw_closing)"

section \<open>The client\<close>

datatype client_frame = Wire_message studio_message | Wire_audio "byte list"

datatype client_effect =
    Rl_wire nat client_frame
  | Rl_told relay_message
  | Rl_told_transport_error jstring
  | Rl_told_closed

datatype connection_state = Rl_idle | Rl_connecting | Rl_live | Rl_closed

text \<open>The handlers of a socket hold the token and the configuration that \<open>connect\<close> was called with.\<close>

record studio_socket =
  ss_ready :: ready_state
  ss_jwt :: string
  ss_config :: session_config

record relay_client =
  rl_sockets :: "studio_socket list"
  rl_socket :: "nat option"
  rl_buffered :: "byte list list"
  rl_helloSent :: bool
  rl_state :: connection_state
  rl_out :: "client_effect list"

definition AUDIO_BUFFER_MS :: nat where
  "AUDIO_BUFFER_MS = 3000"

definition MAX_BUFFERED_FRAMES :: nat where
  "MAX_BUFFERED_FRAMES = (AUDIO_BUFFER_MS + FRAME_MS - 1) div FRAME_MS"

definition new_client :: relay_client where
  "new_client = \<lparr>rl_sockets = [], rl_socket = None, rl_buffered = [], rl_helloSent = False, rl_state = Rl_idle, rl_out = []\<rparr>"

definition rl_do :: "client_effect list \<Rightarrow> relay_client \<Rightarrow> relay_client" where
  "rl_do es c = c\<lparr>rl_out := rl_out c @ es\<rparr>"

text \<open>\<open>this.socket\<close> when it is there and open.\<close>

definition open_socket :: "relay_client \<Rightarrow> nat option" where
  "open_socket c =
     (case rl_socket c of
        None \<Rightarrow> None
      | Some i \<Rightarrow> if ss_ready (rl_sockets c ! i) = Bw_open then Some i else None)"

definition client_send :: "studio_message \<Rightarrow> relay_client \<Rightarrow> relay_client" where
  "client_send msg c = (case open_socket c of None \<Rightarrow> c | Some i \<Rightarrow> rl_do [Rl_wire i (Wire_message msg)] c)"

definition flushBuffer :: "relay_client \<Rightarrow> relay_client" where
  "flushBuffer c =
     (case open_socket c of
        None \<Rightarrow> c
      | Some i \<Rightarrow> (rl_do (map (\<lambda>f. Rl_wire i (Wire_audio f)) (rl_buffered c)) c)\<lparr>rl_buffered := []\<rparr>)"

text \<open>\<open>None\<close> is the exception.\<close>

definition client_connect :: "string \<Rightarrow> session_config \<Rightarrow> relay_client \<Rightarrow> relay_client option" where
  "client_connect jwt cfg c =
     (if rl_socket c \<noteq> None then None
      else Some (c\<lparr>rl_state := Rl_connecting, rl_socket := Some (length (rl_sockets c)),
                   rl_sockets := rl_sockets c @ [\<lparr>ss_ready = Bw_connecting, ss_jwt = jwt, ss_config = cfg\<rparr>]\<rparr>))"

definition client_sendAudio :: "byte list \<Rightarrow> relay_client \<Rightarrow> relay_client" where
  "client_sendAudio frame c =
     (if rl_state c = Rl_closed then c
      else
        (case (open_socket c, rl_helloSent c) of
           (Some i, True) \<Rightarrow> rl_do [Rl_wire i (Wire_audio frame)] c
         | _ \<Rightarrow>
             let frames = rl_buffered c @ [frame]
             in c\<lparr>rl_buffered := (if length frames > MAX_BUFFERED_FRAMES then tl frames else frames)\<rparr>))"

text \<open>\<open>dispatch\<close>: \<open>tts\<close>, \<open>render\<close> and \<open>pong\<close> are for the projector.\<close>

definition studio_dispatch :: "relay_message \<Rightarrow> relay_client \<Rightarrow> relay_client" where
  "studio_dispatch msg c =
     (case msg of
        Relay_tts n i l ch f \<Rightarrow> c
      | Relay_render n r \<Rightarrow> c
      | Relay_pong \<Rightarrow> c
      | _ \<Rightarrow> rl_do [Rl_told msg] c)"

text \<open>\<open>Polaczenie z serwerem napisow zostalo przerwane.\<close>, with its diacritics.\<close>

definition transport_error_text :: jstring where
  "transport_error_text =
     js ''Po'' @ [322, 261] @ js ''czenie z serwerem napis'' @ [243] @ js ''w zosta'' @ [322] @ js ''o przerwane.''"

text \<open>An event of a socket. A message is \<open>None\<close> when it is binary, no JSON or no relay message.\<close>

definition client_socket_event :: "nat \<Rightarrow> relay_message option ws_event \<Rightarrow> relay_client \<Rightarrow> relay_client" where
  "client_socket_event i ev c =
     (let s = rl_sockets c ! i;
          c = c\<lparr>rl_sockets := (rl_sockets c)[i := s\<lparr>ss_ready := bw_after ev (ss_ready s)\<rparr>]\<rparr>
      in (case ev of
            Bw_opens \<Rightarrow>
              let c = client_send (Studio_hello PROTOCOL_VERSION (ss_jwt s) (ss_config s)) c
              in flushBuffer (c\<lparr>rl_helloSent := True, rl_state := Rl_live\<rparr>)
          | Bw_says None \<Rightarrow> c
          | Bw_says (Some msg) \<Rightarrow> studio_dispatch msg c
          | Bw_fails \<Rightarrow> rl_do [Rl_told_transport_error transport_error_text] c
          | Bw_closes \<Rightarrow> rl_do [Rl_told_closed] (c\<lparr>rl_state := Rl_closed, rl_socket := None, rl_buffered := []\<rparr>)))"

definition set_closing :: "nat \<Rightarrow> relay_client \<Rightarrow> relay_client" where
  "set_closing i c =
     c\<lparr>rl_sockets := (rl_sockets c)[i := (rl_sockets c ! i)\<lparr>ss_ready := bw_close (ss_ready (rl_sockets c ! i))\<rparr>]\<rparr>"

definition client_close :: "relay_client \<Rightarrow> relay_client" where
  "client_close c =
     (case rl_socket c of None \<Rightarrow> c | Some i \<Rightarrow> set_closing i c)\<lparr>rl_socket := None, rl_state := Rl_closed\<rparr>"

text \<open>What the page asks for, and what the browser does: it fires an event, or the relay's close frame arrives.\<close>

datatype client_input =
    Rl_connect string session_config
  | Rl_event nat "relay_message option ws_event"
  | Rl_closing nat
  | Rl_audio "byte list"
  | Rl_flush
  | Rl_configure partial_session_config
  | Rl_bye
  | Rl_close

fun client_step :: "relay_client \<Rightarrow> client_input \<Rightarrow> relay_client" where
  "client_step c (Rl_connect jwt cfg) = (case client_connect jwt cfg c of None \<Rightarrow> c | Some c' \<Rightarrow> c')"
| "client_step c (Rl_event i ev) = client_socket_event i ev c"
| "client_step c (Rl_closing i) = set_closing i c"
| "client_step c (Rl_audio f) = client_sendAudio f c"
| "client_step c Rl_flush = client_send Studio_flush c"
| "client_step c (Rl_configure p) = client_send (Studio_configure p) c"
| "client_step c Rl_bye = client_send Studio_bye c"
| "client_step c Rl_close = client_close c"

definition client_run :: "client_input list \<Rightarrow> relay_client \<Rightarrow> relay_client" where
  "client_run ins c = foldl client_step c ins"

text \<open>The browser keeps to its law.\<close>

fun browser_may :: "relay_client \<Rightarrow> client_input \<Rightarrow> bool" where
  "browser_may c (Rl_event i ev) = (i < length (rl_sockets c) \<and> bw_fires (ss_ready (rl_sockets c ! i)) ev)"
| "browser_may c (Rl_closing i) = (i < length (rl_sockets c) \<and> ss_ready (rl_sockets c ! i) = Bw_open)"
| "browser_may c inp = True"

fun client_legal :: "relay_client \<Rightarrow> client_input list \<Rightarrow> bool" where
  "client_legal c [] = True"
| "client_legal c (inp # ins) = (browser_may c inp \<and> client_legal (client_step c inp) ins)"

section \<open>What goes over the wire\<close>

definition wires :: "client_effect list \<Rightarrow> client_frame list" where
  "wires es = List.map_filter (\<lambda>e. case e of Rl_wire i f \<Rightarrow> Some f | _ \<Rightarrow> None) es"

definition audio_frames :: "client_frame list \<Rightarrow> byte list list" where
  "audio_frames fs = List.map_filter (\<lambda>f. case f of Wire_audio x \<Rightarrow> Some x | _ \<Rightarrow> None) fs"

definition pushed :: "client_input list \<Rightarrow> byte list list" where
  "pushed ins = List.map_filter (\<lambda>i. case i of Rl_audio f \<Rightarrow> Some f | _ \<Rightarrow> None) ins"

fun is_hello :: "client_frame \<Rightarrow> bool" where
  "is_hello (Wire_message (Studio_hello v jwt cfg)) = True"
| "is_hello f = False"

fun is_audio :: "client_input \<Rightarrow> bool" where
  "is_audio (Rl_audio f) = True"
| "is_audio inp = False"

fun is_connect :: "client_input \<Rightarrow> bool" where
  "is_connect (Rl_connect jwt cfg) = True"
| "is_connect inp = False"

definition hello_first :: "string \<Rightarrow> session_config \<Rightarrow> client_frame list \<Rightarrow> bool" where
  "hello_first jwt cfg W \<longleftrightarrow>
     (\<exists>rest. W = Wire_message (Studio_hello PROTOCOL_VERSION jwt cfg) # rest \<and> (\<forall>f \<in> set rest. \<not> is_hello f))"

lemma wires_simps [simp]:
  "wires [] = []" "wires (es @ fs) = wires es @ wires fs"
  "wires (Rl_wire i f # es) = f # wires es" "wires (Rl_told m # es) = wires es"
  "wires (Rl_told_transport_error x # es) = wires es" "wires (Rl_told_closed # es) = wires es"
  "wires (map (\<lambda>f. Rl_wire i (Wire_audio f)) frames) = map Wire_audio frames"
  by (simp_all add: wires_def List.map_filter_def o_def)

lemma audio_frames_simps [simp]:
  "audio_frames [] = []" "audio_frames (V @ W) = audio_frames V @ audio_frames W"
  "audio_frames (Wire_message m # W) = audio_frames W" "audio_frames (Wire_audio x # W) = x # audio_frames W"
  "audio_frames (map Wire_audio frames) = frames"
  by (simp_all add: audio_frames_def List.map_filter_def o_def)

lemma hello_first_append:
  "hello_first jwt cfg W \<Longrightarrow> \<forall>f \<in> set V. \<not> is_hello f \<Longrightarrow> hello_first jwt cfg (W @ V)"
  by (auto simp: hello_first_def)

lemma pushed_simps [simp]:
  "pushed [] = []" "pushed (Rl_audio f # ins) = f # pushed ins" "\<not> is_audio inp \<Longrightarrow> pushed (inp # ins) = pushed ins"
  by (simp_all add: pushed_def List.map_filter_def) (cases inp; simp)

lemma MAX_BUFFERED_FRAMES [simp]: "MAX_BUFFERED_FRAMES = 150"
  by (simp add: MAX_BUFFERED_FRAMES_def AUDIO_BUFFER_MS_def FRAME_MS_def)

section \<open>A client that is connected once\<close>

definition client_ok :: "relay_client \<Rightarrow> byte list list \<Rightarrow> bool" where
  "client_ok c P \<longleftrightarrow>
     subseq (audio_frames (wires (rl_out c)) @ rl_buffered c) P \<and> length (rl_buffered c) \<le> 150
     \<and> (case rl_sockets c of
          [] \<Rightarrow> rl_socket c = None \<and> \<not> rl_helloSent c \<and> wires (rl_out c) = []
        | s # rest \<Rightarrow> rest = []
            \<and> (rl_socket c = None \<or> rl_socket c = Some 0)
            \<and> (wires (rl_out c) \<noteq> [] \<longrightarrow> hello_first (ss_jwt s) (ss_config s) (wires (rl_out c)))
            \<and> (ss_ready s = Bw_connecting \<longrightarrow> rl_socket c = Some 0 \<and> \<not> rl_helloSent c \<and> wires (rl_out c) = [])
            \<and> (ss_ready s = Bw_open \<longrightarrow> rl_socket c = Some 0 \<and> rl_helloSent c \<and> rl_buffered c = [] \<and> wires (rl_out c) \<noteq> []))"

text \<open>Nothing but the oldest is missing, and that only when more than the buffer holds came before the socket was open.\<close>

definition client_lossless :: "relay_client \<Rightarrow> byte list list \<Rightarrow> bool" where
  "client_lossless c P \<longleftrightarrow>
     (rl_sockets c = [] \<longrightarrow> rl_state c \<noteq> Rl_closed)
     \<and> ((\<forall>s \<in> set (rl_sockets c). ss_ready s = Bw_connecting \<or> ss_ready s = Bw_open) \<longrightarrow>
          rl_state c \<noteq> Rl_closed
          \<and> suffix (audio_frames (wires (rl_out c)) @ rl_buffered c) P
          \<and> min 150 (length P) \<le> length (audio_frames (wires (rl_out c)) @ rl_buffered c))"

lemmas client_simps = client_ok_def client_lossless_def rl_do_def open_socket_def set_closing_def bw_close_def Let_def

lemma client_new: "client_ok new_client []" "client_lossless new_client []"
  by (simp_all add: client_ok_def client_lossless_def new_client_def)

lemma client_ok_connect: "client_ok c P \<Longrightarrow> rl_sockets c = [] \<Longrightarrow> client_ok (client_step c (Rl_connect jwt cfg)) P"
  by (auto simp: client_simps client_connect_def)

lemma client_ok_send:
  "client_ok c P \<Longrightarrow> \<not> is_hello (Wire_message msg) \<Longrightarrow> client_ok (client_send msg c) P"
  by (auto simp: client_simps client_send_def hello_first_append split: option.split list.splits if_splits)

lemma client_ok_closing: "client_ok c P \<Longrightarrow> i < length (rl_sockets c) \<Longrightarrow> client_ok (set_closing i c) P"
  by (auto simp: client_simps split: list.splits)

lemma client_ok_close: "client_ok c P \<Longrightarrow> client_ok (client_close c) P"
  by (auto simp: client_simps client_close_def split: option.split list.splits)

definition buffer_frame :: "byte list \<Rightarrow> byte list list \<Rightarrow> byte list list" where
  "buffer_frame f b = (if length (b @ [f]) > 150 then tl (b @ [f]) else b @ [f])"

lemma length_buffer_frame: "length b \<le> 150 \<Longrightarrow> length (buffer_frame f b) = min 150 (length b + 1)"
  by (auto simp: buffer_frame_def)

lemma suffix_buffer_frame: "suffix b P \<Longrightarrow> suffix (buffer_frame f b) (P @ [f])"
  by (cases b) (auto simp: buffer_frame_def suffix_def)

lemma subseq_buffer_frame: "subseq (A @ b) P \<Longrightarrow> subseq (A @ buffer_frame f b) (P @ [f])"
proof -
  assume A: "subseq (A @ b) P"
  then have "subseq (A @ b @ [f]) (P @ [f])" using subseq_append [of "A @ b" "[f]" P] by simp
  moreover have "subseq (A @ buffer_frame f b) (A @ b @ [f])"
    using suffix_imp_subseq [OF suffix_tl [of "b @ [f]"]] by (simp add: buffer_frame_def subseq_append')
  ultimately show ?thesis by (rule subseq_order.trans [rotated])
qed

text \<open>A frame goes out or into the buffer.\<close>

lemma client_sendAudio_eq:
  "client_sendAudio f c =
     (if rl_state c = Rl_closed then c
      else if open_socket c \<noteq> None \<and> rl_helloSent c then rl_do [Rl_wire (the (open_socket c)) (Wire_audio f)] c
      else c\<lparr>rl_buffered := buffer_frame f (rl_buffered c)\<rparr>)"
  by (auto simp: client_sendAudio_def buffer_frame_def Let_def split: option.split bool.split)

lemma client_ok_audio: "client_ok c P \<Longrightarrow> client_ok (client_sendAudio f c) (P @ [f])"
proof -
  assume c: "client_ok c P"
  have keep: "client_ok c (P @ [f])" using c by (auto simp: client_ok_def)
  have buf: "client_ok (c\<lparr>rl_buffered := buffer_frame f (rl_buffered c)\<rparr>) (P @ [f])" if "\<not> (open_socket c \<noteq> None \<and> rl_helloSent c)"
    using c that by (auto simp: client_ok_def subseq_buffer_frame length_buffer_frame open_socket_def split: list.splits option.splits)
  have out: "client_ok (rl_do [Rl_wire i (Wire_audio f)] c) (P @ [f])" if "open_socket c = Some i" "rl_helloSent c" for i
    using c that by (auto simp: client_simps hello_first_append subseq_append' split: list.splits option.splits if_splits)
  show ?thesis unfolding client_sendAudio_eq using keep buf out by auto
qed

lemma client_ok_event:
  assumes "client_ok c P" and "browser_may c (Rl_event i ev)"
  shows "client_ok (client_socket_event i ev c) P"
proof -
  obtain s where s: "rl_sockets c = [s]" "i = 0" "bw_fires (ss_ready s) ev"
    using assms by (auto simp: client_ok_def split: list.splits)
  have sub: "subseq (audio_frames (wires (rl_out c))) P"
    using assms(1) subseq_order.trans [OF prefix_imp_subseq [of "audio_frames (wires (rl_out c))" "audio_frames (wires (rl_out c)) @ rl_buffered c"]]
    by (simp add: client_ok_def)
  show ?thesis
  proof (cases ev)
    case Bw_opens
    then show ?thesis using assms(1) s
      by (auto simp: client_simps client_socket_event_def client_send_def flushBuffer_def hello_first_def o_def)
  next
    case (Bw_says m)
    then show ?thesis using assms(1) s
      by (cases m) (auto simp: client_simps client_socket_event_def studio_dispatch_def split: relay_message.split)
  next
    case Bw_fails
    then show ?thesis using assms(1) s by (auto simp: client_simps client_socket_event_def)
  next
    case Bw_closes
    then show ?thesis using assms(1) s sub by (auto simp: client_simps client_socket_event_def)
  qed
qed

lemma client_ok_step:
  assumes "client_ok c P" and "browser_may c inp" and "is_connect inp \<longrightarrow> rl_sockets c = []"
  shows "client_ok (client_step c inp) (P @ pushed [inp])"
  using assms client_ok_connect client_ok_event client_ok_closing client_ok_audio client_ok_send client_ok_close
  by (cases inp) auto

section \<open>Nothing is lost while the socket holds\<close>

lemma client_lossless_audio:
  assumes "client_ok c P" and "client_lossless c P"
  shows "client_lossless (client_sendAudio f c) (P @ [f])"
proof (cases "open_socket c \<noteq> None \<and> rl_helloSent c")
  case True
  then show ?thesis using assms
    by (auto simp: client_sendAudio_eq client_simps suffix_def split: list.splits option.splits if_splits)
next
  case False
  then show ?thesis using assms
    by (auto simp: client_sendAudio_eq client_simps suffix_buffer_frame length_buffer_frame simp del: suffix_snoc split: list.splits option.splits if_splits)
qed

lemma client_lossless_step:
  assumes "client_ok c P" and "client_lossless c P" and "browser_may c inp" and "is_connect inp \<longrightarrow> rl_sockets c = []"
    and "inp \<noteq> Rl_close"
  shows "client_lossless (client_step c inp) (P @ pushed [inp])"
proof (cases inp)
  case (Rl_event i ev)
  then obtain s where s: "rl_sockets c = [s]" "i = 0" "bw_fires (ss_ready s) ev"
    using assms(1,3) by (auto simp: client_ok_def split: list.splits)
  then show ?thesis using Rl_event assms(1,2)
    by (cases ev)
      (auto simp: client_simps client_socket_event_def client_send_def flushBuffer_def studio_dispatch_def o_def
         split: option.splits relay_message.splits)
next
  case (Rl_audio f)
  then show ?thesis using client_lossless_audio [OF assms(1,2)] by simp
qed (use assms in \<open>auto simp: client_simps client_connect_def client_send_def split: list.splits option.splits if_splits\<close>)

section \<open>Runs\<close>

lemma client_run_snoc: "client_run (ins @ [inp]) c = client_step (client_run ins c) inp"
  by (simp add: client_run_def)

lemma client_legal_append:
  "client_legal c (ins @ [inp]) \<longleftrightarrow> client_legal c ins \<and> browser_may (client_run ins c) inp"
  by (induction ins arbitrary: c) (simp_all add: client_run_def)

lemma pushed_append: "pushed (ins @ [inp]) = pushed ins @ pushed [inp]"
  by (simp add: pushed_def List.map_filter_def)

text \<open>Sockets are only made by \<open>connect\<close>, with its arguments.\<close>

definition socket_args :: "relay_client \<Rightarrow> (string \<times> session_config) list" where
  "socket_args c = map (\<lambda>s. (ss_jwt s, ss_config s)) (rl_sockets c)"

lemma socket_args_update [simp]:
  "map (\<lambda>s. (ss_jwt s, ss_config s)) ((rl_sockets c)[i := (rl_sockets c ! i)\<lparr>ss_ready := r\<rparr>])
     = map (\<lambda>s. (ss_jwt s, ss_config s)) (rl_sockets c)"
  by (cases "i < length (rl_sockets c)") (simp_all add: map_update list_update_same_conv list_update_beyond)

lemma socket_args_simps [simp]:
  "socket_args (rl_do es c) = socket_args c" "socket_args (client_send msg c) = socket_args c"
  "socket_args (set_closing i c) = socket_args c" "socket_args (client_close c) = socket_args c"
  "socket_args (client_sendAudio f c) = socket_args c" "socket_args (studio_dispatch m c) = socket_args c"
  "socket_args (flushBuffer c) = socket_args c"
  by (simp_all add: socket_args_def rl_do_def client_send_def set_closing_def client_close_def client_sendAudio_eq studio_dispatch_def
      flushBuffer_def split: option.split relay_message.split)

lemma socket_args_event [simp]: "socket_args (client_socket_event i ev c) = socket_args c"
proof -
  have upd: "socket_args (c\<lparr>rl_sockets := (rl_sockets c)[i := (rl_sockets c ! i)\<lparr>ss_ready := r\<rparr>]\<rparr>) = socket_args c" for r
    by (simp add: socket_args_def)
  have same: "socket_args (c'\<lparr>rl_helloSent := h, rl_state := x\<rparr>) = socket_args c'"
    "socket_args (c'\<lparr>rl_state := x, rl_socket := k, rl_buffered := b\<rparr>) = socket_args c'" for c' h x k b
    by (simp_all add: socket_args_def)
  show ?thesis
    by (simp add: client_socket_event_def Let_def upd same split: ws_event.split option.split)
qed

lemma socket_args_step:
  "set (socket_args (client_step c inp)) \<subseteq> set (socket_args c) \<union> {(jwt, cfg). inp = Rl_connect jwt cfg}"
  "\<not> is_connect inp \<Longrightarrow> rl_sockets c = [] \<Longrightarrow> rl_sockets (client_step c inp) = []"
proof -
  show "set (socket_args (client_step c inp)) \<subseteq> set (socket_args c) \<union> {(jwt, cfg). inp = Rl_connect jwt cfg}"
    by (cases inp) (auto simp: client_connect_def socket_args_def [of "_ \<lparr>rl_state := _, rl_socket := _, rl_sockets := _\<rparr>"] socket_args_def [of c])
  have "socket_args (client_step c inp) = socket_args c" if "\<not> is_connect inp" using that by (cases inp) simp_all
  then show "\<not> is_connect inp \<Longrightarrow> rl_sockets c = [] \<Longrightarrow> rl_sockets (client_step c inp) = []"
    by (auto simp: socket_args_def)
qed

lemma client_run_ok:
  assumes "client_legal new_client ins" and "length (filter is_connect ins) \<le> 1"
  shows "client_ok (client_run ins new_client) (pushed ins)
     \<and> (filter is_connect ins = [] \<longrightarrow> rl_sockets (client_run ins new_client) = [])
     \<and> (\<forall>(jwt, cfg) \<in> set (socket_args (client_run ins new_client)). Rl_connect jwt cfg \<in> set ins)
     \<and> (Rl_close \<notin> set ins \<longrightarrow> client_lossless (client_run ins new_client) (pushed ins))"
  using assms
proof (induction ins rule: rev_induct)
  case Nil
  then show ?case using client_new by (simp add: client_run_def socket_args_def) (simp add: new_client_def)
next
  case (snoc inp ins)
  let ?c = "client_run ins new_client"
  have legal: "client_legal new_client ins" "browser_may ?c inp" using snoc.prems(1) by (simp_all add: client_legal_append)
  have few: "length (filter is_connect ins) \<le> 1" using snoc.prems(2) by simp
  note IH = snoc.IH [OF legal(1) few]
  have first: "is_connect inp \<longrightarrow> rl_sockets ?c = []" using IH snoc.prems(2) by auto
  have ok: "client_ok (client_step ?c inp) (pushed ins @ pushed [inp])"
    using client_ok_step [OF conjunct1 [OF IH] legal(2) first] .
  have loss: "client_lossless (client_step ?c inp) (pushed ins @ pushed [inp])" if "Rl_close \<notin> set (ins @ [inp])"
    using client_lossless_step [OF conjunct1 [OF IH] _ legal(2) first] IH that by auto
  have args: "\<forall>(jwt, cfg) \<in> set (socket_args (client_step ?c inp)). Rl_connect jwt cfg \<in> set (ins @ [inp])"
    using IH socket_args_step(1) [of ?c inp] by fastforce
  have none: "filter is_connect (ins @ [inp]) = [] \<longrightarrow> rl_sockets (client_step ?c inp) = []"
    using IH socket_args_step(2) [of inp ?c] by auto
  show ?case unfolding client_run_snoc pushed_append using ok loss args none by blast
qed

text \<open>
  C19: The studio's audio arrives as it was recorded. Take a client that is connected at most once, the way the studio
  does, and let the page and the browser do anything in any order. Nothing goes over the wire before the hello with the
  token and the configuration of the connect, and there is one hello. The frames on the wire followed by the buffered ones are
  frames of the microphone in their order, none twice, and at most 150 are buffered. While the socket is not closing and the
  page has not closed the client they are the last frames without a gap, at least 150 of them or all.
\<close>

theorem studio_frames_in_order:
  assumes "client_legal new_client ins" and "length (filter is_connect ins) \<le> 1"
  shows "let c = client_run ins new_client; W = wires (rl_out c); sent = audio_frames W @ rl_buffered c
    in (W = [] \<or> (\<exists>jwt cfg. Rl_connect jwt cfg \<in> set ins \<and> hello_first jwt cfg W))
     \<and> subseq sent (pushed ins) \<and> length (rl_buffered c) \<le> 150
     \<and> (Rl_close \<notin> set ins \<and> (\<forall>s \<in> set (rl_sockets c). ss_ready s = Bw_connecting \<or> ss_ready s = Bw_open)
        \<longrightarrow> suffix sent (pushed ins) \<and> min 150 (length (pushed ins)) \<le> length sent)"
proof -
  define c where "c = client_run ins new_client"
  note all = client_run_ok [OF assms, folded c_def]
  then have ok: "client_ok c (pushed ins)" by blast
  have hello: "wires (rl_out c) = [] \<or> (\<exists>jwt cfg. Rl_connect jwt cfg \<in> set ins \<and> hello_first jwt cfg (wires (rl_out c)))"
    using ok all by (auto simp: client_ok_def socket_args_def split: list.splits)
  moreover have "subseq (audio_frames (wires (rl_out c)) @ rl_buffered c) (pushed ins) \<and> length (rl_buffered c) \<le> 150"
    using ok by (simp add: client_ok_def)
  moreover have "Rl_close \<notin> set ins \<Longrightarrow> client_lossless c (pushed ins)" using all by blast
  ultimately show ?thesis unfolding Let_def c_def [symmetric] client_lossless_def by blast
qed

text \<open>Two frames before the socket is open, one after.\<close>

definition demo_studio :: "client_input list" where
  "demo_studio = [Rl_audio [1], Rl_connect ''jwt'' default_SessionConfig, Rl_audio [2], Rl_event 0 Bw_opens, Rl_audio [3]]"

theorem studio_frames_in_order_witness:
  "audio_frames (wires (rl_out (client_run demo_studio new_client))) = [[1], [2], [3]]"
proof -
  have ins: "client_legal new_client demo_studio" "length (filter is_connect demo_studio) \<le> 1" by code_simp+
  have c: "rl_buffered (client_run demo_studio new_client) = []"
    "map ss_ready (rl_sockets (client_run demo_studio new_client)) = [Bw_open]" by code_simp+
  have P: "pushed demo_studio = [[1], [2], [3]]" "Rl_close \<notin> set demo_studio" by code_simp+
  have opened: "\<forall>s \<in> set (rl_sockets (client_run demo_studio new_client)). ss_ready s = Bw_connecting \<or> ss_ready s = Bw_open"
    using c(2) by auto
  let ?sent = "audio_frames (wires (rl_out (client_run demo_studio new_client)))"
  have sent: "suffix ?sent [[1], [2], [3]]" "3 \<le> length ?sent"
    using studio_frames_in_order [OF ins] opened P c(1) by (simp_all add: Let_def)
  then obtain zs where zs: "[[1], [2], [3]] = zs @ ?sent" by (auto simp: suffix_def)
  have "length (zs @ ?sent) = 3" unfolding zs [symmetric] by simp
  then have "length zs = 0" using sent(2) by (simp only: length_append)
  then have "zs = []" by simp
  then show ?thesis using zs by simp
qed

section \<open>A client that is used again\<close>

text \<open>
  The close event of a socket does not look at which socket it is: when a client is closed and connected again, the event of
  the old socket takes the new one away, and the session that is being opened is never greeted.
\<close>

lemma late_close_takes_the_new_socket:
  "(let c = client_run
       [Rl_connect ''a'' default_SessionConfig, Rl_event 0 Bw_opens, Rl_close, Rl_connect ''b'' default_SessionConfig,
        Rl_event 0 Bw_closes, Rl_event 1 Bw_opens] new_client
    in client_legal new_client
         [Rl_connect ''a'' default_SessionConfig, Rl_event 0 Bw_opens, Rl_close, Rl_connect ''b'' default_SessionConfig,
          Rl_event 0 Bw_closes, Rl_event 1 Bw_opens]
     \<and> rl_socket c = None \<and> rl_state c = Rl_live \<and> length (wires (rl_out c)) = 1)"
  by code_simp

end
