(* ===== verification/Projector_Socket.thy ===== *)
theory Projector_Socket
  imports Projector_Resume Relay_Client
begin

text \<open>
  \<open>apps/web/app/projector/lib/use-projector-socket.ts\<close>: the projector's WebSocket, its heartbeat and the reconnects. The
  clock readings, the random numbers and whether the constructor of a socket throws come with the events.
\<close>

section \<open>State\<close>

record page_socket =
  pw_ready :: ready_state
  pw_handled :: bool

datatype page_effect = Px_send nat projector_message | Px_heard relay_message

text \<open>\<open>px_reconnect\<close> is the delay of the pending timer, \<open>px_beats\<close> the intervals that run, each with its socket, and
  \<open>px_heartbeat\<close> the one that the variable names.\<close>

record projector_page =
  px_token :: string
  px_role :: projector_role
  px_disposed :: bool
  px_sockets :: "page_socket list"
  px_socket :: "nat option"
  px_attempt :: nat
  px_reconnect :: "int option"
  px_heartbeat :: "nat option"
  px_beats :: "nat list"
  px_lastRxAt :: int
  px_openedAt :: int
  px_lastSeq :: "nat option"
  px_connected :: bool
  px_out :: "page_effect list"

definition BACKOFF_BASE_MS :: jsnum where
  "BACKOFF_BASE_MS = 500"

definition BACKOFF_MAX_MS :: jsnum where
  "BACKOFF_MAX_MS = 8000"

definition BACKOFF_FACTOR :: jsnum where
  "BACKOFF_FACTOR = 18 / 10"

definition STABLE_CONNECTION_MS :: int where
  "STABLE_CONNECTION_MS = 10000"

definition backoffDelay :: "nat \<Rightarrow> jsnum \<Rightarrow> int" where
  "backoffDelay attempt rnd =
     (let ceiling = min BACKOFF_MAX_MS (BACKOFF_BASE_MS * BACKOFF_FACTOR ^ attempt)
      in js_round (ceiling * (1 / 2 + rnd * (1 / 2))))"

section \<open>Operations\<close>

definition px_do :: "page_effect \<Rightarrow> projector_page \<Rightarrow> projector_page" where
  "px_do e s = s\<lparr>px_out := px_out s @ [e]\<rparr>"

definition page_send :: "nat \<Rightarrow> projector_message \<Rightarrow> projector_page \<Rightarrow> projector_page" where
  "page_send i msg s = (if pw_ready (px_sockets s ! i) = Bw_open then px_do (Px_send i msg) s else s)"

text \<open>\<open>clearInterval\<close> takes away the interval that the variable names.\<close>

definition stopHeartbeat :: "projector_page \<Rightarrow> projector_page" where
  "stopHeartbeat s =
     (case px_heartbeat s of
        None \<Rightarrow> s
      | Some h \<Rightarrow> s\<lparr>px_heartbeat := None, px_beats := filter (\<lambda>b. b \<noteq> h) (px_beats s)\<rparr>)"

definition page_scheduleReconnect :: "jsnum \<Rightarrow> projector_page \<Rightarrow> projector_page" where
  "page_scheduleReconnect rnd s =
     (if px_disposed s \<or> px_reconnect s \<noteq> None then s
      else s\<lparr>px_attempt := px_attempt s + 1, px_reconnect := Some (backoffDelay (px_attempt s) rnd)\<rparr>)"

definition page_open :: "int \<Rightarrow> bool \<Rightarrow> jsnum \<Rightarrow> projector_page \<Rightarrow> projector_page" where
  "page_open now works rnd s =
     (if px_disposed s then s
      else if \<not> works then page_scheduleReconnect rnd s
      else s\<lparr>px_sockets := px_sockets s @ [\<lparr>pw_ready = Bw_connecting, pw_handled = True\<rparr>],
             px_socket := Some (length (px_sockets s)), px_lastRxAt := now\<rparr>)"

definition attach_message :: "projector_page \<Rightarrow> projector_message" where
  "attach_message s = Projector_attach PROTOCOL_VERSION (px_token s) (px_lastSeq s) (px_role s)"

definition page_onopen :: "int \<Rightarrow> nat \<Rightarrow> projector_page \<Rightarrow> projector_page" where
  "page_onopen now i s =
     (if px_disposed s then s
      else
        let s = s\<lparr>px_openedAt := now, px_lastRxAt := now, px_connected := True\<rparr>;
            s = page_send i (attach_message s) s
        in s\<lparr>px_heartbeat := Some i, px_beats := px_beats s @ [i]\<rparr>)"

text \<open>A message is \<open>None\<close> when it is binary, no JSON or no relay message.\<close>

definition page_onmessage :: "int \<Rightarrow> relay_message option \<Rightarrow> projector_page \<Rightarrow> projector_page" where
  "page_onmessage now parsed s =
     (let s = s\<lparr>px_lastRxAt := now\<rparr>
      in (case parsed of
            None \<Rightarrow> s
          | Some msg \<Rightarrow>
              px_do (Px_heard msg) (s\<lparr>px_lastSeq := (case seq_of msg of None \<Rightarrow> px_lastSeq s | Some n \<Rightarrow> Some n)\<rparr>)))"

definition page_onclose :: "int \<Rightarrow> jsnum \<Rightarrow> projector_page \<Rightarrow> projector_page" where
  "page_onclose now rnd s =
     (let s = stopHeartbeat s
      in if px_disposed s then s
         else
           let s = (if px_openedAt s \<noteq> 0 \<and> now - px_openedAt s \<ge> STABLE_CONNECTION_MS then s\<lparr>px_attempt := 0\<rparr> else s)
           in page_scheduleReconnect rnd (s\<lparr>px_openedAt := 0, px_connected := False\<rparr>))"

definition page_set_ready :: "nat \<Rightarrow> ready_state \<Rightarrow> projector_page \<Rightarrow> projector_page" where
  "page_set_ready i r s = s\<lparr>px_sockets := (px_sockets s)[i := (px_sockets s ! i)\<lparr>pw_ready := r\<rparr>]\<rparr>"

definition page_socket_event :: "int \<Rightarrow> jsnum \<Rightarrow> nat \<Rightarrow> relay_message option ws_event \<Rightarrow> projector_page \<Rightarrow> projector_page" where
  "page_socket_event now rnd i ev s =
     (let s = page_set_ready i (bw_after ev (pw_ready (px_sockets s ! i))) s
      in if \<not> pw_handled (px_sockets s ! i) then s
         else (case ev of
                 Bw_opens \<Rightarrow> page_onopen now i s
               | Bw_says m \<Rightarrow> page_onmessage now m s
               | Bw_fails \<Rightarrow> s
               | Bw_closes \<Rightarrow> page_onclose now rnd s))"

text \<open>The heartbeat of socket \<open>i\<close>.\<close>

definition page_beat :: "int \<Rightarrow> nat \<Rightarrow> projector_page \<Rightarrow> projector_page" where
  "page_beat now i s =
     (if now - px_lastRxAt s > HEARTBEAT_WATCHDOG_MS then page_set_ready i (bw_close (pw_ready (px_sockets s ! i))) s
      else page_send i Projector_ping s)"

definition page_reconnect :: "int \<Rightarrow> bool \<Rightarrow> jsnum \<Rightarrow> projector_page \<Rightarrow> projector_page" where
  "page_reconnect now works rnd s = page_open now works rnd (s\<lparr>px_reconnect := None\<rparr>)"

text \<open>The clean-up of the effect.\<close>

definition page_dispose :: "projector_page \<Rightarrow> projector_page" where
  "page_dispose s =
     (let s = (stopHeartbeat (s\<lparr>px_disposed := True\<rparr>))\<lparr>px_reconnect := None\<rparr>
      in (case px_socket s of
            None \<Rightarrow> s
          | Some i \<Rightarrow>
              s\<lparr>px_sockets := (px_sockets s)[i := \<lparr>pw_ready = bw_close (pw_ready (px_sockets s ! i)), pw_handled = False\<rparr>]\<rparr>))"

definition mounted :: "string \<Rightarrow> projector_role \<Rightarrow> nat option \<Rightarrow> int \<Rightarrow> projector_page" where
  "mounted token role lastSeq now =
     \<lparr>px_token = token, px_role = role, px_disposed = False, px_sockets = [], px_socket = None, px_attempt = 0,
      px_reconnect = None, px_heartbeat = None, px_beats = [], px_lastRxAt = now, px_openedAt = 0, px_lastSeq = lastSeq,
      px_connected = False, px_out = []\<rparr>"

text \<open>The effect runs: \<open>None\<close> when the token cannot be one. The number seen last is kept by the page over its effects.\<close>

definition page_mount :: "string \<Rightarrow> projector_role \<Rightarrow> nat option \<Rightarrow> int \<Rightarrow> bool \<Rightarrow> jsnum \<Rightarrow> projector_page option" where
  "page_mount token role lastSeq now works rnd =
     (if length token < 16 then None else Some (page_open now works rnd (mounted token role lastSeq now)))"

section \<open>Runs\<close>

datatype page_input =
    Pi_socket int jsnum nat "relay_message option ws_event"
  | Pi_closing nat
  | Pi_beat int nat
  | Pi_timer int bool jsnum
  | Pi_dispose

fun page_step :: "page_input \<Rightarrow> projector_page \<Rightarrow> projector_page" where
  "page_step (Pi_socket now rnd i ev) s = page_socket_event now rnd i ev s"
| "page_step (Pi_closing i) s = page_set_ready i Bw_closing s"
| "page_step (Pi_beat now i) s = page_beat now i s"
| "page_step (Pi_timer now works rnd) s = page_reconnect now works rnd s"
| "page_step Pi_dispose s = page_dispose s"

text \<open>What the browser may do: events of sockets by their state, the relay's close frame, intervals and timers that are
  set; \<open>Math.random\<close> is in \<open>[0, 1)\<close> and the effect is cleaned up once.\<close>

fun page_may :: "projector_page \<Rightarrow> page_input \<Rightarrow> bool" where
  "page_may s (Pi_socket now rnd i ev) = (i < length (px_sockets s) \<and> bw_fires (pw_ready (px_sockets s ! i)) ev \<and> 0 \<le> rnd \<and> rnd < 1)"
| "page_may s (Pi_closing i) = (i < length (px_sockets s) \<and> pw_ready (px_sockets s ! i) = Bw_open)"
| "page_may s (Pi_beat now i) = (i \<in> set (px_beats s))"
| "page_may s (Pi_timer now works rnd) = (px_reconnect s \<noteq> None \<and> 0 \<le> rnd \<and> rnd < 1)"
| "page_may s Pi_dispose = (\<not> px_disposed s)"

inductive page_reach :: "string \<Rightarrow> projector_role \<Rightarrow> nat option \<Rightarrow> projector_page \<Rightarrow> bool" for token role lastSeq where
  mount: "page_mount token role lastSeq now works rnd = Some s \<Longrightarrow> 0 \<le> rnd \<Longrightarrow> rnd < 1 \<Longrightarrow> page_reach token role lastSeq s"
| step: "page_reach token role lastSeq s \<Longrightarrow> page_may s inp \<Longrightarrow> page_reach token role lastSeq (page_step inp s)"

section \<open>Never without a socket or a timer\<close>

lemma backoffDelay_bounds:
  assumes "0 \<le> rnd" and "rnd < 1"
  shows "250 \<le> backoffDelay n rnd" and "backoffDelay n rnd \<le> 8000"
proof -
  let ?c = "min BACKOFF_MAX_MS (BACKOFF_BASE_MS * BACKOFF_FACTOR ^ n)"
  have "1 \<le> BACKOFF_FACTOR ^ n" by (rule one_le_power) (simp add: BACKOFF_FACTOR_def)
  then have c: "500 \<le> ?c" "?c \<le> 8000" by (simp_all add: BACKOFF_MAX_MS_def BACKOFF_BASE_MS_def)
  have f: "1 / 2 \<le> 1 / 2 + rnd * (1 / 2)" "1 / 2 + rnd * (1 / 2) \<le> 1" using assms by simp_all
  have "500 * (1 / 2) \<le> ?c * (1 / 2 + rnd * (1 / 2))" using c f by (intro mult_mono) auto
  from js_round_mono [OF this] show "250 \<le> backoffDelay n rnd"
    using js_round_of_int [of 250] by (simp add: backoffDelay_def Let_def)
  have "?c * (1 / 2 + rnd * (1 / 2)) \<le> 8000 * 1" using c f by (intro mult_mono) auto
  from js_round_mono [OF this] show "backoffDelay n rnd \<le> 8000"
    using js_round_of_int [of 8000] by (simp add: backoffDelay_def Let_def)
qed

text \<open>\<open>alive ss i\<close>: socket \<open>i\<close> has not closed.\<close>

definition alive :: "page_socket list \<Rightarrow> nat \<Rightarrow> bool" where
  "alive ss i \<longleftrightarrow> i < length ss \<and> pw_ready (ss ! i) \<noteq> Bw_closed"

definition last_made :: "nat option \<Rightarrow> page_socket list \<Rightarrow> bool" where
  "last_made k ss \<longleftrightarrow> (case k of None \<Rightarrow> ss = [] | Some i \<Rightarrow> length ss = i + 1)"

definition beats_of :: "nat option \<Rightarrow> nat list" where
  "beats_of h = (case h of None \<Rightarrow> [] | Some i \<Rightarrow> [i])"

definition page_ok :: "projector_page \<Rightarrow> bool" where
  "page_ok s \<longleftrightarrow>
     last_made (px_socket s) (px_sockets s)
     \<and> (\<forall>i. alive (px_sockets s) i \<longrightarrow> px_socket s = Some i)
     \<and> px_beats s = beats_of (px_heartbeat s)
     \<and> (px_heartbeat s \<noteq> None \<longrightarrow> px_heartbeat s = px_socket s \<and> alive (px_sockets s) (the (px_socket s))
          \<and> pw_ready (px_sockets s ! the (px_socket s)) \<noteq> Bw_connecting)
     \<and> opt_ok (\<lambda>d. 250 \<le> d \<and> d \<le> 8000) (px_reconnect s)
     \<and> (if px_disposed s
         then px_reconnect s = None \<and> px_heartbeat s = None
           \<and> (\<forall>i. alive (px_sockets s) i \<longrightarrow> pw_ready (px_sockets s ! i) = Bw_closing \<and> \<not> pw_handled (px_sockets s ! i))
         else (\<forall>i < length (px_sockets s). pw_handled (px_sockets s ! i))
           \<and> (px_reconnect s = None \<longleftrightarrow> (\<exists>i. alive (px_sockets s) i)))"

lemma last_made_simps [simp]:
  "last_made k (ss[i := x]) = last_made k ss" "last_made (Some i) ss \<longleftrightarrow> length ss = i + 1" "last_made None ss \<longleftrightarrow> ss = []"
  "beats_of None = []" "beats_of (Some i) = [i]"
  by (simp_all add: last_made_def beats_of_def split: option.split)

lemma only_alive:
  assumes "page_ok s" and "alive (px_sockets s) i"
  shows "px_socket s = Some i" and "length (px_sockets s) = i + 1" and "alive (px_sockets s) j \<longleftrightarrow> j = i"
    and "px_heartbeat s = None \<or> px_heartbeat s = Some i \<and> pw_ready (px_sockets s ! i) \<noteq> Bw_connecting"
    and "px_reconnect s = None" and "\<not> px_disposed s \<Longrightarrow> \<forall>j \<le> i. pw_handled (px_sockets s ! j)"
    and "px_disposed s \<Longrightarrow> px_heartbeat s = None \<and> pw_ready (px_sockets s ! i) = Bw_closing \<and> \<not> pw_handled (px_sockets s ! i)"
proof -
  have all: "alive (px_sockets s) k \<Longrightarrow> px_socket s = Some k" for k using assms(1) by (auto simp: page_ok_def)
  show k: "px_socket s = Some i" by (rule all [OF assms(2)])
  show "length (px_sockets s) = i + 1" using assms(1) k by (simp add: page_ok_def)
  show "alive (px_sockets s) j \<longleftrightarrow> j = i" using all [of j] k assms(2) by auto
  show "px_heartbeat s = None \<or> px_heartbeat s = Some i \<and> pw_ready (px_sockets s ! i) \<noteq> Bw_connecting"
    using assms(1) k by (cases "px_heartbeat s") (simp_all add: page_ok_def)
  show "px_reconnect s = None" using assms by (auto simp: page_ok_def split: if_splits)
  show "\<not> px_disposed s \<Longrightarrow> \<forall>j \<le> i. pw_handled (px_sockets s ! j)" using assms(1) k by (simp add: page_ok_def)
  show "px_disposed s \<Longrightarrow> px_heartbeat s = None \<and> pw_ready (px_sockets s ! i) = Bw_closing \<and> \<not> pw_handled (px_sockets s ! i)"
    using assms by (auto simp: page_ok_def)
qed

lemma page_ok_beats: "page_ok s \<Longrightarrow> px_beats s = beats_of (px_heartbeat s)"
  by (simp add: page_ok_def)

text \<open>The invariant while socket \<open>i\<close> is alive.\<close>

lemma page_ok_alive:
  assumes "px_socket s = Some i" and "length (px_sockets s) = i + 1" and "\<And>j. alive (px_sockets s) j \<longleftrightarrow> j = i"
    and "px_beats s = beats_of (px_heartbeat s)" and "px_reconnect s = None"
    and "px_heartbeat s = None \<or> px_heartbeat s = Some i \<and> pw_ready (px_sockets s ! i) \<noteq> Bw_connecting"
    and "\<not> px_disposed s \<Longrightarrow> \<forall>j \<le> i. pw_handled (px_sockets s ! j)"
    and "px_disposed s \<Longrightarrow> px_heartbeat s = None \<and> pw_ready (px_sockets s ! i) = Bw_closing \<and> \<not> pw_handled (px_sockets s ! i)"
  shows "page_ok s"
  using assms by (cases "px_disposed s") (auto simp: page_ok_def opt_ok_def)

lemma page_ok_gone:
  assumes "last_made (px_socket s) (px_sockets s)" and "\<And>j. \<not> alive (px_sockets s) j" and "px_beats s = []"
    and "px_heartbeat s = None" and "px_reconnect s = None" and "px_disposed s"
  shows "page_ok s"
  using assms by (simp add: page_ok_def opt_ok_def)

text \<open>Between two sockets.\<close>

definition page_idle :: "projector_page \<Rightarrow> bool" where
  "page_idle s \<longleftrightarrow>
     last_made (px_socket s) (px_sockets s)
     \<and> (\<forall>i. \<not> alive (px_sockets s) i) \<and> px_heartbeat s = None \<and> px_beats s = [] \<and> px_reconnect s = None \<and> \<not> px_disposed s
     \<and> (\<forall>i < length (px_sockets s). pw_handled (px_sockets s ! i))"

lemma idle_mounted: "page_idle (mounted token role lastSeq now)"
  by (simp add: page_idle_def mounted_def alive_def last_made_def)

lemma ok_scheduleReconnect: "page_idle s \<Longrightarrow> 0 \<le> rnd \<Longrightarrow> rnd < 1 \<Longrightarrow> page_ok (page_scheduleReconnect rnd s)"
  by (auto simp: page_idle_def page_ok_def page_scheduleReconnect_def opt_ok_def backoffDelay_bounds beats_of_def)

lemma ok_open: "page_idle s \<Longrightarrow> 0 \<le> rnd \<Longrightarrow> rnd < 1 \<Longrightarrow> page_ok (page_open now works rnd s)"
proof (cases works)
  case True
  assume idle: "page_idle s"
  then have "alive (px_sockets (page_open now works rnd s)) i \<longleftrightarrow> i = length (px_sockets s)" for i
    using True by (auto simp: page_idle_def page_open_def alive_def nth_append)
  then show ?thesis using idle True by (auto simp: page_idle_def page_ok_def page_open_def opt_ok_def nth_append less_Suc_eq last_made_def beats_of_def)
next
  case False
  assume "page_idle s" "0 \<le> rnd" "rnd < 1"
  then show ?thesis using False ok_scheduleReconnect by (simp add: page_open_def page_idle_def)
qed

lemma alive_set_ready: "alive (px_sockets (page_set_ready i r s)) j \<longleftrightarrow> (if j = i then i < length (px_sockets s) \<and> r \<noteq> Bw_closed else alive (px_sockets s) j)"
  by (auto simp: alive_def page_set_ready_def nth_list_update)

lemma set_ready_simps [simp]:
  "length (px_sockets (page_set_ready i r s)) = length (px_sockets s)"
  "last_made k (px_sockets (page_set_ready i r s)) = last_made k (px_sockets s)"
  "j < length (px_sockets s) \<Longrightarrow> pw_handled (px_sockets (page_set_ready i r s) ! j) = pw_handled (px_sockets s ! j)"
  "i < length (px_sockets s) \<Longrightarrow> pw_ready (px_sockets (page_set_ready i r s) ! j) = (if j = i then r else pw_ready (px_sockets s ! j))"
  "px_socket (page_set_ready i r s) = px_socket s" "px_heartbeat (page_set_ready i r s) = px_heartbeat s"
  "px_beats (page_set_ready i r s) = px_beats s" "px_reconnect (page_set_ready i r s) = px_reconnect s"
  "px_disposed (page_set_ready i r s) = px_disposed s" "px_lastSeq (page_set_ready i r s) = px_lastSeq s"
  "px_out (page_set_ready i r s) = px_out s" "px_token (page_set_ready i r s) = px_token s" "px_role (page_set_ready i r s) = px_role s"
  by (cases "i < length (px_sockets s)"; simp add: page_set_ready_def nth_list_update)+

text \<open>A socket that is alive starts to close.\<close>

lemma ok_set_closing:
  assumes "page_ok s" and "alive (px_sockets s) i"
  shows "page_ok (page_set_ready i Bw_closing s)"
proof -
  note i = only_alive [OF assms]
  show ?thesis
    by (rule page_ok_alive [of _ i]) (use i page_ok_beats [OF assms(1)] in \<open>auto simp: alive_set_ready\<close>)
qed

lemma ok_send: "page_ok (page_send i msg s) = page_ok s"
  by (simp add: page_send_def px_do_def page_ok_def)

lemma ok_heard: "page_ok (page_onmessage now m s) = page_ok s"
  by (simp add: page_onmessage_def px_do_def page_ok_def Let_def split: option.split)

lemma ok_opens:
  assumes "page_ok s" and "alive (px_sockets s) i" and "pw_ready (px_sockets s ! i) = Bw_connecting" and "\<not> px_disposed s"
  shows "page_ok (page_onopen now i (page_set_ready i Bw_open s))"
proof -
  note i = only_alive [OF assms(1,2)]
  show ?thesis
    by (rule page_ok_alive [of _ i])
      (use i page_ok_beats [OF assms(1)] assms(3,4) in
        \<open>auto simp: page_onopen_def page_send_def px_do_def Let_def alive_set_ready\<close>)
qed

lemma idle_after_close:
  assumes "page_ok s" and "alive (px_sockets s) i" and "\<not> px_disposed s"
  shows "page_idle (stopHeartbeat (page_set_ready i Bw_closed s))"
proof -
  note i = only_alive [OF assms(1,2)]
  show ?thesis
    using i page_ok_beats [OF assms(1)] assms(3)
    by (auto simp: page_idle_def stopHeartbeat_def alive_set_ready less_Suc_eq_le split: option.split)
qed

lemma ok_closes:
  assumes "page_ok s" and "alive (px_sockets s) i" and "0 \<le> rnd" and "rnd < 1"
  shows "page_ok (page_socket_event now rnd i Bw_closes s)"
proof (cases "px_disposed s")
  case True
  note i = only_alive [OF assms(1,2)]
  have "page_socket_event now rnd i Bw_closes s = page_set_ready i Bw_closed s"
    using i True by (simp add: page_socket_event_def)
  moreover have "\<not> alive (px_sockets (page_set_ready i Bw_closed s)) j" for j using i(3) [of j] by (simp add: alive_set_ready)
  ultimately show ?thesis using i page_ok_beats [OF assms(1)] True by (auto intro!: page_ok_gone)
next
  case False
  let ?t = "stopHeartbeat (page_set_ready i Bw_closed s)"
  have idle: "page_idle ?t" by (rule idle_after_close [OF assms(1,2) False])
  have "page_idle (?t\<lparr>px_openedAt := 0, px_connected := False\<rparr>)" "page_idle (?t\<lparr>px_attempt := 0, px_openedAt := 0, px_connected := False\<rparr>)"
    using idle by (simp_all add: page_idle_def)
  note after = this [THEN ok_scheduleReconnect, OF assms(3,4)]
  have h: "pw_handled (px_sockets s ! i)" "i < length (px_sockets s)" using only_alive [OF assms(1,2)] False by simp_all
  have "\<not> px_disposed ?t" using idle by (simp add: page_idle_def)
  then have "page_onclose now rnd (page_set_ready i Bw_closed s)
      = page_scheduleReconnect rnd ((if px_openedAt ?t \<noteq> 0 \<and> now - px_openedAt ?t \<ge> STABLE_CONNECTION_MS then ?t\<lparr>px_attempt := 0\<rparr> else ?t)
           \<lparr>px_openedAt := 0, px_connected := False\<rparr>)"
    by (simp add: page_onclose_def Let_def)
  then show ?thesis using after h by (simp add: page_socket_event_def Let_def split: if_split)
qed

lemma ok_dispose:
  assumes "page_ok s" and "\<not> px_disposed s"
  shows "page_ok (page_dispose s)"
proof (cases "\<exists>i. alive (px_sockets s) i")
  case True
  then obtain i where a: "alive (px_sockets s) i" ..
  note i = only_alive [OF assms(1) a]
  have r: "pw_ready (px_sockets s ! i) \<noteq> Bw_closed" using a by (simp add: alive_def)
  have "alive ((px_sockets s)[i := \<lparr>pw_ready = Bw_closing, pw_handled = False\<rparr>]) j \<longleftrightarrow> j = i" for j
    using i(2) i(3) [of j] by (auto simp: alive_def nth_list_update)
  then show ?thesis
    by (intro page_ok_alive [of _ i])
      (use i page_ok_beats [OF assms(1)] r in \<open>auto simp: page_dispose_def stopHeartbeat_def Let_def bw_close_def split: option.split\<close>)
next
  case False
  have h: "px_heartbeat s = None" "px_beats s = []" using False assms(1) by (auto simp: page_ok_def)
  have made: "last_made (px_socket s) (px_sockets s)" using assms(1) by (simp add: page_ok_def)
  have "pw_ready (px_sockets s ! i) = Bw_closed" if "i < length (px_sockets s)" for i using False that by (auto simp: alive_def)
  then have "\<not> alive ((px_sockets s)[i := \<lparr>pw_ready = bw_close (pw_ready (px_sockets s ! i)), pw_handled = False\<rparr>]) j" for i j
    by (cases "i < length (px_sockets s)") (auto simp: alive_def nth_list_update bw_close_def)
  then show ?thesis
    using False h made by (intro page_ok_gone) (auto simp: page_dispose_def stopHeartbeat_def Let_def split: option.split)
qed

lemma ok_step:
  assumes "page_ok s" and "page_may s inp"
  shows "page_ok (page_step inp s)"
proof (cases inp)
  case (Pi_socket now rnd i ev)
  then have i: "i < length (px_sockets s)" "bw_fires (pw_ready (px_sockets s ! i)) ev" "0 \<le> rnd" "rnd < 1" using assms(2) by auto
  have al: "alive (px_sockets s) i" using i by (cases ev) (auto simp: alive_def)
  have same: "page_ok (page_set_ready i (pw_ready (px_sockets s ! i)) s)"
    using assms(1) by (simp add: page_set_ready_def)
  show ?thesis
  proof (cases ev)
    case Bw_opens
    then have c: "pw_ready (px_sockets s ! i) = Bw_connecting" using i by simp
    then have d: "\<not> px_disposed s" using only_alive(7) [OF assms(1) al] by auto
    have "pw_handled (px_sockets s ! i)" using only_alive(6) [OF assms(1) al d] by simp
    then show ?thesis using Pi_socket Bw_opens ok_opens [OF assms(1) al c d] i(1) by (simp add: page_socket_event_def)
  qed (use Pi_socket same ok_heard ok_closes [OF assms(1) al i(3,4)] in \<open>simp_all add: page_socket_event_def Let_def\<close>)
next
  case (Pi_closing i)
  then show ?thesis using assms ok_set_closing by (simp add: alive_def)
next
  case (Pi_beat now i)
  then have "px_heartbeat s = Some i" using assms(2) page_ok_beats [OF assms(1)] by (cases "px_heartbeat s") auto
  then have "px_heartbeat s = px_socket s \<and> alive (px_sockets s) (the (px_socket s))" using assms(1) unfolding page_ok_def by blast
  then have "alive (px_sockets s) i" using \<open>px_heartbeat s = Some i\<close> by (metis option.sel)
  then show ?thesis using Pi_beat assms(1) ok_set_closing ok_send by (simp add: page_beat_def bw_close_def alive_def)
next
  case (Pi_timer now works rnd)
  then have r: "px_reconnect s \<noteq> None" "0 \<le> rnd" "rnd < 1" using assms(2) by auto
  have "page_idle (s\<lparr>px_reconnect := None\<rparr>)"
    using r(1) assms(1) by (cases "px_heartbeat s") (auto simp: page_ok_def page_idle_def split: if_splits)
  from ok_open [OF this r(2,3)] show ?thesis using Pi_timer by (simp add: page_reconnect_def)
next
  case Pi_dispose
  then show ?thesis using assms ok_dispose by simp
qed

lemma page_reach_ok: "page_reach token role lastSeq s \<Longrightarrow> page_ok s"
proof (induction rule: page_reach.induct)
  case (mount now works rnd s)
  then show ?case using ok_open [OF idle_mounted] by (auto simp: page_mount_def split: if_splits)
qed (rule ok_step)

section \<open>What is asked for\<close>

text \<open>The number of the last numbered message that the page heard.\<close>

definition last_number :: "nat option \<Rightarrow> page_effect list \<Rightarrow> nat option" where
  "last_number k es =
     foldl (\<lambda>k e. case e of Px_heard msg \<Rightarrow> (case seq_of msg of None \<Rightarrow> k | Some n \<Rightarrow> Some n) | _ \<Rightarrow> k) k es"

lemma last_number_simps [simp]:
  "last_number k [] = k" "last_number k (es @ [Px_send i m]) = last_number k es"
  "last_number k (es @ [Px_heard msg]) = (case seq_of msg of None \<Rightarrow> last_number k es | Some n \<Rightarrow> Some n)"
  by (simp_all add: last_number_def split: option.split)

text \<open>Everything that is sent is a ping, or an attach that asks for what follows the last number heard so far.\<close>

definition asks_for_the_rest :: "string \<Rightarrow> projector_role \<Rightarrow> nat option \<Rightarrow> page_effect list \<Rightarrow> bool" where
  "asks_for_the_rest token role k es \<longleftrightarrow>
     (\<forall>pre i m post. es = pre @ Px_send i m # post \<longrightarrow>
        m = Projector_ping \<or> m = Projector_attach PROTOCOL_VERSION token (last_number k pre) role)"

lemma asks_append:
  assumes "asks_for_the_rest token role k es"
  shows "asks_for_the_rest token role k (es @ [Px_heard msg])"
    and "m = Projector_ping \<or> m = Projector_attach PROTOCOL_VERSION token (last_number k es) role \<Longrightarrow>
      asks_for_the_rest token role k (es @ [Px_send i m])"
  using assms by (auto simp: asks_for_the_rest_def append_eq_append_conv2 append_eq_Cons_conv Cons_eq_append_conv)

definition page_asks :: "string \<Rightarrow> projector_role \<Rightarrow> nat option \<Rightarrow> projector_page \<Rightarrow> bool" where
  "page_asks token role k s \<longleftrightarrow>
     px_token s = token \<and> px_role s = role \<and> px_lastSeq s = last_number k (px_out s) \<and> asks_for_the_rest token role k (px_out s)"

lemma page_asks_send:
  "page_asks token role k s \<Longrightarrow> m = Projector_ping \<or> m = attach_message s \<Longrightarrow> page_asks token role k (page_send i m s)"
  by (auto simp: page_asks_def page_send_def px_do_def attach_message_def intro!: asks_append)

lemma page_asks_update:
  "px_token s' = px_token s \<Longrightarrow> px_role s' = px_role s \<Longrightarrow> px_lastSeq s' = px_lastSeq s \<Longrightarrow> px_out s' = px_out s \<Longrightarrow>
     page_asks token role k s \<Longrightarrow> page_asks token role k s'"
  by (simp add: page_asks_def)

lemma page_asks_quiet:
  "page_asks token role k s \<Longrightarrow> page_asks token role k (stopHeartbeat s)"
  "page_asks token role k s \<Longrightarrow> page_asks token role k (page_scheduleReconnect rnd s)"
  "page_asks token role k s \<Longrightarrow> page_asks token role k (page_open now works rnd s)"
  "page_asks token role k s \<Longrightarrow> page_asks token role k (page_set_ready i r s)"
  "page_asks token role k s \<Longrightarrow> page_asks token role k (page_onclose now rnd s)"
  "page_asks token role k s \<Longrightarrow> page_asks token role k (page_dispose s)"
  by (simp_all add: page_asks_def stopHeartbeat_def page_scheduleReconnect_def page_open_def page_onclose_def page_dispose_def
      Let_def split: option.split)

lemma page_asks_onopen:
  assumes "page_asks token role k s"
  shows "page_asks token role k (page_onopen now i s)"
proof -
  let ?s = "s\<lparr>px_openedAt := now, px_lastRxAt := now, px_connected := True\<rparr>"
  have "page_asks token role k ?s" by (rule page_asks_update [OF _ _ _ _ assms]) simp_all
  then have "page_asks token role k (page_send i (attach_message ?s) ?s)" by (rule page_asks_send) simp
  then show ?thesis using assms by (auto simp: page_onopen_def Let_def intro: page_asks_update)
qed

lemma page_asks_onmessage: "page_asks token role k s \<Longrightarrow> page_asks token role k (page_onmessage now m s)"
  by (cases m) (auto simp: page_asks_def page_onmessage_def px_do_def Let_def asks_append split: option.split)

lemma page_asks_timer: "page_asks token role k s \<Longrightarrow> page_asks token role k (s\<lparr>px_reconnect := None\<rparr>)"
  by (simp add: page_asks_def)

lemma page_asks_step: "page_asks token role k s \<Longrightarrow> page_asks token role k (page_step inp s)"
  by (cases inp)
    (auto simp: page_socket_event_def Let_def page_beat_def page_reconnect_def page_asks_quiet page_asks_timer page_asks_onopen page_asks_onmessage
        page_asks_send split: ws_event.split intro: page_asks_quiet page_asks_update)

lemma page_reach_asks: "page_reach token role k s \<Longrightarrow> page_asks token role k s"
proof (induction rule: page_reach.induct)
  case (mount now works rnd s)
  have "page_asks token role k (mounted token role k now)" by (simp add: page_asks_def mounted_def asks_for_the_rest_def)
  then show ?case using mount page_asks_quiet(3) by (auto simp: page_mount_def split: if_splits)
qed (rule page_asks_step)

text \<open>
  C13: A projector never gives up, and never does two things at once. In every reachable state of a page that is on: either no
  socket is left and exactly one reconnect is due, between a quarter of a second and eight seconds away, or there is exactly one
  socket and no reconnect; at most one heartbeat runs, on that socket. When the page is gone there is no timer and no heartbeat.
  Whatever it sends is a ping or an attach with its own token that asks for what follows the last message it has heard.
\<close>

theorem projector_never_gives_up:
  assumes "page_reach token role k s"
  shows "(\<not> px_disposed s \<longrightarrow>
           (case px_reconnect s of
              Some d \<Rightarrow> 250 \<le> d \<and> d \<le> 8000 \<and> (\<forall>i. \<not> alive (px_sockets s) i) \<and> px_beats s = []
            | None \<Rightarrow> \<exists>i. px_socket s = Some i \<and> (\<forall>j. alive (px_sockets s) j \<longleftrightarrow> j = i) \<and> px_beats s \<in> {[], [i]}))
     \<and> (px_disposed s \<longrightarrow> px_reconnect s = None \<and> px_beats s = [])
     \<and> asks_for_the_rest token role k (px_out s)"
proof -
  have ok: "page_ok s" by (rule page_reach_ok [OF assms])
  have alive: "\<exists>i. px_socket s = Some i \<and> (\<forall>j. alive (px_sockets s) j \<longleftrightarrow> j = i) \<and> px_beats s \<in> {[], [i]}"
    if "alive (px_sockets s) i" for i
    using only_alive(1,3,4) [OF ok that] page_ok_beats [OF ok] by auto
  have due: "250 \<le> d \<and> d \<le> 8000 \<and> (\<forall>i. \<not> alive (px_sockets s) i) \<and> px_beats s = []" if "px_reconnect s = Some d" "\<not> px_disposed s" for d
    using ok that by (cases "px_heartbeat s") (auto simp: page_ok_def opt_ok_def)
  have off: "px_disposed s \<longrightarrow> px_reconnect s = None \<and> px_beats s = []" using ok by (simp add: page_ok_def)
  have "px_reconnect s = None \<Longrightarrow> \<not> px_disposed s \<Longrightarrow> \<exists>i. alive (px_sockets s) i" using ok by (simp add: page_ok_def)
  then show ?thesis using alive due off page_reach_asks [OF assms] by (auto simp: page_asks_def split: option.split)
qed

text \<open>A projector that heard message 7, lost its socket and came back.\<close>

definition demo_page :: projector_page where
  "demo_page = fold page_step
     [Pi_socket 1 0 0 Bw_opens, Pi_socket 2 0 0 (Bw_says (Some (Relay_cardEnd 7 ''c1''))), Pi_socket 3 0 0 Bw_closes,
      Pi_timer 300 True 0, Pi_socket 301 0 1 Bw_opens]
     (page_open 0 True 0 (mounted ''0123456789abcdef'' Role_captions None 0))"

lemma demo_page_reach: "page_reach ''0123456789abcdef'' Role_captions None demo_page"
  unfolding demo_page_def fold.simps comp_apply id_apply
proof (intro page_reach.step)
  show "page_reach ''0123456789abcdef'' Role_captions None (page_open 0 True 0 (mounted ''0123456789abcdef'' Role_captions None 0))"
    by (rule page_reach.mount [of _ _ _ 0 True 0]) (simp_all add: page_mount_def)
qed code_simp+

theorem projector_never_gives_up_witness:
  "px_out demo_page = [Px_send 0 (Projector_attach PROTOCOL_VERSION ''0123456789abcdef'' None Role_captions),
     Px_heard (Relay_cardEnd 7 ''c1''), Px_send 1 (Projector_attach PROTOCOL_VERSION ''0123456789abcdef'' (Some 7) Role_captions)]
   \<and> px_beats demo_page \<in> {[], [1]}"
proof -
  have "px_out demo_page = [Px_send 0 (Projector_attach PROTOCOL_VERSION ''0123456789abcdef'' None Role_captions),
     Px_heard (Relay_cardEnd 7 ''c1''), Px_send 1 (Projector_attach PROTOCOL_VERSION ''0123456789abcdef'' (Some 7) Role_captions)]"
    by code_simp
  moreover have "px_socket demo_page = Some 1" "px_reconnect demo_page = None" "\<not> px_disposed demo_page" by code_simp+
  ultimately show ?thesis using projector_never_gives_up [OF demo_page_reach] by simp
qed

end
