(* ===== verification/Studio_Link.thy ===== *)
theory Studio_Link
  imports Front_Door Relay_Client
begin

text \<open>
  The studio's client (\<open>Relay_Client\<close>) at the relay's front door (\<open>Relay_Server\<close>): what happens to the frames that the
  client sends right behind its hello.
\<close>

text \<open>A frame of the client as the relay receives it.\<close>

definition arrives :: "client_frame \<Rightarrow> studio_frame" where
  "arrives f = (case f of Wire_message m \<Rightarrow> Frame_text (Some m) | Wire_audio bytes \<Rightarrow> Frame_binary bytes)"

lemma audio_before_the_session:
  assumes "i < length (rs_conns s)" and "rs_conns s ! i = Studio_conn x" and "sk_handshakeDone x" and "sk_actor x = None"
  shows "server_run e (map (\<lambda>bytes. In_studio_frame now i (arrives (Wire_audio bytes))) frames) s = s"
  using assms by (induction frames) (simp_all add: server_run_def arrives_def on_studio_frame_def)

lemma buffer_frame_slice: "buffer_frame f (slice_last 150 xs) = slice_last 150 (xs @ [f])"
proof (cases "length xs < 150")
  case False
  define k where "k = length xs - 150"
  have k: "length (xs @ [f]) - 150 = Suc k" "length (drop k xs) = 150" using False by (simp_all add: k_def)
  then have "drop k xs \<noteq> []" by auto
  then have "tl (drop k xs @ [f]) = drop (Suc k) xs @ [f]" by (simp add: tl_append2 drop_Suc tl_drop)
  then show ?thesis using k by (simp add: buffer_frame_def slice_last_def k_def)
qed (simp add: buffer_frame_def slice_last_def)

lemma pushes_before_connect:
  "client_run (map Rl_audio frames) new_client = new_client\<lparr>rl_buffered := slice_last 150 frames\<rparr>"
proof (induction frames rule: rev_induct)
  case Nil
  then show ?case by (simp add: client_run_def new_client_def slice_last_def)
next
  case (snoc f frames)
  have "client_run (map Rl_audio (frames @ [f])) new_client = client_sendAudio f (client_run (map Rl_audio frames) new_client)"
    by (simp add: client_run_def)
  then show ?case using snoc buffer_frame_slice [of f frames]
    by (simp add: client_sendAudio_eq open_socket_def) (simp add: new_client_def)
qed

lemma opened_with_buffer:
  "wires (rl_out (client_run (map Rl_audio frames @ [Rl_connect jwt cfg, Rl_event 0 Bw_opens]) new_client))
     = Wire_message (Studio_hello PROTOCOL_VERSION jwt cfg) # map Wire_audio (slice_last 150 frames)"
proof -
  have "client_run (map Rl_audio frames @ [Rl_connect jwt cfg, Rl_event 0 Bw_opens]) new_client
      = client_socket_event 0 Bw_opens (client_step (new_client\<lparr>rl_buffered := slice_last 150 frames\<rparr>) (Rl_connect jwt cfg))"
    using pushes_before_connect [of frames] by (simp add: client_run_def)
  then show ?thesis
    by (simp add: client_connect_def client_socket_event_def client_send_def flushBuffer_def open_socket_def rl_do_def new_client_def Let_def o_def)
qed

text \<open>
  The words that the buffer saves are thrown away by the relay: a client that is opened with any frames in its buffer sends
  them with its hello, and when the session has been built the transcriber has heard none of them.
\<close>

lemma buffered_words_are_lost:
  "(let c = client_run (map Rl_audio frames @ [Rl_connect ''s1'' default_SessionConfig, Rl_event 0 Bw_opens]) new_client;
        s = server_run demo_door
              ([In_upgrade 0 ''/session'' ''ip''] @ map (\<lambda>f. In_studio_frame 0 0 (arrives f)) (wires (rl_out c))
               @ [In_verified 0 0, In_built 0 0 ''p1'' built]) new_server
    in audio_frames (wires (rl_out c)) = slice_last 150 frames
     \<and> a_state (snd (rs_actors s ! 0)) = RUNNING
     \<and> (\<forall>pcm. Stt_audio pcm \<notin> set (a_out (snd (rs_actors s ! 0)))))"
proof -
  define greeted where "greeted = server_run demo_door [In_upgrade 0 ''/session'' ''ip'', In_studio_frame 0 0 (hello ''s1'')] new_server"
  let ?audio = "map (\<lambda>f. In_studio_frame 0 0 (arrives f)) (map Wire_audio (slice_last 150 frames))"
  have conn: "length (rs_conns greeted) = 1"
    "case rs_conns greeted ! 0 of Studio_conn x \<Rightarrow> sk_handshakeDone x \<and> sk_actor x = None | Projector_conn p \<Rightarrow> False"
    unfolding greeted_def by code_simp+
  then obtain x where x: "rs_conns greeted ! 0 = Studio_conn x" "sk_handshakeDone x" "sk_actor x = None"
    by (cases "rs_conns greeted ! 0") auto
  have deaf: "server_run demo_door ?audio greeted = greeted"
    using audio_before_the_session [of 0 greeted x demo_door 0 "slice_last 150 frames"] conn(1) x by (simp add: o_def)
  have run: "server_run demo_door ([In_upgrade 0 ''/session'' ''ip''] @ In_studio_frame 0 0 (hello ''s1'') # ?audio
        @ [In_verified 0 0, In_built 0 0 ''p1'' built]) new_server
      = server_run demo_door [In_verified 0 0, In_built 0 0 ''p1'' built] greeted"
    using deaf by (simp add: greeted_def server_run_def)
  have late: "a_state (snd (rs_actors (server_run demo_door [In_verified 0 0, In_built 0 0 ''p1'' built] greeted) ! 0)) = RUNNING"
    "filter (\<lambda>e. case e of Stt_audio pcm \<Rightarrow> True | _ \<Rightarrow> False)
       (a_out (snd (rs_actors (server_run demo_door [In_verified 0 0, In_built 0 0 ''p1'' built] greeted) ! 0))) = []"
    unfolding greeted_def by code_simp+
  then have "Stt_audio pcm \<notin> set (a_out (snd (rs_actors (server_run demo_door [In_verified 0 0, In_built 0 0 ''p1'' built] greeted) ! 0)))" for pcm
    by (fastforce simp: filter_empty_conv)
  moreover have "arrives (Wire_message (Studio_hello PROTOCOL_VERSION ''s1'' default_SessionConfig)) = hello ''s1''"
    by (simp add: arrives_def hello_def)
  ultimately show ?thesis using run late(1) by (simp add: opened_with_buffer Let_def)
qed

end
