(* ===== verification/Audio_Queue.thy ===== *)
theory Audio_Queue
  imports Audio_Frame Contracts "HOL-Library.Sublist"
begin

text \<open>
  \<open>apps/web/app/projector/lib/audio-queue.ts\<close> and the message handler of the voice page: chunks of speech are decoded one
  after the other and scheduled on the clock of the audio context. The decoder and the clock belong to the browser: what a
  decode gives and the time that is read after it come with the step.
\<close>

section \<open>State\<close>

definition DEFAULT_LEAD_MS :: rat where
  "DEFAULT_LEAD_MS = 80"

definition MAX_PENDING_BYTES :: nat where
  "MAX_PENDING_BYTES = 512 * 1024"

datatype queue_job = Job_push "byte list" | Job_flush

text \<open>The decode that is awaited, with its bytes.\<close>

datatype running_job = Run_push "byte list" | Run_flush "byte list"

text \<open>An \<open>AudioBuffer\<close>: the bytes it was decoded from and its length in seconds.\<close>

record audio_buffer =
  ab_bytes :: "byte list"
  ab_duration :: rat

text \<open>An \<open>AudioBufferSourceNode\<close>: the context it was made in, the time given to \<open>start\<close> and the buffer it plays.\<close>

record audio_source =
  as_context :: nat
  as_start :: rat
  as_buffer :: audio_buffer

definition as_end :: "audio_source \<Rightarrow> rat" where
  "as_end s = as_start s + ab_duration (as_buffer s)"

text \<open>\<open>aq_contexts\<close> counts the contexts that were made, \<open>aq_chain\<close> are the jobs that wait for their turn,
  \<open>aq_sources\<close> the sources that play or will, in the order in which they were started. \<open>aq_started\<close> is what the browser
  was told: every source on which \<open>start\<close> was called, also those that have ended since or were stopped.\<close>

record audio_queue =
  aq_leadMs :: rat
  aq_contexts :: nat
  aq_ctx :: "nat option"
  aq_nextStartAt :: rat
  aq_pending :: "byte list option"
  aq_chain :: "queue_job list"
  aq_running :: "running_job option"
  aq_sources :: "audio_source list"
  aq_started :: "audio_source list"

definition new_queue :: "rat option \<Rightarrow> audio_queue" where
  "new_queue leadMs =
     \<lparr>aq_leadMs = (case leadMs of None \<Rightarrow> DEFAULT_LEAD_MS | Some l \<Rightarrow> l), aq_contexts = 0, aq_ctx = None, aq_nextStartAt = 0,
      aq_pending = None, aq_chain = [], aq_running = None, aq_sources = [], aq_started = []\<rparr>"

section \<open>Operations\<close>

text \<open>\<open>context()\<close>: the context, made when there is none.\<close>

definition with_context :: "audio_queue \<Rightarrow> nat \<times> audio_queue" where
  "with_context q =
     (case aq_ctx q of
        Some c \<Rightarrow> (c, q)
      | None \<Rightarrow> (aq_contexts q, q\<lparr>aq_contexts := aq_contexts q + 1, aq_ctx := Some (aq_contexts q)\<rparr>))"

definition queue_resume :: "audio_queue \<Rightarrow> audio_queue" where
  "queue_resume q = snd (with_context q)"

definition queue_push :: "byte list \<Rightarrow> audio_queue \<Rightarrow> audio_queue" where
  "queue_push bytes q = q\<lparr>aq_chain := aq_chain q @ [Job_push bytes]\<rparr>"

definition queue_flush :: "audio_queue \<Rightarrow> audio_queue" where
  "queue_flush q = q\<lparr>aq_chain := aq_chain q @ [Job_flush]\<rparr>"

definition concat_bytes :: "byte list option \<Rightarrow> byte list \<Rightarrow> byte list" where
  "concat_bytes pending bytes = (case pending of None \<Rightarrow> bytes | Some p \<Rightarrow> p @ bytes)"

text \<open>\<open>decode\<close> up to its await: no context is asked for when there is nothing to decode.\<close>

definition begin_decode :: "running_job \<Rightarrow> byte list \<Rightarrow> audio_queue \<Rightarrow> audio_queue" where
  "begin_decode job bytes q = (if bytes = [] then q else snd (with_context q))\<lparr>aq_running := Some job\<rparr>"

text \<open>The next job of the chain starts when the one before has ended.\<close>

definition next_job :: "audio_queue \<Rightarrow> audio_queue" where
  "next_job q =
     (case (aq_running q, aq_chain q) of
        (None, Job_push bytes # rest) \<Rightarrow>
          let merged = concat_bytes (aq_pending q) bytes
          in begin_decode (Run_push merged) merged (q\<lparr>aq_chain := rest\<rparr>)
      | (None, Job_flush # rest) \<Rightarrow>
          (case aq_pending q of
             None \<Rightarrow> q\<lparr>aq_chain := rest\<rparr>
           | Some held \<Rightarrow> begin_decode (Run_flush held) held (q\<lparr>aq_chain := rest, aq_pending := None\<rparr>))
      | _ \<Rightarrow> q)"

definition queue_schedule :: "rat \<Rightarrow> audio_buffer \<Rightarrow> audio_queue \<Rightarrow> audio_queue" where
  "queue_schedule now buffer q =
     (case with_context q of
        (c, q) \<Rightarrow>
          let startAt = max (now + aq_leadMs q / 1000) (aq_nextStartAt q);
              source = \<lparr>as_context = c, as_start = startAt, as_buffer = buffer\<rparr>
          in q\<lparr>aq_nextStartAt := startAt + ab_duration buffer, aq_sources := aq_sources q @ [source], aq_started := aq_started q @ [source]\<rparr>)"

text \<open>What \<open>decode\<close> gives in the end: nothing for no bytes and for a rejection (\<open>None\<close>), otherwise a buffer of the length
  that the decoder found. \<open>now\<close> is the time of the context when the decode ends.\<close>

definition decode_result :: "byte list \<Rightarrow> rat option \<Rightarrow> audio_buffer option" where
  "decode_result bytes result =
     (if bytes = [] then None else map_option (\<lambda>d. \<lparr>ab_bytes = bytes, ab_duration = d\<rparr>) result)"

definition job_decoded :: "rat \<Rightarrow> rat option \<Rightarrow> audio_queue \<Rightarrow> audio_queue" where
  "job_decoded now result q =
     (case aq_running q of
        None \<Rightarrow> q
      | Some (Run_push merged) \<Rightarrow>
          let q = q\<lparr>aq_running := None\<rparr>
          in (case decode_result merged result of
                None \<Rightarrow> q\<lparr>aq_pending := (if length merged \<le> MAX_PENDING_BYTES then Some merged else None)\<rparr>
              | Some buffer \<Rightarrow> queue_schedule now buffer (q\<lparr>aq_pending := None\<rparr>))
      | Some (Run_flush held) \<Rightarrow>
          let q = q\<lparr>aq_running := None\<rparr>
          in (case decode_result held result of
                None \<Rightarrow> q
              | Some buffer \<Rightarrow> queue_schedule now buffer q))"

definition queue_stop :: "audio_queue \<Rightarrow> audio_queue" where
  "queue_stop q = q\<lparr>aq_sources := [], aq_pending := None, aq_nextStartAt := 0\<rparr>"

definition queue_close :: "audio_queue \<Rightarrow> audio_queue" where
  "queue_close q = (queue_stop q)\<lparr>aq_ctx := None\<rparr>"

text \<open>\<open>onended\<close> of the \<open>k\<close>-th source.\<close>

definition source_ended :: "nat \<Rightarrow> audio_queue \<Rightarrow> audio_queue" where
  "source_ended k q = q\<lparr>aq_sources := take k (aq_sources q) @ drop (k + 1) (aq_sources q)\<rparr>"

definition queuedSeconds :: "rat \<Rightarrow> audio_queue \<Rightarrow> rat" where
  "queuedSeconds now q = (case aq_ctx q of None \<Rightarrow> 0 | Some c \<Rightarrow> max 0 (aq_nextStartAt q - now))"

section \<open>The voice page\<close>

text \<open>\<open>atob\<close> gives a string of bytes or throws.\<close>

definition decodeBase64 :: "(string \<Rightarrow> string option) \<Rightarrow> string \<Rightarrow> byte list option" where
  "decodeBase64 atob v = map_option (map (\<lambda>c. of_nat (of_char c))) (atob v)"

definition voice_onMessage :: "(string \<Rightarrow> string option) \<Rightarrow> string option \<Rightarrow> relay_message \<Rightarrow> audio_queue \<Rightarrow> audio_queue" where
  "voice_onMessage atob lang msg q =
     (case msg of
        Relay_tts n i l chunk final \<Rightarrow>
          if truthy lang \<and> lang \<noteq> Some l then q
          else
            let q = (case decodeBase64 atob chunk of None \<Rightarrow> q | Some bytes \<Rightarrow> queue_push bytes q)
            in if final then queue_flush q else q
      | _ \<Rightarrow> q)"

section \<open>Runs\<close>

datatype queue_input =
    Aq_push "byte list"
  | Aq_flush
  | Aq_next
  | Aq_decoded rat "rat option"
  | Aq_ended nat
  | Aq_stop
  | Aq_close
  | Aq_resume

fun queue_step :: "audio_queue \<Rightarrow> queue_input \<Rightarrow> audio_queue" where
  "queue_step q (Aq_push bytes) = queue_push bytes q"
| "queue_step q Aq_flush = queue_flush q"
| "queue_step q Aq_next = next_job q"
| "queue_step q (Aq_decoded now result) = job_decoded now result q"
| "queue_step q (Aq_ended k) = source_ended k q"
| "queue_step q Aq_stop = queue_stop q"
| "queue_step q Aq_close = queue_close q"
| "queue_step q Aq_resume = queue_resume q"

definition queue_run :: "queue_input list \<Rightarrow> audio_queue \<Rightarrow> audio_queue" where
  "queue_run ins q = foldl queue_step q ins"

text \<open>Buffers are not of negative length.\<close>

definition lengths_ok :: "queue_input list \<Rightarrow> bool" where
  "lengths_ok ins \<longleftrightarrow> (\<forall>now d. Aq_decoded now (Some d) \<in> set ins \<longrightarrow> 0 \<le> d)"

section \<open>Order, seams and the bound\<close>

definition job_bytes :: "queue_job \<Rightarrow> byte list" where
  "job_bytes j = (case j of Job_push bytes \<Rightarrow> bytes | Job_flush \<Rightarrow> [])"

text \<open>The bytes that are held: awaited, or kept for the rest of a frame.\<close>

definition held_bytes :: "audio_queue \<Rightarrow> byte list" where
  "held_bytes q =
     (case aq_running q of
        Some (Run_push merged) \<Rightarrow> merged
      | Some (Run_flush held) \<Rightarrow> held
      | None \<Rightarrow> concat_bytes (aq_pending q) [])"

text \<open>What sources play, in the order in which they were started.\<close>

definition heard_bytes :: "audio_source list \<Rightarrow> byte list" where
  "heard_bytes ss = concat (map (\<lambda>s. ab_bytes (as_buffer s)) ss)"

text \<open>All bytes of the queue, oldest first.\<close>

definition queue_bytes :: "audio_queue \<Rightarrow> byte list" where
  "queue_bytes q = heard_bytes (aq_started q) @ held_bytes q @ concat (map job_bytes (aq_chain q))"

definition pushed_bytes :: "queue_input list \<Rightarrow> byte list" where
  "pushed_bytes ins = concat (map (\<lambda>i. case i of Aq_push bytes \<Rightarrow> bytes | _ \<Rightarrow> []) ins)"

definition after_one_another :: "audio_source list \<Rightarrow> bool" where
  "after_one_another ss \<longleftrightarrow> sorted_wrt (\<lambda>x y. as_end x \<le> as_start y) ss"

text \<open>Sources in order, the last of which ends at \<open>t\<close> at the latest.\<close>

definition timeline :: "audio_source list \<Rightarrow> rat \<Rightarrow> bool" where
  "timeline ss t \<longleftrightarrow> after_one_another ss \<and> (\<forall>s \<in> set ss. as_end s \<le> t)"

definition queue_ok :: "audio_queue \<Rightarrow> bool" where
  "queue_ok q \<longleftrightarrow>
     timeline (aq_sources q) (aq_nextStartAt q)
     \<and> subseq (aq_sources q) (aq_started q)
     \<and> length (concat_bytes (aq_pending q) []) \<le> MAX_PENDING_BYTES
     \<and> (\<forall>h. aq_running q = Some (Run_flush h) \<longrightarrow> aq_pending q = None)"

lemma heard_bytes_simps [simp]:
  "heard_bytes [] = []" "heard_bytes (ss @ [s]) = heard_bytes ss @ ab_bytes (as_buffer s)"
  by (simp_all add: heard_bytes_def)

lemma timeline_nil [simp]: "timeline [] t"
  by (simp add: timeline_def after_one_another_def)

lemma timeline_snoc:
  assumes "timeline ss t" and "t \<le> as_start s" and "0 \<le> ab_duration (as_buffer s)"
  shows "timeline (ss @ [s]) (as_end s)"
proof -
  have "as_end x \<le> as_start s" if "x \<in> set ss" for x using assms(1,2) that by (force simp: timeline_def)
  then show ?thesis using assms(1,3) by (force simp: timeline_def after_one_another_def sorted_wrt_append as_end_def)
qed

lemma timeline_drop: "timeline ss t \<Longrightarrow> timeline (take k ss @ drop (Suc k) ss) t"
proof -
  assume *: "timeline ss t"
  then have all: "after_one_another (take k ss @ drop k ss)" by (simp add: timeline_def)
  have tail: "drop (Suc k) ss = drop 1 (drop k ss)" by simp
  have "sorted_wrt R (drop 1 ys)" if "sorted_wrt R ys" for R and ys :: "audio_source list" using that by (rule sorted_wrt_drop)
  then have "after_one_another (take k ss @ drop (Suc k) ss)"
    using all unfolding after_one_another_def sorted_wrt_append tail by (blast dest: in_set_dropD)
  then show ?thesis using * by (auto simp: timeline_def dest: in_set_takeD in_set_dropD)
qed

lemma queue_ok_new: "queue_ok (new_queue l)"
  by (simp add: queue_ok_def new_queue_def concat_bytes_def MAX_PENDING_BYTES_def)

lemma with_context_simps [simp]:
  "aq_sources (snd (with_context q)) = aq_sources q" "aq_pending (snd (with_context q)) = aq_pending q"
  "aq_nextStartAt (snd (with_context q)) = aq_nextStartAt q" "aq_running (snd (with_context q)) = aq_running q"
  "aq_chain (snd (with_context q)) = aq_chain q" "aq_started (snd (with_context q)) = aq_started q"
  by (simp_all add: with_context_def split: option.split)

lemma begin_decode_simps [simp]:
  "aq_sources (begin_decode j b q) = aq_sources q" "aq_pending (begin_decode j b q) = aq_pending q"
  "aq_nextStartAt (begin_decode j b q) = aq_nextStartAt q" "aq_running (begin_decode j b q) = Some j"
  "aq_chain (begin_decode j b q) = aq_chain q" "aq_started (begin_decode j b q) = aq_started q"
  by (simp_all add: begin_decode_def)

lemma next_job_simps [simp]:
  "aq_sources (next_job q) = aq_sources q" "aq_started (next_job q) = aq_started q" "aq_nextStartAt (next_job q) = aq_nextStartAt q"
  by (simp_all add: next_job_def Let_def split: option.split list.split queue_job.split)

text \<open>What \<open>schedule\<close> does: one more source that plays the buffer, not before the end of what is already queued.\<close>

lemma schedule_spec:
  obtains s where "aq_sources (queue_schedule now b q) = aq_sources q @ [s]" "aq_started (queue_schedule now b q) = aq_started q @ [s]"
    "aq_nextStartAt (queue_schedule now b q) = as_end s" "as_buffer s = b" "aq_nextStartAt q \<le> as_start s"
proof -
  obtain c q' where c: "with_context q = (c, q')" by fastforce
  have q': "aq_sources q' = aq_sources q" "aq_started q' = aq_started q" "aq_nextStartAt q' = aq_nextStartAt q"
    using with_context_simps [of q] c by simp_all
  show ?thesis
    by (rule that [of "\<lparr>as_context = c, as_start = max (now + aq_leadMs q' / 1000) (aq_nextStartAt q'), as_buffer = b\<rparr>"])
      (simp_all add: queue_schedule_def c Let_def q' as_end_def)
qed

lemma schedule_simps [simp]:
  "aq_pending (queue_schedule now b q) = aq_pending q" "aq_running (queue_schedule now b q) = aq_running q"
  "aq_chain (queue_schedule now b q) = aq_chain q"
  by (simp_all add: queue_schedule_def with_context_def Let_def split: option.split)

lemma schedule_heard [simp]:
  "heard_bytes (aq_started (queue_schedule now b q)) = heard_bytes (aq_started q) @ ab_bytes b"
  by (rule schedule_spec [of now b q]) simp

lemma queue_ok_schedule:
  assumes "queue_ok q" and "0 \<le> ab_duration b"
  shows "queue_ok (queue_schedule now b q)"
proof (rule schedule_spec [of now b q])
  fix s
  assume s: "aq_sources (queue_schedule now b q) = aq_sources q @ [s]" "aq_started (queue_schedule now b q) = aq_started q @ [s]"
    "aq_nextStartAt (queue_schedule now b q) = as_end s" "as_buffer s = b" "aq_nextStartAt q \<le> as_start s"
  have "timeline (aq_sources q @ [s]) (as_end s)"
    by (rule timeline_snoc) (use assms s in \<open>simp_all add: queue_ok_def\<close>)
  then show ?thesis using assms(1) by (simp add: queue_ok_def s(1-3) list_emb_append_mono)
qed

lemma queue_ok_next: "queue_ok q \<Longrightarrow> queue_ok (next_job q)"
  by (auto simp: next_job_def queue_ok_def Let_def split: option.split list.split queue_job.split)
     (simp_all add: concat_bytes_def MAX_PENDING_BYTES_def)

lemma decode_result_simps [simp]:
  "decode_result b r = Some buffer \<longleftrightarrow> b \<noteq> [] \<and> ab_bytes buffer = b \<and> r = Some (ab_duration buffer)"
  "decode_result b r = None \<longleftrightarrow> b = [] \<or> r = None"
  by (cases r, auto simp: decode_result_def)+

lemma queue_ok_decoded:
  assumes "queue_ok q" and "\<And>d. result = Some d \<Longrightarrow> 0 \<le> d"
  shows "queue_ok (job_decoded now result q)"
proof -
  have quiet: "queue_ok (q\<lparr>aq_running := None\<rparr>)" using assms(1) by (simp add: queue_ok_def)
  have keep: "length m \<le> MAX_PENDING_BYTES \<Longrightarrow> queue_ok (q\<lparr>aq_running := None, aq_pending := Some m\<rparr>)"
    "queue_ok (q\<lparr>aq_running := None, aq_pending := None\<rparr>)" for m
    using assms(1) by (simp_all add: queue_ok_def concat_bytes_def)
  show ?thesis
    using assms(1) quiet keep queue_ok_schedule [OF keep(2)] queue_ok_schedule [OF quiet] assms(2)
    by (auto simp: job_decoded_def Let_def split: option.split running_job.split)
qed

lemma subseq_take_drop: "subseq (take k xs @ drop (Suc k) xs) xs"
proof -
  have "subseq (drop (Suc k) xs) (drop k xs)" using suffix_imp_subseq [OF suffix_drop [of 1 "drop k xs"]] by simp
  then have "subseq (take k xs @ drop (Suc k) xs) (take k xs @ drop k xs)" by (simp only: subseq_append')
  then show ?thesis by simp
qed

lemma queue_ok_step:
  assumes "queue_ok q" and "\<And>now d. inp = Aq_decoded now (Some d) \<Longrightarrow> 0 \<le> d"
  shows "queue_ok (queue_step q inp)"
proof (cases inp)
  case (Aq_ended k)
  have "subseq (take k (aq_sources q) @ drop (Suc k) (aq_sources q)) (aq_started q)"
    using assms(1) subseq_take_drop subseq_order.order_trans unfolding queue_ok_def by blast
  then show ?thesis using assms(1) Aq_ended by (simp add: source_ended_def queue_ok_def timeline_drop)
next
  case (Aq_decoded now result)
  then show ?thesis using assms queue_ok_decoded by auto
qed (use assms queue_ok_next in \<open>auto simp: queue_push_def queue_flush_def queue_stop_def queue_close_def queue_resume_def
       queue_ok_def concat_bytes_def\<close>)

section \<open>Bytes\<close>

text \<open>The inputs that drop bytes: a stop, a close, a rest that is flushed and does not decode, and held bytes over the cap.
  A block that does not decode is not lost: it waits for what follows it.\<close>

fun drops_bytes :: "audio_queue \<Rightarrow> queue_input \<Rightarrow> bool" where
  "drops_bytes q (Aq_decoded now None) =
     (case aq_running q of
        None \<Rightarrow> False
      | Some (Run_push merged) \<Rightarrow> length merged > MAX_PENDING_BYTES
      | Some (Run_flush held) \<Rightarrow> held \<noteq> [])"
| "drops_bytes q inp = (inp = Aq_stop \<or> inp = Aq_close)"

fun keeps_all :: "audio_queue \<Rightarrow> queue_input list \<Rightarrow> bool" where
  "keeps_all q [] = True"
| "keeps_all q (inp # ins) = (\<not> drops_bytes q inp \<and> keeps_all (queue_step q inp) ins)"

lemma keeps_all_snoc: "keeps_all q (ins @ [inp]) \<longleftrightarrow> keeps_all q ins \<and> \<not> drops_bytes (queue_run ins q) inp"
  by (induction ins arbitrary: q) (auto simp: queue_run_def)

lemma bytes_next: "queue_ok q \<Longrightarrow> queue_bytes (next_job q) = queue_bytes q"
  by (auto simp: next_job_def queue_bytes_def held_bytes_def job_bytes_def concat_bytes_def Let_def
      split: option.split list.split queue_job.split)

lemma bytes_decoded:
  assumes "queue_ok q"
  shows "subseq (queue_bytes (job_decoded now result q)) (queue_bytes q)"
    and "\<not> drops_bytes q (Aq_decoded now result) \<Longrightarrow> queue_bytes (job_decoded now result q) = queue_bytes q"
proof -
  have "subseq (heard_bytes (aq_started q) @ concat (map job_bytes (aq_chain q)))
      (heard_bytes (aq_started q) @ h @ concat (map job_bytes (aq_chain q)))" for h
    by (simp add: subseq_append' list_emb_append2)
  then show "subseq (queue_bytes (job_decoded now result q)) (queue_bytes q)"
    using assms
    by (auto simp: job_decoded_def queue_bytes_def held_bytes_def concat_bytes_def queue_ok_def Let_def split: option.split running_job.split)
  show "\<not> drops_bytes q (Aq_decoded now result) \<Longrightarrow> queue_bytes (job_decoded now result q) = queue_bytes q"
    using assms
    by (cases result) (auto simp: job_decoded_def queue_bytes_def held_bytes_def concat_bytes_def queue_ok_def Let_def
        split: option.splits running_job.splits if_splits)
qed

lemma bytes_stop: "subseq (queue_bytes (queue_stop q)) (queue_bytes q)"
  by (auto simp: queue_stop_def queue_bytes_def held_bytes_def concat_bytes_def subseq_append' list_emb_append2
      split: option.split running_job.split)

lemma bytes_step:
  assumes "queue_ok q"
  shows "subseq (queue_bytes (queue_step q inp)) (queue_bytes q @ pushed_bytes [inp])"
    and "\<not> drops_bytes q inp \<Longrightarrow> queue_bytes (queue_step q inp) = queue_bytes q @ pushed_bytes [inp]"
proof -
  have same: "queue_bytes (queue_step q inp) = queue_bytes q @ pushed_bytes [inp]"
    if "\<forall>now r. inp \<noteq> Aq_decoded now r" "inp \<noteq> Aq_stop" "inp \<noteq> Aq_close"
  proof (cases "inp = Aq_next")
    case True
    then show ?thesis using bytes_next [OF assms] by (simp add: pushed_bytes_def)
  next
    case False
    then show ?thesis using that
      by (cases inp) (auto simp: pushed_bytes_def queue_push_def queue_flush_def source_ended_def queue_resume_def
          queue_bytes_def held_bytes_def job_bytes_def split: option.split running_job.split)
  qed
  have close: "queue_bytes (queue_close q) = queue_bytes (queue_stop q)"
    by (simp add: queue_close_def queue_bytes_def held_bytes_def split: option.split running_job.split)
  show "subseq (queue_bytes (queue_step q inp)) (queue_bytes q @ pushed_bytes [inp])"
    using same bytes_decoded(1) [OF assms] bytes_stop close by (cases inp) (auto simp: pushed_bytes_def)
  show "\<not> drops_bytes q inp \<Longrightarrow> queue_bytes (queue_step q inp) = queue_bytes q @ pushed_bytes [inp]"
    using same bytes_decoded(2) [OF assms] by (cases inp) (auto simp: pushed_bytes_def)
qed

section \<open>The timeline of everything that was started\<close>

definition nobody_stops :: "queue_input \<Rightarrow> bool" where
  "nobody_stops inp \<longleftrightarrow> inp \<noteq> Aq_stop \<and> inp \<noteq> Aq_close"

lemma decoded_timeline:
  assumes "timeline (aq_started q) (aq_nextStartAt q)" and "\<And>d. result = Some d \<Longrightarrow> 0 \<le> d"
  shows "timeline (aq_started (job_decoded now result q)) (aq_nextStartAt (job_decoded now result q))"
    and "aq_sources q = aq_started q \<Longrightarrow> aq_sources (job_decoded now result q) = aq_started (job_decoded now result q)"
proof -
  have sched: "timeline (aq_started (queue_schedule now b q')) (aq_nextStartAt (queue_schedule now b q'))"
    if "timeline (aq_started q') (aq_nextStartAt q')" "0 \<le> ab_duration b" for b q'
  proof (rule schedule_spec [of now b q'])
    fix s
    assume s: "aq_started (queue_schedule now b q') = aq_started q' @ [s]" "aq_nextStartAt (queue_schedule now b q') = as_end s"
      "as_buffer s = b" "aq_nextStartAt q' \<le> as_start s"
    show ?thesis unfolding s(1,2) by (rule timeline_snoc) (use that s(3,4) in simp_all)
  qed
  have same: "aq_sources (queue_schedule now b q') = aq_started (queue_schedule now b q')" if "aq_sources q' = aq_started q'" for b q'
    by (rule schedule_spec [of now b q']) (use that in simp)
  show "timeline (aq_started (job_decoded now result q)) (aq_nextStartAt (job_decoded now result q))"
    using assms by (auto simp: job_decoded_def Let_def sched split: option.split running_job.split)
  show "aq_sources q = aq_started q \<Longrightarrow> aq_sources (job_decoded now result q) = aq_started (job_decoded now result q)"
    by (auto simp: job_decoded_def Let_def same split: option.split running_job.split)
qed

lemma step_timeline:
  assumes "timeline (aq_started q) (aq_nextStartAt q)" and "nobody_stops inp"
    and "\<And>now d. inp = Aq_decoded now (Some d) \<Longrightarrow> 0 \<le> d"
  shows "timeline (aq_started (queue_step q inp)) (aq_nextStartAt (queue_step q inp))"
    and "aq_sources q = aq_started q \<Longrightarrow> \<forall>k. inp \<noteq> Aq_ended k \<Longrightarrow> aq_sources (queue_step q inp) = aq_started (queue_step q inp)"
  using assms decoded_timeline [OF assms(1)]
  by (cases inp; auto simp: nobody_stops_def queue_push_def queue_flush_def source_ended_def queue_resume_def)+

section \<open>Property\<close>

lemma queue_run_snoc: "queue_run (ins @ [inp]) q = queue_step (queue_run ins q) inp"
  by (simp add: queue_run_def)

lemma pushed_bytes_snoc: "pushed_bytes (ins @ [inp]) = pushed_bytes ins @ pushed_bytes [inp]"
  by (simp add: pushed_bytes_def)

lemma queue_bytes_new: "queue_bytes (new_queue l) = []"
  by (simp add: queue_bytes_def held_bytes_def new_queue_def concat_bytes_def)

lemma queue_run_ok:
  assumes "lengths_ok ins"
  shows "queue_ok (queue_run ins (new_queue l))
     \<and> subseq (queue_bytes (queue_run ins (new_queue l))) (pushed_bytes ins)
     \<and> (keeps_all (new_queue l) ins \<longrightarrow> queue_bytes (queue_run ins (new_queue l)) = pushed_bytes ins)"
  using assms
proof (induction ins rule: rev_induct)
  case Nil
  then show ?case by (simp add: queue_run_def queue_ok_new queue_bytes_new pushed_bytes_def)
next
  case (snoc inp ins)
  let ?q = "queue_run ins (new_queue l)"
  have IH: "queue_ok ?q" "subseq (queue_bytes ?q) (pushed_bytes ins)"
    "keeps_all (new_queue l) ins \<longrightarrow> queue_bytes ?q = pushed_bytes ins"
    using snoc by (auto simp: lengths_ok_def)
  have "queue_ok (queue_step ?q inp)"
    using queue_ok_step [OF IH(1)] snoc.prems by (auto simp: lengths_ok_def)
  moreover have "subseq (queue_bytes (queue_step ?q inp)) (pushed_bytes ins @ pushed_bytes [inp])"
    using bytes_step(1) [OF IH(1)] IH(2) by (meson list_emb_append_mono subseq_order.order_refl subseq_order.order_trans)
  moreover have "keeps_all (new_queue l) (ins @ [inp]) \<Longrightarrow> queue_bytes (queue_step ?q inp) = pushed_bytes ins @ pushed_bytes [inp]"
    using bytes_step(2) [OF IH(1)] IH(3) by (simp add: keeps_all_snoc)
  ultimately show ?case unfolding queue_run_snoc pushed_bytes_snoc by blast
qed

lemma queue_run_timeline:
  assumes "lengths_ok ins" and "list_all nobody_stops ins"
  shows "timeline (aq_started (queue_run ins (new_queue l))) (aq_nextStartAt (queue_run ins (new_queue l)))
     \<and> ((\<forall>k. Aq_ended k \<notin> set ins) \<longrightarrow> aq_sources (queue_run ins (new_queue l)) = aq_started (queue_run ins (new_queue l)))"
  using assms
proof (induction ins rule: rev_induct)
  case Nil
  then show ?case by (simp add: queue_run_def new_queue_def)
next
  case (snoc inp ins)
  have ih: "timeline (aq_started (queue_run ins (new_queue l))) (aq_nextStartAt (queue_run ins (new_queue l)))"
    "(\<forall>k. Aq_ended k \<notin> set ins) \<longrightarrow> aq_sources (queue_run ins (new_queue l)) = aq_started (queue_run ins (new_queue l))"
    using snoc by (simp_all add: lengths_ok_def)
  have inp: "nobody_stops inp" "\<And>now d. inp = Aq_decoded now (Some d) \<Longrightarrow> 0 \<le> d"
    using snoc.prems by (auto simp: lengths_ok_def)
  show ?case unfolding queue_run_snoc using step_timeline [OF ih(1) inp] ih(2) by fastforce
qed

text \<open>
  C40: The voice plays in order and never over itself. Whatever is pushed, flushed, stopped or closed, and however the decoder
  answers: of the sources that are scheduled each starts when the one before has ended or later, and they are sources on which
  \<open>start\<close> was called; what the buffers of the started sources hold, in the order of the starts, is what was pushed, in its order
  and with no byte twice. No byte is lost unless the queue is stopped or closed, a flushed rest does not decode, or more than the
  cap is held: until then what was started, what is held and what waits are together exactly what was pushed. As long as nobody stops or closes it, all sources ever started
  follow one another on the clock, and none is forgotten before it has ended. And at most 512 KiB are held back for the rest of a frame.
\<close>

theorem voice_plays_in_order:
  assumes "lengths_ok ins"
  shows "let q = queue_run ins (new_queue l) in
     after_one_another (aq_sources q)
     \<and> subseq (aq_sources q) (aq_started q)
     \<and> subseq (heard_bytes (aq_started q)) (pushed_bytes ins)
     \<and> (keeps_all (new_queue l) ins \<longrightarrow>
          heard_bytes (aq_started q) @ held_bytes q @ concat (map job_bytes (aq_chain q)) = pushed_bytes ins)
     \<and> (list_all nobody_stops ins \<longrightarrow> after_one_another (aq_started q))
     \<and> (list_all nobody_stops ins \<and> (\<forall>k. Aq_ended k \<notin> set ins) \<longrightarrow> aq_sources q = aq_started q)
     \<and> length (concat_bytes (aq_pending q) []) \<le> 512 * 1024"
proof -
  define q where "q = queue_run ins (new_queue l)"
  have all: "queue_ok q" "subseq (queue_bytes q) (pushed_bytes ins)" "keeps_all (new_queue l) ins \<longrightarrow> queue_bytes q = pushed_bytes ins"
    using queue_run_ok [OF assms, of l] by (simp_all add: q_def)
  have line: "list_all nobody_stops ins \<longrightarrow> after_one_another (aq_started q)"
    "list_all nobody_stops ins \<and> (\<forall>k. Aq_ended k \<notin> set ins) \<longrightarrow> aq_sources q = aq_started q"
    using queue_run_timeline [OF assms, of l] by (simp_all add: q_def timeline_def)
  have "subseq (heard_bytes (aq_started q)) (pushed_bytes ins)"
    using subseq_order.order_trans [OF _ all(2)] prefix_imp_subseq [of "heard_bytes (aq_started q)" "queue_bytes q"] by (simp add: queue_bytes_def)
  then show ?thesis using all(1,3) line unfolding Let_def q_def [symmetric]
    by (simp add: queue_ok_def timeline_def queue_bytes_def MAX_PENDING_BYTES_def)
qed

text \<open>Two blocks, the second decoded while the first one plays: they join without a gap.\<close>

definition demo_voice :: "queue_input list" where
  "demo_voice = [Aq_push [1, 2], Aq_push [3], Aq_next, Aq_decoded 0 (Some 2), Aq_next, Aq_decoded 1 (Some 3), Aq_push [4]]"

theorem voice_plays_in_order_witness:
  "map as_start (aq_started (queue_run demo_voice (new_queue None))) = [2 / 25, 2 + 2 / 25]
   \<and> after_one_another (aq_started (queue_run demo_voice (new_queue None)))
   \<and> aq_sources (queue_run demo_voice (new_queue None)) = aq_started (queue_run demo_voice (new_queue None))
   \<and> heard_bytes (aq_started (queue_run demo_voice (new_queue None))) @ [4] = [1, 2, 3, 4]"
proof -
  have ok: "lengths_ok demo_voice" by (auto simp: lengths_ok_def demo_voice_def)
  have none: "keeps_all (new_queue None) demo_voice" "list_all nobody_stops demo_voice" "\<forall>k. Aq_ended k \<notin> set demo_voice"
    by (code_simp, simp_all add: demo_voice_def nobody_stops_def)
  have vals: "map as_start (aq_started (queue_run demo_voice (new_queue None))) = [2 / 25, 2 + 2 / 25]"
    "held_bytes (queue_run demo_voice (new_queue None)) = []" "map job_bytes (aq_chain (queue_run demo_voice (new_queue None))) = [[4]]"
    "pushed_bytes demo_voice = [1, 2, 3, 4]"
    by code_simp+
  show ?thesis using voice_plays_in_order [OF ok, of None] none vals by (simp add: Let_def)
qed

section \<open>Speech after the end\<close>

text \<open>
  Closing does not end the chain. A block that is being decoded when the queue is closed is scheduled afterwards, in a new
  audio context that nobody closes; and a stop, which is to drop everything not yet heard, leaves the waiting blocks to play.
\<close>

lemma speaks_after_close:
  "(let q = queue_run [Aq_push [1], Aq_next, Aq_close, Aq_decoded 0 (Some 1)] (new_queue None)
    in aq_ctx q = Some 1 \<and> aq_contexts q = 2 \<and> map as_context (aq_sources q) = [1])"
  "(let q = queue_run [Aq_push [1], Aq_stop, Aq_next, Aq_decoded 0 (Some 1)] (new_queue None) in length (aq_sources q) = 1)"
  by code_simp+

end
