(* ===== verification/Web_Store.thy ===== *)
theory Web_Store
  imports Ledger_Gateway Contracts Paddle
begin

text \<open>
  What the routes of the web application share: the tables of \<open>packages/db/src/schema.ts\<close> that they read and write, the keys
  of \<open>apps/web/lib/server/redis.ts\<close>, answers (\<open>lib/server/http.ts\<close>), addresses (\<open>lib/server/ip.ts\<close>) and the audit trail
  (\<open>lib/server/audit.ts\<close>). A statement of SQL, a Redis command or a Lua script in the source is translated where it stands;
  a table is the list of its rows in the order of insertion. Times are in milliseconds, and a request reads the clock once.
\<close>

section \<open>Tables\<close>

record user_row =
  us_id :: string
  us_email :: string
  us_emailVerifiedAt :: "int option"
  us_passwordHash :: "string option"
  us_totpSecretEnc :: "string option"
  us_role :: string
  us_planCode :: string
  us_trialGrantedAt :: "int option"
  us_deletedAt :: "int option"

record auth_row =
  au_id :: string
  au_userId :: string
  au_expiresAt :: int
  au_ipHash :: string
  au_family :: string

record subscription_row =
  sb_userId :: string
  sb_paddleId :: string
  sb_planCode :: string
  sb_status :: sub_status
  sb_currentPeriodEnd :: "int option"
  sb_canceledAt :: "int option"

record consent_row =
  co_userId :: string
  co_kind :: string
  co_version :: string
  co_granted :: bool
  co_ipHash :: string

record audit_row =
  ad_actor :: "string option"
  ad_action :: string
  ad_target :: string
  ad_ipHash :: "string option"

record started_row =
  st_id :: string
  st_userId :: string
  st_srcLang :: string
  st_dstLangs :: "string list"
  st_voiceEnabled :: bool
  st_voiceId :: "string option"
  st_tokenHash :: string
  st_burnRate :: jsnum
  st_startedAt :: int
  st_endedAt :: "int option"

record glossary_row =
  gl_id :: string
  gl_userId :: string
  gl_name :: jstring
  gl_terms :: "jstring list"
  gl_version :: nat
  gl_updatedAt :: int

text \<open>A mail: the address, what it is about and the token in its link. No transport is wired: a mail ends as a line of the log,
  with its text only in development.\<close>

datatype mail_subject = Mail_verify | Mail_reset | Mail_password_changed | Mail_deleted

record mail =
  ml_to :: string
  ml_subject :: mail_subject
  ml_token :: "string option"

datatype mail_log =
  Mail_dropped_no_transport string mail_subject
| Mail_dev_preview mail
| Mail_transport_not_wired string mail_subject

text \<open>The two stores. \<open>rd_strings\<close> holds values with the time at which they expire, \<open>rd_sorted\<close> the sorted sets of the rate
  limiter as scores and members, \<open>rd_slots\<close> the counters of concurrent sessions. \<open>wb_mail\<close> is what \<open>mail.ts\<close> logged.\<close>

record web =
  wb_users :: "user_row list"
  wb_auth :: "auth_row list"
  wb_ledger :: "ledger_entry list"
  wb_subscriptions :: "subscription_row list"
  wb_balances :: "(string, balances_row) jsmap"
  wb_consents :: "consent_row list"
  wb_audit :: "audit_row list"
  wb_sessions :: "started_row list"
  wb_glossaries :: "glossary_row list"
  wb_profiles :: "string list"
  rd_strings :: "(string, string \<times> int) jsmap"
  rd_sorted :: "(string, (int \<times> string) list \<times> int) jsmap"
  rd_slots :: "(string, int \<times> int) jsmap"
  wb_mail :: "mail_log list"

definition empty_web :: web where
  "empty_web =
     \<lparr>wb_users = [], wb_auth = [], wb_ledger = [], wb_subscriptions = [], wb_balances = [], wb_consents = [], wb_audit = [],
      wb_sessions = [], wb_glossaries = [], wb_profiles = [], rd_strings = [], rd_sorted = [], rd_slots = [], wb_mail = []\<rparr>"

section \<open>Redis keys\<close>

definition rateLimit_key :: "string \<Rightarrow> string \<Rightarrow> string" where
  "rateLimit_key scope k = ''rl:'' @ scope @ '':'' @ k"

definition concurrency_key :: "string \<Rightarrow> string" where
  "concurrency_key userId = ''conc:'' @ userId"

definition emailVerification_key :: "string \<Rightarrow> string" where
  "emailVerification_key h = ''evt:'' @ h"

definition passwordReset_key :: "string \<Rightarrow> string" where
  "passwordReset_key h = ''pwr:'' @ h"

text \<open>\<open>SET key value EX seconds\<close> and \<open>GETDEL key\<close>.\<close>

definition set_ex :: "int \<Rightarrow> string \<Rightarrow> string \<Rightarrow> int \<Rightarrow> web \<Rightarrow> web" where
  "set_ex now k v seconds w = w\<lparr>rd_strings := map_set k (v, now + seconds * 1000) (rd_strings w)\<rparr>"

definition getdel :: "int \<Rightarrow> string \<Rightarrow> web \<Rightarrow> string option \<times> web" where
  "getdel now k w =
     (case map_of (rd_strings w) k of
        None \<Rightarrow> (None, w)
      | Some (v, expires) \<Rightarrow> (if now < expires then Some v else None, w\<lparr>rd_strings := map_delete k (rd_strings w)\<rparr>))"

section \<open>Requests and answers\<close>

text \<open>What a request brings besides its body: headers, the raw session cookie, the clock and the random values that are drawn
  while it is served: a token, an id for a new row.\<close>

record request =
  rq_now :: int
  rq_header :: "string \<Rightarrow> string option"
  rq_cookie :: "string option"
  rq_random :: string
  rq_token :: string
  rq_id :: "nat \<Rightarrow> string"

text \<open>An answer: the status, an error code or a body, and what is done to the session cookie. The Polish message of an error
  is left out. \<open>fail\<close> makes \<open>Inl\<close>.\<close>

datatype cookie_change = Cookie_keep | Cookie_set string | Cookie_clear

type_synonym 'b answer = "nat \<times> (string + 'b)"

definition fail_with :: "nat \<Rightarrow> string \<Rightarrow> 'b answer" where
  "fail_with status code = (status, Inl code)"

definition respond :: "nat \<Rightarrow> 'b \<Rightarrow> 'b answer" where
  "respond status body = (status, Inr body)"

section \<open>Addresses\<close>

definition clientIp_of :: "(string \<Rightarrow> string option) \<Rightarrow> string" where
  "clientIp_of header =
     (let real = (case header ''x-real-ip'' of None \<Rightarrow> ''unknown'' | Some r \<Rightarrow> ascii_trim r)
      in if truthy (header ''x-forwarded-for'') then
           (let first = ascii_trim (hd (split_on (CHR '','') (the (header ''x-forwarded-for''))))
            in if first \<noteq> [] then first else real)
         else real)"

definition hashIp :: "(string \<Rightarrow> string) \<Rightarrow> string \<Rightarrow> string \<Rightarrow> string" where
  "hashIp sha256 salt ip = take 32 (sha256 (salt @ '':'' @ ip))"

fun has_infix :: "string \<Rightarrow> string \<Rightarrow> bool" where
  "has_infix p [] = (p = [])"
| "has_infix p (c # s) = (take (length p) (c # s) = p \<or> has_infix p s)"

definition userAgentFamily :: "(string \<Rightarrow> string option) \<Rightarrow> string" where
  "userAgentFamily header =
     (let ua = ascii_lower (case header ''user-agent'' of None \<Rightarrow> [] | Some u \<Rightarrow> u)
      in if has_infix ''edg/'' ua then ''edge''
         else if has_infix ''opr/'' ua then ''opera''
         else if has_infix ''chrome/'' ua then ''chrome''
         else if has_infix ''firefox/'' ua then ''firefox''
         else if has_infix ''safari/'' ua then ''safari''
         else ''other'')"

section \<open>Shared statements\<close>

text \<open>The libraries and constants of the deployment: digests, the salt of addresses, argon2 (the first argument is its
  salt), the answer of the range service of breached passwords (\<open>None\<close>: no answer in time or an error), \<open>Number\<close> and the schema's
  e-mail test.\<close>

record web_env =
  we_sha256 :: "string \<Rightarrow> string"
  we_salt :: string
  we_argon_hash :: "string \<Rightarrow> jstring \<Rightarrow> string"
  we_argon_verify :: "string \<Rightarrow> jstring \<Rightarrow> bool"
  we_sha1 :: "jstring \<Rightarrow> string"
  we_pwned :: "string \<Rightarrow> string option"
  we_number :: "string \<Rightarrow> rat option"
  we_is_email :: "string \<Rightarrow> bool"
  we_is_uuid :: "string \<Rightarrow> bool"
  we_smtp_url :: "string option"
  we_production :: bool

definition clientIpHash :: "web_env \<Rightarrow> request \<Rightarrow> string" where
  "clientIpHash e rq = hashIp (we_sha256 e) (we_salt e) (clientIp_of (rq_header rq))"

text \<open>The audit row is written or, when the insert fails, left out: nothing depends on it.\<close>

definition recordAudit :: "string option \<Rightarrow> string \<Rightarrow> string \<Rightarrow> string option \<Rightarrow> web \<Rightarrow> web" where
  "recordAudit actor action target ipHash w =
     w\<lparr>wb_audit := wb_audit w @ [\<lparr>ad_actor = actor, ad_action = action, ad_target = target, ad_ipHash = ipHash\<rparr>]\<rparr>"

definition maskEmail :: "string \<Rightarrow> string" where
  "maskEmail email =
     (if CHR ''@'' \<notin> set email then ''invalid'' else ''***@'' @ rev (takeWhile (\<lambda>c. c \<noteq> CHR ''@'') (rev email)))"

definition mail_line :: "web_env \<Rightarrow> mail \<Rightarrow> mail_log" where
  "mail_line e msg =
     (if \<not> truthy (we_smtp_url e) then
        (if we_production e then Mail_dropped_no_transport (maskEmail (ml_to msg)) (ml_subject msg) else Mail_dev_preview msg)
      else Mail_transport_not_wired (maskEmail (ml_to msg)) (ml_subject msg))"

definition sendMail :: "web_env \<Rightarrow> string \<Rightarrow> mail_subject \<Rightarrow> string option \<Rightarrow> web \<Rightarrow> web" where
  "sendMail e addr subject token w =
     w\<lparr>wb_mail := wb_mail w @ [mail_line e \<lparr>ml_to = addr, ml_subject = subject, ml_token = token\<rparr>]\<rparr>"

definition user_by_id :: "web \<Rightarrow> string \<Rightarrow> user_row option" where
  "user_by_id w i = find (\<lambda>u. us_id u = i) (wb_users w)"

text \<open>\<open>where lower(email) = ...\<close>\<close>

definition user_by_email :: "web \<Rightarrow> string \<Rightarrow> user_row option" where
  "user_by_email w email = find (\<lambda>u. ascii_lower (us_email u) = email) (wb_users w)"

definition update_user :: "string \<Rightarrow> (user_row \<Rightarrow> user_row) \<Rightarrow> web \<Rightarrow> web" where
  "update_user i f w = w\<lparr>wb_users := map (\<lambda>u. if us_id u = i then f u else u) (wb_users w)\<rparr>"

text \<open>\<open>insert ... on conflict do nothing\<close> into the ledger: the unique index over \<open>idempotency_key\<close>, in which nulls are
  distinct.\<close>

definition ledger_insert :: "ledger_entry \<Rightarrow> web \<Rightarrow> bool \<times> web" where
  "ledger_insert entry w =
     (if idempotencyKey entry \<noteq> None \<and> idempotencyKey entry \<in> set (map idempotencyKey (wb_ledger w)) then (False, w)
      else (True, w\<lparr>wb_ledger := wb_ledger w @ [entry]\<rparr>))"

definition ledger_keys :: "web \<Rightarrow> string list" where
  "ledger_keys w = List.map_filter idempotencyKey (wb_ledger w)"

lemma ledger_insert_keys: "distinct (ledger_keys w) \<Longrightarrow> distinct (ledger_keys (snd (ledger_insert entry w)))"
  by (auto simp: ledger_insert_def ledger_keys_def List.map_filter_def image_iff)

end
