(* ===== verification/Web_Limits.thy ===== *)
theory Web_Limits
  imports Web_Store
begin

text \<open>
  The two gates in Redis: the sliding window of \<open>apps/web/lib/auth/rate-limit.ts\<close> and the slots for concurrent sessions of
  \<open>apps/web/lib/server/redis.ts\<close>. Both are Lua scripts, which Redis runs without interruption.
\<close>

section \<open>The rate limiter\<close>

datatype rate_limit_name = Limit_login | Limit_register | Limit_passwordReset | Limit_sessionStart | Limit_relayHandshake | Limit_audioFrames

text \<open>Name, limit and window in seconds.\<close>

definition RATE_LIMITS :: "rate_limit_name \<Rightarrow> string \<times> nat \<times> int" where
  "RATE_LIMITS n =
     (case n of
        Limit_login \<Rightarrow> (''login'', 10, 10 * 60)
      | Limit_register \<Rightarrow> (''register'', 5, 60 * 60)
      | Limit_passwordReset \<Rightarrow> (''passwordReset'', 3, 60 * 60)
      | Limit_sessionStart \<Rightarrow> (''sessionStart'', 20, 60 * 60)
      | Limit_relayHandshake \<Rightarrow> (''relayHandshake'', 30, 60)
      | Limit_audioFrames \<Rightarrow> (''audioFrames'', 60, 1))"

record rate_limit_result =
  rr_allowed :: bool
  rr_remaining :: int
  rr_retryAfterSeconds :: int

text \<open>A sorted set with the time at which the key expires. \<open>ZADD\<close> of a member that is there changes its score.\<close>

type_synonym sorted_set = "(int \<times> string) list \<times> int"

definition live_members :: "int \<Rightarrow> sorted_set option \<Rightarrow> (int \<times> string) list" where
  "live_members now z = (case z of None \<Rightarrow> [] | Some (ms, expires) \<Rightarrow> if now < expires then ms else [])"

definition zadd :: "int \<Rightarrow> string \<Rightarrow> (int \<times> string) list \<Rightarrow> (int \<times> string) list" where
  "zadd score member ms = filter (\<lambda>p. snd p \<noteq> member) ms @ [(score, member)]"

text \<open>The script \<open>SLIDING_WINDOW\<close>: its three numbers and the key afterwards. A key whose last member is removed is gone.\<close>

definition sliding_window :: "int \<Rightarrow> int \<Rightarrow> nat \<Rightarrow> string \<Rightarrow> sorted_set option \<Rightarrow> (nat \<times> int \<times> int) \<times> sorted_set option" where
  "sliding_window now window limit member z =
     (let ms = filter (\<lambda>(score, m). \<not> (0 \<le> score \<and> score \<le> now - window)) (live_members now z);
          used = length ms
      in if used \<ge> limit then
           let retry = (case ms of [] \<Rightarrow> window | _ \<Rightarrow> Min (fst ` set ms) + window - now)
           in ((0, 0, retry), if ms = [] then None else Some (ms, snd (the z)))
         else ((1, int limit - int used - 1, 0), Some (zadd now member ms, now + window)))"

definition ceil_seconds :: "int \<Rightarrow> int" where
  "ceil_seconds ms = (ms + 999) div 1000"

text \<open>The clock is read twice in the source, once for the score and once for the name of the member.\<close>

definition consumeRateLimit :: "rate_limit_name \<Rightarrow> string \<Rightarrow> int \<Rightarrow> string \<Rightarrow> web \<Rightarrow> rate_limit_result \<times> web" where
  "consumeRateLimit n k now member w =
     (case RATE_LIMITS n of
        (scope, limit, seconds) \<Rightarrow>
          let key = rateLimit_key scope k
          in (case sliding_window now (seconds * 1000) limit member (map_of (rd_sorted w) key) of
                ((a, remaining, retry), z) \<Rightarrow>
                  (\<lparr>rr_allowed = (a = 1), rr_remaining = remaining, rr_retryAfterSeconds = max 1 (ceil_seconds retry)\<rparr>,
                   w\<lparr>rd_sorted := (case z of None \<Rightarrow> map_delete key (rd_sorted w) | Some s \<Rightarrow> map_set key s (rd_sorted w))\<rparr>)))"

section \<open>Slots\<close>

definition CONCURRENCY_SLOT_TTL_SECONDS :: int where
  "CONCURRENCY_SLOT_TTL_SECONDS = 6 * 60 * 60"

definition slots_taken :: "int \<Rightarrow> (int \<times> int) option \<Rightarrow> int" where
  "slots_taken now c = (case c of None \<Rightarrow> 0 | Some (n, expires) \<Rightarrow> if now < expires then n else 0)"

definition acquireConcurrencySlot :: "string \<Rightarrow> int \<Rightarrow> int \<Rightarrow> web \<Rightarrow> int option \<times> web" where
  "acquireConcurrencySlot userId limit now w =
     (let key = concurrency_key userId;
          current = slots_taken now (map_of (rd_slots w) key)
      in if current \<ge> limit then (None, w)
         else (Some (current + 1),
               w\<lparr>rd_slots := map_set key (current + 1, now + CONCURRENCY_SLOT_TTL_SECONDS * 1000) (rd_slots w)\<rparr>))"

text \<open>\<open>DECR\<close> makes a missing counter \<open>-1\<close>; a counter that is not positive is deleted.\<close>

definition releaseConcurrencySlot :: "string \<Rightarrow> int \<Rightarrow> web \<Rightarrow> web" where
  "releaseConcurrencySlot userId now w =
     (let key = concurrency_key userId;
          left = slots_taken now (map_of (rd_slots w) key) - 1
      in if left \<le> 0 then w\<lparr>rd_slots := map_delete key (rd_slots w)\<rparr>
         else w\<lparr>rd_slots := map_set key (left, snd (the (map_of (rd_slots w) key))) (rd_slots w)\<rparr>)"

section \<open>The window slides\<close>

text \<open>Calls with time, key and member, against one rule: what the limiter answers, and what a full list of everything it
  ever admitted would.\<close>

fun windows_run :: "int \<Rightarrow> nat \<Rightarrow> (int \<times> string \<times> string) list \<Rightarrow> (string \<Rightarrow> sorted_set option) \<Rightarrow> bool list" where
  "windows_run window limit [] zs = []"
| "windows_run window limit ((now, k, m) # calls) zs =
     (case sliding_window now window limit m (zs k) of
        ((a, remaining, retry), z) \<Rightarrow> (a = 1) # windows_run window limit calls (zs(k := z)))"

definition admitted_lately :: "int \<Rightarrow> int \<Rightarrow> string \<Rightarrow> (int \<times> string) list \<Rightarrow> nat" where
  "admitted_lately window now k adm = length (filter (\<lambda>(t, c). c = k \<and> now - window < t) adm)"

fun admissions :: "int \<Rightarrow> nat \<Rightarrow> (int \<times> string \<times> string) list \<Rightarrow> (int \<times> string) list \<Rightarrow> bool list" where
  "admissions window limit [] adm = []"
| "admissions window limit ((now, k, m) # calls) adm =
     (if admitted_lately window now k adm < limit then True # admissions window limit calls (adm @ [(now, k)])
      else False # admissions window limit calls adm)"

text \<open>What the sorted set of a key still holds at \<open>now\<close> are the admissions of its window.\<close>

definition holds_window :: "int \<Rightarrow> int \<Rightarrow> (int \<times> string) list \<Rightarrow> (string \<Rightarrow> sorted_set option) \<Rightarrow> bool" where
  "holds_window window now adm zs \<longleftrightarrow>
     (\<forall>p \<in> set adm. fst p \<le> now)
     \<and> (\<forall>k t. now \<le> t \<longrightarrow>
        map fst (filter (\<lambda>(score, m). t - window < score) (live_members t (zs k)))
          = map fst (filter (\<lambda>(s, c). c = k \<and> t - window < s) adm))"

definition members_of :: "sorted_set option \<Rightarrow> string set" where
  "members_of z = (case z of None \<Rightarrow> {} | Some (ms, x) \<Rightarrow> snd ` set ms)"

definition scores_ok :: "int \<Rightarrow> sorted_set option \<Rightarrow> bool" where
  "scores_ok now z \<longleftrightarrow> (case z of None \<Rightarrow> True | Some (ms, x) \<Rightarrow> \<forall>p \<in> set ms. 0 \<le> fst p \<and> fst p \<le> now)"

definition window_scores :: "int \<Rightarrow> int \<Rightarrow> string \<Rightarrow> (int \<times> string) list \<Rightarrow> int list" where
  "window_scores window t k adm = map fst (filter (\<lambda>(s, c). c = k \<and> t - window < s) adm)"

lemma holds_windowD:
  "holds_window window now adm zs \<Longrightarrow> now \<le> t \<Longrightarrow>
     map fst (filter (\<lambda>(score, m). t - window < score) (live_members t (zs k))) = window_scores window t k adm"
  by (simp add: holds_window_def window_scores_def)

text \<open>A later window of the same scores.\<close>

lemma later_window:
  assumes "map fst ms = window_scores window t k adm" and "t \<le> t'"
  shows "map fst (filter (\<lambda>(score, m). t' - window < score) ms) = window_scores window t' k adm"
proof -
  have "map fst (filter (\<lambda>(score, m). t' - window < score) ms) = filter (\<lambda>s. t' - window < s) (map fst ms)"
    by (simp add: filter_map comp_def case_prod_unfold)
  also have "\<dots> = map fst (filter (\<lambda>p. t' - window < fst p) (filter (\<lambda>(s, c). c = k \<and> t - window < s) adm))"
    unfolding assms(1) window_scores_def by (simp add: filter_map comp_def)
  also have "\<dots> = window_scores window t' k adm"
    using assms(2) by (auto simp: window_scores_def intro!: arg_cong [where f = "map fst"] filter_cong)
  finally show ?thesis .
qed

lemma sliding_window_step:
  assumes "holds_window window now adm zs" and "\<forall>k. scores_ok now (zs k)" and "now \<le> t" and "0 \<le> t" and "0 < window"
    and "m \<notin> members_of (zs k)" and "sliding_window t window limit m (zs k) = ((a, remaining, retry), z)"
  shows "a = 1 \<longleftrightarrow> admitted_lately window t k adm < limit"
    and "holds_window window t (if a = 1 then adm @ [(t, k)] else adm) (zs(k := z))"
    and "\<forall>j. scores_ok t ((zs(k := z)) j)"
    and "members_of z \<subseteq> insert m (members_of (zs k))"
proof -
  define M where M: "M = filter (\<lambda>(score, m). \<not> (0 \<le> score \<and> score \<le> t - window)) (live_members t (zs k))"
  have live: "p \<in> set (live_members u (zs k)) \<Longrightarrow> 0 \<le> fst p \<and> fst p \<le> now \<and> snd p \<in> members_of (zs k)" for p u
    using spec [OF assms(2), of k]
    by (cases "zs k") (auto simp: scores_ok_def live_members_def members_of_def split: prod.splits if_splits)
  have ms: "M = filter (\<lambda>(score, m). t - window < score) (live_members t (zs k))"
    using live unfolding M by (intro filter_cong) force+
  have scores: "map fst M = window_scores window t k adm" unfolding ms using holds_windowD [OF assms(1,3)] .
  have len: "length M = admitted_lately window t k adm"
    using arg_cong [OF scores, of length] by (simp add: window_scores_def admitted_lately_def)
  have in_ms: "p \<in> set M \<Longrightarrow> 0 \<le> fst p \<and> fst p \<le> t \<and> snd p \<in> members_of (zs k)" for p
    using live [of p t] assms(3) by (auto simp: M)
  have fresh: "zadd t m M = M @ [(t, m)]"
  proof -
    have "filter (\<lambda>p. snd p \<noteq> m) M = M" by (rule filter_True) (use in_ms assms(6) in blast)
    then show ?thesis by (simp only: zadd_def)
  qed
  have sw: "sliding_window t window limit m (zs k) =
      (if limit \<le> length M
       then ((0, 0, case M of [] \<Rightarrow> window | _ \<Rightarrow> Min (fst ` set M) + window - t), if M = [] then None else Some (M, snd (the (zs k))))
       else ((1, int limit - int (length M) - 1, 0), Some (zadd t m M, t + window)))"
    by (simp only: sliding_window_def Let_def M)
  show a: "a = 1 \<longleftrightarrow> admitted_lately window t k adm < limit"
    using assms(7) len unfolding sw by (simp split: if_splits)
  have z: "z = (if a = 1 then Some (M @ [(t, m)], t + window) else if M = [] then None else Some (M, snd (the (zs k))))"
    using assms(7) unfolding sw fresh by (auto split: if_splits)
  show "\<forall>j. scores_ok t ((zs(k := z)) j)"
    using assms(2,3,4) in_ms unfolding z by (fastforce simp: scores_ok_def split: option.splits prod.splits)
  show "members_of z \<subseteq> insert m (members_of (zs k))"
    unfolding z using in_ms by (auto simp: members_of_def)
  have times: "fst p \<le> t" if "p \<in> set adm" for p using assms(1,3) that by (force simp: holds_window_def)
  have here: "map fst (filter (\<lambda>(score, m). t' - window < score) (live_members t' z))
      = window_scores window t' k (if a = 1 then adm @ [(t, k)] else adm)" if "t \<le> t'" for t'
  proof (cases "a = 1")
    case True
    have none: "window_scores window t' k adm = []" if "t + window \<le> t'"
      using times that by (force simp: window_scores_def filter_empty_conv)
    show ?thesis using True later_window [OF scores \<open>t \<le> t'\<close>] none
      by (auto simp: z live_members_def window_scores_def)
  next
    case False
    show ?thesis
    proof (cases "t' < snd (the (zs k)) \<or> M = []")
      case True
      then show ?thesis using False later_window [OF scores \<open>t \<le> t'\<close>] by (auto simp: z live_members_def)
    next
      case late: False
      then have "live_members t' (zs k) = []" by (auto simp: live_members_def split: option.split)
      then have "window_scores window t' k adm = []"
        using holds_windowD [OF assms(1), of t' k] assms(3) that by simp
      then show ?thesis using False late by (simp add: z live_members_def)
    qed
  qed
  have other: "map fst (filter (\<lambda>(score, m). t' - window < score) (live_members t' (zs j)))
      = window_scores window t' j (if a = 1 then adm @ [(t, k)] else adm)" if "t \<le> t'" "j \<noteq> k" for t' j
    using holds_windowD [OF assms(1), of t' j] assms(3) that by (simp add: window_scores_def)
  show "holds_window window t (if a = 1 then adm @ [(t, k)] else adm) (zs(k := z))"
    unfolding holds_window_def using here other times by (auto simp: window_scores_def)
qed

lemma windows_run_admissions:
  "holds_window window now adm zs \<Longrightarrow> \<forall>k. scores_ok now (zs k) \<Longrightarrow> 0 \<le> now \<Longrightarrow> sorted (now # map fst calls) \<Longrightarrow> 0 < window \<Longrightarrow>
     distinct (map (\<lambda>(t, k, m). m) calls) \<Longrightarrow> \<forall>(t, k, m) \<in> set calls. \<forall>j. m \<notin> members_of (zs j) \<Longrightarrow>
     windows_run window limit calls zs = admissions window limit calls adm"
proof (induction window limit calls zs arbitrary: now adm rule: windows_run.induct)
  case (2 window limit t k m calls zs)
  obtain a remaining retry z where sw: "sliding_window t window limit m (zs k) = ((a, remaining, retry), z)"
    by (metis prod.exhaust)
  have t: "now \<le> t" "0 \<le> t" using "2.prems"(3,4) by auto
  have m: "m \<notin> members_of (zs k)" using "2.prems"(7) by auto
  note step = sliding_window_step [OF "2.prems"(1,2) t "2.prems"(5) m sw]
  have srt: "sorted (t # map fst calls)" using "2.prems"(4) by simp
  have dis: "distinct (map (\<lambda>(t, k, m). m) calls)" using "2.prems"(6) by simp
  have "m' \<notin> members_of ((zs(k := z)) j)" if "(t', k', m') \<in> set calls" for t' k' m' j
  proof -
    have "m' \<in> set (map (\<lambda>(t, k, m). m) calls)" using that by force
    moreover have "m \<notin> set (map (\<lambda>(t, k, m). m) calls)" using "2.prems"(6) by simp
    ultimately have "m' \<noteq> m" by blast
    moreover have "m' \<notin> members_of (zs i)" for i using "2.prems"(7) that by force
    ultimately show ?thesis using step(4) by (cases "j = k") auto
  qed
  then have new: "\<forall>(t', k', m') \<in> set calls. \<forall>j. m' \<notin> members_of ((zs(k := z)) j)" by blast
  have "windows_run window limit calls (zs(k := z)) = admissions window limit calls (if a = 1 then adm @ [(t, k)] else adm)"
    using "2.IH" [OF sw [symmetric] refl refl step(2,3) t(2) srt "2.prems"(5) dis new] .
  then show ?case using step(1) by (simp add: sw)
qed simp

text \<open>
  The rate limiter of the web application is the same sliding window as the relay's: for calls in the order of time
  with distinct members, the script admits a call exactly when fewer than the limit were admitted for its key in the window before it.
\<close>

lemma rate_limit_is_a_sliding_window:
  assumes "sorted (map fst calls)" and "\<forall>(t, k, m) \<in> set calls. 0 \<le> t" and "0 < window" and "distinct (map (\<lambda>(t, k, m). m) calls)"
  shows "windows_run window limit calls (\<lambda>k. None) = admissions window limit calls []"
proof (cases calls)
  case Nil
  then show ?thesis by simp
next
  case (Cons c rest)
  have "sorted (fst c # map fst calls)" using assms(1) Cons by simp
  moreover have "0 \<le> fst c" using assms(2) Cons by auto
  moreover have "holds_window window (fst c) [] (\<lambda>k. None)" by (simp add: holds_window_def live_members_def)
  ultimately show ?thesis
    using windows_run_admissions [of window "fst c" "[]" "\<lambda>k. None" calls limit] assms(3,4) by (simp add: scores_ok_def members_of_def split_beta)
qed

section \<open>Slots come back\<close>

lemma acquire_then_release:
  assumes "acquireConcurrencySlot u limit now w = (Some n, w')" and "1 < n"
  shows "slots_taken now (map_of (rd_slots (releaseConcurrencySlot u now w')) (concurrency_key u))
     = slots_taken now (map_of (rd_slots w) (concurrency_key u))"
  using assms
  by (auto simp: acquireConcurrencySlot_def releaseConcurrencySlot_def Let_def slots_taken_def CONCURRENCY_SLOT_TTL_SECONDS_def
      split: if_splits)

end
