(* ===== verification/Web_Auth.thy ===== *)
theory Web_Auth
  imports Web_Limits
begin

text \<open>
  Accounts: the tokens, passwords and cookies of \<open>apps/web/lib/auth\<close> and the routes under \<open>apps/web/app/api/auth\<close>. A route is a
  function of the request, its body and the store; its answer is a status with an error code or a body, and a change of the
  session cookie. One request is served at a time, and the clock does not move while it is.
\<close>

section \<open>tokens.ts\<close>

definition VERIFICATION_TTL_SECONDS :: int where
  "VERIFICATION_TTL_SECONDS = 24 * 60 * 60"

definition RESET_TTL_SECONDS :: int where
  "RESET_TTL_SECONDS = 15 * 60"

definition issueEmailVerificationToken :: "web_env \<Rightarrow> int \<Rightarrow> string \<Rightarrow> string \<Rightarrow> web \<Rightarrow> web" where
  "issueEmailVerificationToken e now token userId w =
     set_ex now (emailVerification_key (we_sha256 e token)) userId VERIFICATION_TTL_SECONDS w"

definition consumeEmailVerificationToken :: "web_env \<Rightarrow> int \<Rightarrow> string \<Rightarrow> web \<Rightarrow> string option \<times> web" where
  "consumeEmailVerificationToken e now token w = getdel now (emailVerification_key (we_sha256 e token)) w"

definition issuePasswordResetToken :: "web_env \<Rightarrow> int \<Rightarrow> string \<Rightarrow> string \<Rightarrow> string \<Rightarrow> web \<Rightarrow> web" where
  "issuePasswordResetToken e now token userId family w =
     set_ex now (passwordReset_key (we_sha256 e token)) (userId @ '':'' @ family) RESET_TTL_SECONDS w"

text \<open>Before and after the last colon; without one, \<open>lastIndexOf\<close> is -1 and \<open>slice(0, -1)\<close> leaves out the last character.\<close>

definition last_colon :: "string \<Rightarrow> string \<times> string" where
  "last_colon s =
     (if CHR '':'' \<notin> set s then (butlast s, s)
      else (rev (tl (dropWhile (\<lambda>c. c \<noteq> CHR '':'') (rev s))), rev (takeWhile (\<lambda>c. c \<noteq> CHR '':'') (rev s))))"

definition consumePasswordResetToken :: "web_env \<Rightarrow> int \<Rightarrow> string \<Rightarrow> string \<Rightarrow> web \<Rightarrow> string option \<times> web" where
  "consumePasswordResetToken e now token family w =
     (case getdel now (passwordReset_key (we_sha256 e token)) w of
        (stored, w) \<Rightarrow>
          if \<not> truthy stored then (None, w)
          else (case last_colon (the stored) of
                  (userId, bound) \<Rightarrow> (if bound \<noteq> family then None else Some userId, w)))"

section \<open>password.ts\<close>

definition PASSWORD_MIN_LENGTH :: nat where
  "PASSWORD_MIN_LENGTH = 12"

definition hashPassword :: "web_env \<Rightarrow> string \<Rightarrow> jstring \<Rightarrow> string" where
  "hashPassword e salt password = we_argon_hash e (salt) password"

datatype password_problem = Password_short | Password_long | Password_spaces

definition passwordPolicyError :: "jstring \<Rightarrow> password_problem option" where
  "passwordPolicyError password =
     (if length password < PASSWORD_MIN_LENGTH then Some Password_short
      else if length password > 200 then Some Password_long
      else if is_ws (hd password) \<or> is_ws (last password) then Some Password_spaces
      else None)"

definition breached_line :: "web_env \<Rightarrow> string \<Rightarrow> string \<Rightarrow> bool" where
  "breached_line e suffix line =
     (let parts = split_on (CHR '':'') (ascii_trim line);
          count = (if length parts > 1 then we_number e (parts ! 1) else Some 0)
      in hd parts = suffix \<and> (case count of None \<Rightarrow> False | Some n \<Rightarrow> n > 0))"

definition isPasswordBreached :: "web_env \<Rightarrow> jstring \<Rightarrow> bool" where
  "isPasswordBreached e password =
     (let digest = we_sha1 e password
      in (case we_pwned e (take 5 digest) of
            None \<Rightarrow> False
          | Some body \<Rightarrow> list_ex (breached_line e (drop 5 digest)) (split_on (CHR 0x0A) body)))"

section \<open>session.ts\<close>

definition SESSION_TTL_SECONDS :: int where
  "SESSION_TTL_SECONDS = 30 * 24 * 60 * 60"

definition SLIDE_AFTER_SECONDS :: int where
  "SLIDE_AFTER_SECONDS = 10 * 24 * 60 * 60"

record auth_context =
  ac_sessionId :: string
  ac_user :: user_row

definition createAuthSession :: "web_env \<Rightarrow> request \<Rightarrow> string \<Rightarrow> web \<Rightarrow> cookie_change \<times> web" where
  "createAuthSession e rq userId w =
     (Cookie_set (rq_token rq),
      w\<lparr>wb_auth := wb_auth w @
          [\<lparr>au_id = we_sha256 e (rq_token rq), au_userId = userId, au_expiresAt = rq_now rq + SESSION_TTL_SECONDS * 1000,
            au_ipHash = clientIpHash e rq, au_family = userAgentFamily (rq_header rq)\<rparr>]\<rparr>)"

definition slideIfStale :: "int \<Rightarrow> auth_row \<Rightarrow> string \<Rightarrow> web \<Rightarrow> cookie_change \<times> web" where
  "slideIfStale now row rawToken w =
     (if au_expiresAt row - now > (SESSION_TTL_SECONDS - SLIDE_AFTER_SECONDS) * 1000 then (Cookie_keep, w)
      else (Cookie_set rawToken,
            w\<lparr>wb_auth := map (\<lambda>r. if au_id r = au_id row then r\<lparr>au_expiresAt := now + SESSION_TTL_SECONDS * 1000\<rparr> else r) (wb_auth w)\<rparr>))"

text \<open>The join of sessions and users on the digest of the cookie.\<close>

definition session_rows :: "web \<Rightarrow> string \<Rightarrow> int \<Rightarrow> (auth_row \<times> user_row) list" where
  "session_rows w sessionId now =
     [(r, u). r \<leftarrow> wb_auth w, u \<leftarrow> wb_users w, us_id u = au_userId r \<and> au_id r = sessionId \<and> au_expiresAt r > now]"

definition readAuthSession :: "web_env \<Rightarrow> request \<Rightarrow> web \<Rightarrow> auth_context option \<times> cookie_change \<times> web" where
  "readAuthSession e rq w =
     (if \<not> truthy (rq_cookie rq) then (None, Cookie_keep, w)
      else
        (case session_rows w (we_sha256 e (the (rq_cookie rq))) (rq_now rq) of
           [] \<Rightarrow> (None, Cookie_keep, w)
         | (r, u) # rest \<Rightarrow>
             if us_deletedAt u \<noteq> None then (None, Cookie_keep, w)
             else (case slideIfStale (rq_now rq) r (the (rq_cookie rq)) w of
                     (cookie, w) \<Rightarrow> (Some \<lparr>ac_sessionId = au_id r, ac_user = u\<rparr>, cookie, w))))"

definition destroyAuthSession :: "web_env \<Rightarrow> request \<Rightarrow> web \<Rightarrow> cookie_change \<times> web" where
  "destroyAuthSession e rq w =
     (Cookie_clear,
      if truthy (rq_cookie rq) then w\<lparr>wb_auth := filter (\<lambda>r. au_id r \<noteq> we_sha256 e (the (rq_cookie rq))) (wb_auth w)\<rparr> else w)"

definition revokeOtherSessions :: "string \<Rightarrow> string option \<Rightarrow> web \<Rightarrow> web" where
  "revokeOtherSessions userId keep w =
     w\<lparr>wb_auth := filter (\<lambda>r. \<not> (au_userId r = userId \<and> (truthy keep \<longrightarrow> au_id r \<noteq> the keep))) (wb_auth w)\<rparr>"

definition rotateAuthSession :: "web_env \<Rightarrow> request \<Rightarrow> string \<Rightarrow> web \<Rightarrow> cookie_change \<times> web" where
  "rotateAuthSession e rq userId w = createAuthSession e rq userId (revokeOtherSessions userId None w)"

section \<open>Log in and out\<close>

text \<open>A body is \<open>None\<close> when it is not JSON with the fields of the schema. The answer to a call over the limit also carries
  \<open>retryAfterSeconds\<close>; it depends on the state of the limiter alone and is left out, as the texts of the messages are.\<close>

definition email_ok :: "web_env \<Rightarrow> string \<Rightarrow> bool" where
  "email_ok e s \<longleftrightarrow> we_is_email e s \<and> length s \<le> 254"

definition normal_email :: "string \<Rightarrow> string" where
  "normal_email s = ascii_lower (ascii_trim s)"

definition DUMMY_HASH :: string where
  "DUMMY_HASH = ''$argon2id$v=19$m=65536,t=3,p=4$c3ViLWhleGFydC1kdW1teQ$0ZQqZ0m4hR0Yx8m3xGZ1Zg2vWJ0bJxHqfQm1YQZ2Zg0''"

definition login :: "web_env \<Rightarrow> request \<Rightarrow> (string \<times> jstring) option \<Rightarrow> web \<Rightarrow> bool answer \<times> cookie_change \<times> web" where
  "login e rq body w =
     (case consumeRateLimit Limit_login (clientIp_of (rq_header rq)) (rq_now rq) (rq_random rq) w of
        (limit, w) \<Rightarrow>
          if \<not> rr_allowed limit then (fail_with 429 ''RATE_LIMITED'', Cookie_keep, w)
          else
            (case body of
               None \<Rightarrow> (fail_with 400 ''INVALID_INPUT'', Cookie_keep, w)
             | Some (email, password) \<Rightarrow>
                 if \<not> (email_ok e email \<and> password \<noteq> []) then (fail_with 400 ''INVALID_INPUT'', Cookie_keep, w)
                 else
                   let user = user_by_email w (normal_email email);
                       stored = (case user of None \<Rightarrow> DUMMY_HASH
                                 | Some u \<Rightarrow> (case us_passwordHash u of None \<Rightarrow> DUMMY_HASH | Some h \<Rightarrow> h));
                       ok = we_argon_verify e stored password
                   in (case user of
                         None \<Rightarrow> (fail_with 401 ''INVALID_CREDENTIALS'', Cookie_keep, w)
                       | Some u \<Rightarrow>
                           if us_deletedAt u \<noteq> None \<or> \<not> truthy (us_passwordHash u) \<or> \<not> ok
                           then (fail_with 401 ''INVALID_CREDENTIALS'', Cookie_keep, w)
                           else (case createAuthSession e rq (us_id u) (snd (destroyAuthSession e rq w)) of
                                   (cookie, w) \<Rightarrow>
                                     (respond 200 (us_emailVerifiedAt u \<noteq> None), cookie,
                                      recordAudit (Some (us_id u)) ''auth.login'' (us_id u) (Some (clientIpHash e rq)) w)))))"

definition logout :: "web_env \<Rightarrow> request \<Rightarrow> web \<Rightarrow> bool answer \<times> cookie_change \<times> web" where
  "logout e rq w = (case destroyAuthSession e rq w of (cookie, w) \<Rightarrow> (respond 200 True, cookie, w))"

section \<open>Registration and verification\<close>

record register_body =
  rb_email :: string
  rb_password :: jstring
  rb_acceptTerms :: bool
  rb_termsVersion :: "string option"

definition terms_version :: "register_body \<Rightarrow> string" where
  "terms_version b = (case rb_termsVersion b of None \<Rightarrow> ''1.0'' | Some v \<Rightarrow> v)"

definition register_body_ok :: "web_env \<Rightarrow> register_body \<Rightarrow> bool" where
  "register_body_ok e b \<longleftrightarrow>
     email_ok e (rb_email b) \<and> rb_password b \<noteq> [] \<and> rb_acceptTerms b
     \<and> 1 \<le> length (terms_version b) \<and> length (terms_version b) \<le> 20"

definition DISPOSABLE_DOMAINS :: "string list" where
  "DISPOSABLE_DOMAINS =
     [''mailinator.com'', ''guerrillamail.com'', ''10minutemail.com'', ''tempmail.com'', ''yopmail.com'', ''trashmail.com'',
      ''sharklasers.com'', ''getnada.com'']"

definition email_domain :: "string \<Rightarrow> string" where
  "email_domain email = rev (takeWhile (\<lambda>c. c \<noteq> CHR ''@'') (rev email))"

definition new_user :: "web_env \<Rightarrow> request \<Rightarrow> string \<Rightarrow> jstring \<Rightarrow> user_row" where
  "new_user e rq email password =
     \<lparr>us_id = rq_id rq 0, us_email = email, us_emailVerifiedAt = None,
      us_passwordHash = Some (hashPassword e (rq_random rq) password), us_totpSecretEnc = None, us_role = ''user'',
      us_planCode = ''trial'', us_trialGrantedAt = None, us_deletedAt = None\<rparr>"

definition register :: "web_env \<Rightarrow> request \<Rightarrow> register_body option \<Rightarrow> web \<Rightarrow> bool answer \<times> cookie_change \<times> web" where
  "register e rq body w =
     (case consumeRateLimit Limit_register (clientIp_of (rq_header rq)) (rq_now rq) (rq_random rq) w of
        (limit, w) \<Rightarrow>
          if \<not> rr_allowed limit then (fail_with 429 ''RATE_LIMITED'', Cookie_keep, w)
          else
            (case body of
               None \<Rightarrow> (fail_with 400 ''INVALID_INPUT'', Cookie_keep, w)
             | Some b \<Rightarrow>
                 let email = normal_email (rb_email b)
                 in if \<not> register_body_ok e b then (fail_with 400 ''INVALID_INPUT'', Cookie_keep, w)
                    else if email_domain email \<in> set DISPOSABLE_DOMAINS then (fail_with 400 ''INVALID_INPUT'', Cookie_keep, w)
                    else if passwordPolicyError (rb_password b) \<noteq> None then (fail_with 400 ''WEAK_PASSWORD'', Cookie_keep, w)
                    else if isPasswordBreached e (rb_password b) then (fail_with 400 ''WEAK_PASSWORD'', Cookie_keep, w)
                    else if user_by_email w email \<noteq> None then (fail_with 409 ''EMAIL_TAKEN'', Cookie_keep, w)
                    else
                      let u = new_user e rq email (rb_password b);
                          w = w\<lparr>wb_users := wb_users w @ [u],
                                wb_consents := wb_consents w @
                                  [\<lparr>co_userId = us_id u, co_kind = ''terms'', co_version = terms_version b, co_granted = True,
                                    co_ipHash = clientIpHash e rq\<rparr>]\<rparr>;
                          w = issueEmailVerificationToken e (rq_now rq) (rq_token rq) (us_id u) w;
                          w = sendMail e email Mail_verify (Some (rq_token rq)) w
                      in (respond 201 True, Cookie_keep,
                          recordAudit (Some (us_id u)) ''auth.register'' (us_id u) (Some (clientIpHash e rq)) w)))"

definition trial_entry :: "request \<Rightarrow> string \<Rightarrow> ledger_entry" where
  "trial_entry rq userId =
     \<lparr>entry_id = rq_id rq 0, entry_userId = userId, delta = of_int (plan_credits plan_trial), reason = trial_grant,
      bucket = Bucket_trial, entry_sessionId = None, idempotencyKey = Some (''trial_grant:'' @ userId), expiresAt = None,
      createdAt = rq_now rq\<rparr>"

definition grant_trial :: "request \<Rightarrow> string \<Rightarrow> web \<Rightarrow> web" where
  "grant_trial rq userId w =
     update_user userId (\<lambda>u. if us_trialGrantedAt u = None then u\<lparr>us_trialGrantedAt := Some (rq_now rq)\<rparr> else u)
       (snd (ledger_insert (trial_entry rq userId) w))"

text \<open>The answer holds the credits that were granted.\<close>

definition verify_email :: "web_env \<Rightarrow> request \<Rightarrow> string option \<Rightarrow> web \<Rightarrow> int answer \<times> cookie_change \<times> web" where
  "verify_email e rq body w =
     (case body of
        None \<Rightarrow> (fail_with 400 ''INVALID_INPUT'', Cookie_keep, w)
      | Some token \<Rightarrow>
          if \<not> (16 \<le> length token \<and> length token \<le> 200) then (fail_with 400 ''INVALID_INPUT'', Cookie_keep, w)
          else
            (case consumeEmailVerificationToken e (rq_now rq) token w of
               (userId, w) \<Rightarrow>
                 if \<not> truthy userId then (fail_with 400 ''INVALID_TOKEN'', Cookie_keep, w)
                 else
                   (case user_by_id w (the userId) of
                      None \<Rightarrow> (fail_with 400 ''INVALID_TOKEN'', Cookie_keep, w)
                    | Some u \<Rightarrow>
                        if us_deletedAt u \<noteq> None then (fail_with 400 ''INVALID_TOKEN'', Cookie_keep, w)
                        else
                          let w = update_user (us_id u) (\<lambda>u. u\<lparr>us_emailVerifiedAt := Some (rq_now rq)\<rparr>) w;
                              w = (if us_trialGrantedAt u = None then grant_trial rq (us_id u) w else w)
                          in (case createAuthSession e rq (us_id u) (snd (destroyAuthSession e rq w)) of
                                (cookie, w) \<Rightarrow>
                                  (respond 200 (if us_trialGrantedAt u \<noteq> None then 0 else plan_credits plan_trial), cookie,
                                   recordAudit (Some (us_id u)) ''auth.email_verified'' (us_id u) (Some (clientIpHash e rq)) w)))))"

definition resend :: "web_env \<Rightarrow> request \<Rightarrow> string option \<Rightarrow> web \<Rightarrow> bool answer \<times> cookie_change \<times> web" where
  "resend e rq body w =
     (case consumeRateLimit Limit_register (clientIp_of (rq_header rq)) (rq_now rq) (rq_random rq) w of
        (limit, w) \<Rightarrow>
          if \<not> rr_allowed limit then (fail_with 429 ''RATE_LIMITED'', Cookie_keep, w)
          else
            (case body of
               None \<Rightarrow> (fail_with 400 ''INVALID_INPUT'', Cookie_keep, w)
             | Some address \<Rightarrow>
                 if \<not> email_ok e address then (fail_with 400 ''INVALID_INPUT'', Cookie_keep, w)
                 else
                   let email = normal_email address;
                       w = (case user_by_email w email of
                              None \<Rightarrow> w
                            | Some u \<Rightarrow>
                                if us_deletedAt u = None \<and> us_emailVerifiedAt u = None
                                then sendMail e email Mail_verify (Some (rq_token rq))
                                       (issueEmailVerificationToken e (rq_now rq) (rq_token rq) (us_id u) w)
                                else w)
                   in (respond 200 True, Cookie_keep, w)))"

section \<open>Passwords\<close>

definition forgot :: "web_env \<Rightarrow> request \<Rightarrow> string option \<Rightarrow> web \<Rightarrow> bool answer \<times> cookie_change \<times> web" where
  "forgot e rq body w =
     (case body of
        None \<Rightarrow> (fail_with 400 ''INVALID_INPUT'', Cookie_keep, w)
      | Some address \<Rightarrow>
          if \<not> email_ok e address then (fail_with 400 ''INVALID_INPUT'', Cookie_keep, w)
          else
            let email = normal_email address
            in (case consumeRateLimit Limit_passwordReset email (rq_now rq) (rq_random rq) w of
                  (limit, w) \<Rightarrow>
                    if \<not> rr_allowed limit then (fail_with 429 ''RATE_LIMITED'', Cookie_keep, w)
                    else
                      let w = (case user_by_email w email of
                                 None \<Rightarrow> w
                               | Some u \<Rightarrow>
                                   if us_deletedAt u = None
                                   then sendMail e email Mail_reset (Some (rq_token rq))
                                          (issuePasswordResetToken e (rq_now rq) (rq_token rq) (us_id u)
                                             (userAgentFamily (rq_header rq)) w)
                                   else w)
                      in (respond 200 True, Cookie_keep, w)))"

definition set_password :: "web_env \<Rightarrow> request \<Rightarrow> string \<Rightarrow> jstring \<Rightarrow> web \<Rightarrow> web" where
  "set_password e rq userId password w =
     update_user userId (\<lambda>u. u\<lparr>us_passwordHash := Some (hashPassword e (rq_random rq) password)\<rparr>) w"

definition password_replaced :: "web_env \<Rightarrow> request \<Rightarrow> user_row \<Rightarrow> jstring \<Rightarrow> string \<Rightarrow> web \<Rightarrow> bool answer \<times> cookie_change \<times> web" where
  "password_replaced e rq u password action w =
     (case rotateAuthSession e rq (us_id u) (set_password e rq (us_id u) password w) of
        (cookie, w) \<Rightarrow>
          (respond 200 True, cookie,
           recordAudit (Some (us_id u)) action (us_id u) (Some (clientIpHash e rq)) (sendMail e (us_email u) Mail_password_changed None w)))"

definition reset_password :: "web_env \<Rightarrow> request \<Rightarrow> (string \<times> jstring) option \<Rightarrow> web \<Rightarrow> bool answer \<times> cookie_change \<times> web" where
  "reset_password e rq body w =
     (case body of
        None \<Rightarrow> (fail_with 400 ''INVALID_INPUT'', Cookie_keep, w)
      | Some (token, password) \<Rightarrow>
          if \<not> (16 \<le> length token \<and> length token \<le> 200 \<and> password \<noteq> []) then (fail_with 400 ''INVALID_INPUT'', Cookie_keep, w)
          else if passwordPolicyError password \<noteq> None then (fail_with 400 ''WEAK_PASSWORD'', Cookie_keep, w)
          else if isPasswordBreached e password then (fail_with 400 ''WEAK_PASSWORD'', Cookie_keep, w)
          else
            (case consumePasswordResetToken e (rq_now rq) token (userAgentFamily (rq_header rq)) w of
               (userId, w) \<Rightarrow>
                 if \<not> truthy userId then (fail_with 400 ''INVALID_TOKEN'', Cookie_keep, w)
                 else
                   (case user_by_id w (the userId) of
                      None \<Rightarrow> (fail_with 400 ''INVALID_TOKEN'', Cookie_keep, w)
                    | Some u \<Rightarrow>
                        if us_deletedAt u \<noteq> None then (fail_with 400 ''INVALID_TOKEN'', Cookie_keep, w)
                        else password_replaced e rq u password ''auth.password_reset'' w)))"

definition change_password :: "web_env \<Rightarrow> request \<Rightarrow> (jstring \<times> jstring) option \<Rightarrow> web \<Rightarrow> bool answer \<times> cookie_change \<times> web" where
  "change_password e rq body w =
     (case readAuthSession e rq w of
        (None, cookie, w) \<Rightarrow> (fail_with 401 ''UNAUTHORIZED'', cookie, w)
      | (Some auth, cookie, w) \<Rightarrow>
          (case body of
             None \<Rightarrow> (fail_with 400 ''INVALID_INPUT'', cookie, w)
           | Some (current, new) \<Rightarrow>
               if current = [] \<or> new = [] then (fail_with 400 ''INVALID_INPUT'', cookie, w)
               else if passwordPolicyError new \<noteq> None then (fail_with 400 ''WEAK_PASSWORD'', cookie, w)
               else if isPasswordBreached e new then (fail_with 400 ''WEAK_PASSWORD'', cookie, w)
               else
                 (case user_by_id w (us_id (ac_user auth)) of
                    None \<Rightarrow> (fail_with 400 ''NO_PASSWORD'', cookie, w)
                  | Some u \<Rightarrow>
                      if \<not> truthy (us_passwordHash u) then (fail_with 400 ''NO_PASSWORD'', cookie, w)
                      else if \<not> we_argon_verify e (the (us_passwordHash u)) current then (fail_with 400 ''INVALID_CREDENTIALS'', cookie, w)
                      else password_replaced e rq u new ''auth.password_change'' w)))"

section \<open>Deletion\<close>

definition deleted_email :: "string \<Rightarrow> string" where
  "deleted_email i = ''deleted+'' @ i @ ''@invalid''"

text \<open>\<open>confirmed\<close>: the field \<open>confirm\<close> is the word that the page asks for.\<close>

definition delete_account :: "web_env \<Rightarrow> request \<Rightarrow> (jstring \<times> bool) option \<Rightarrow> web \<Rightarrow> bool answer \<times> cookie_change \<times> web" where
  "delete_account e rq body w =
     (case readAuthSession e rq w of
        (None, cookie, w) \<Rightarrow> (fail_with 401 ''UNAUTHORIZED'', cookie, w)
      | (Some auth, cookie, w) \<Rightarrow>
          (case body of
             None \<Rightarrow> (fail_with 400 ''INVALID_INPUT'', cookie, w)
           | Some (password, confirmed) \<Rightarrow>
               if password = [] \<or> \<not> confirmed then (fail_with 400 ''INVALID_INPUT'', cookie, w)
               else
                 let i = us_id (ac_user auth)
                 in (case user_by_id w i of
                       None \<Rightarrow> (fail_with 400 ''NO_PASSWORD'', cookie, w)
                     | Some u \<Rightarrow>
                         if \<not> truthy (us_passwordHash u) then (fail_with 400 ''NO_PASSWORD'', cookie, w)
                         else if \<not> we_argon_verify e (the (us_passwordHash u)) password then (fail_with 400 ''INVALID_CREDENTIALS'', cookie, w)
                         else
                           let w = w\<lparr>wb_profiles := filter (\<lambda>p. p \<noteq> i) (wb_profiles w),
                                     wb_glossaries := filter (\<lambda>g. gl_userId g \<noteq> i) (wb_glossaries w)\<rparr>;
                               w = update_user i (\<lambda>u. u\<lparr>us_email := deleted_email i, us_passwordHash := None,
                                                        us_totpSecretEnc := None, us_deletedAt := Some (rq_now rq)\<rparr>) w;
                               w = revokeOtherSessions i None w
                           in (case destroyAuthSession e rq w of
                                 (cookie, w) \<Rightarrow>
                                   (respond 200 True, cookie,
                                    recordAudit (Some i) ''account.delete'' i (Some (clientIpHash e rq))
                                      (sendMail e (us_email u) Mail_deleted None w))))))"

end
