(* ===== verification/Billing_Store.thy ===== *)
theory Billing_Store
  imports Web_Auth Pricing
begin

text \<open>
  Money on the side of the web application: balances derived from the ledger in SQL (\<open>lib/server/credits.ts\<close>), the Paddle catalog,
  signatures and the writes of an event (\<open>lib/server/paddle.ts\<close>), the webhook and the checkout route. HMAC, \<open>JSON.parse\<close> and
  \<open>Date.parse\<close> are parameters.
\<close>

section \<open>credits.ts\<close>

text \<open>The \<open>where\<close> clause of the aggregates, and the entries that pass it.\<close>

definition counts_now :: "int \<Rightarrow> ledger_entry \<Rightarrow> bool" where
  "counts_now now e \<longleftrightarrow> delta e < 0 \<or> expiresAt e = None \<or> the (expiresAt e) > now"

definition ledger_of :: "web \<Rightarrow> string \<Rightarrow> ledger_entry list" where
  "ledger_of w userId = filter (\<lambda>e. entry_userId e = userId) (wb_ledger w)"

definition counted :: "web \<Rightarrow> string \<Rightarrow> int \<Rightarrow> credit_bucket \<Rightarrow> ledger_entry list" where
  "counted w userId now b = filter (\<lambda>e. counts_now now e \<and> bucket e = b) (ledger_of w userId)"

text \<open>\<open>min(expires_at) filter (where delta > 0)\<close>: null when there is none.\<close>

definition first_expiry :: "ledger_entry list \<Rightarrow> int option" where
  "first_expiry es =
     (case map (\<lambda>e. the (expiresAt e)) (filter (\<lambda>e. delta e > 0 \<and> expiresAt e \<noteq> None) es) of
        [] \<Rightarrow> None | t # ts \<Rightarrow> Some (Min (set (t # ts))))"

text \<open>One row for each bucket that has an entry.\<close>

definition bucketBalancesOf :: "web \<Rightarrow> string \<Rightarrow> int \<Rightarrow> bucket_balance list" where
  "bucketBalancesOf w userId now =
     map (\<lambda>b. \<lparr>bal_bucket = b, bal_balance = sum_list (map delta (counted w userId now b)),
               bal_expiresAt = first_expiry (counted w userId now b)\<rparr>)
       (filter (\<lambda>b. counted w userId now b \<noteq> []) [Bucket_trial, Bucket_subscription, Bucket_topup])"

definition availableCredits :: "web \<Rightarrow> string \<Rightarrow> int \<Rightarrow> jsnum" where
  "availableCredits w userId now = totalAvailable (bucketBalancesOf w userId now)"

text \<open>\<open>order by created_at desc limit n\<close>\<close>

definition recentLedger :: "web \<Rightarrow> string \<Rightarrow> nat \<Rightarrow> ledger_entry list" where
  "recentLedger w userId n = take n (rev (sort_key createdAt (ledger_of w userId)))"

section \<open>The catalog\<close>

definition catalog_line :: "web_env \<Rightarrow> string \<Rightarrow> catalog_entry option" where
  "catalog_line e chunk =
     (let parts = split_on (CHR '':'') (ascii_trim chunk)
      in if length parts < 3 then None
         else if parts ! 0 = [] \<or> parts ! 1 \<noteq> ''subscription'' \<and> parts ! 1 \<noteq> ''topup'' then None
         else (case we_number e (parts ! 2) of
                 None \<Rightarrow> None
               | Some amount \<Rightarrow>
                   if amount \<le> 0 then None
                   else Some \<lparr>cat_priceId = parts ! 0,
                              cat_kind = (if parts ! 1 = ''subscription'' then Kind_subscription else Kind_topup),
                              cat_planCode = (if length parts > 3 \<and> parts ! 3 \<noteq> [] then Some (parts ! 3) else None),
                              cat_credits = amount\<rparr>))"

definition loadCatalog :: "web_env \<Rightarrow> string \<Rightarrow> catalog_entry list" where
  "loadCatalog e raw = List.map_filter (catalog_line e) (split_on (CHR '','') raw)"

section \<open>Signatures\<close>

record paddle_item =
  pi_price_id_of_price :: "string option"
  pi_price_id :: "string option"
  pi_quantity :: "int option"

record paddle_body =
  pb_event_id :: "string option"
  pb_event_type :: "string option"
  pb_id :: "string option"
  pb_status :: "string option"
  pb_subscription_id :: "string option"
  pb_user_id :: "string option"
  pb_email :: "string option"
  pb_ends_at :: "string option"
  pb_items :: "paddle_item list option"

text \<open>\<open>pe_parse\<close> is \<open>JSON.parse\<close>: \<open>None\<close> for a text that is not JSON, \<open>Some None\<close> for \<open>null\<close>, otherwise the fields that the
  route reads (a field of another type than the route expects is not told apart from an absent one).\<close>

record paddle_env =
  pe_secret :: "string option"
  pe_catalog :: string
  pe_terms_version :: string
  pe_hmac :: "string \<Rightarrow> string \<Rightarrow> string"
  pe_parse :: "string \<Rightarrow> paddle_body option option"
  pe_date :: "string \<Rightarrow> int option"

text \<open>The loop over the parts: the last \<open>ts\<close> and the last \<open>h1\<close> win; a part without \<open>=\<close> has no value.\<close>

definition signature_part :: "string option \<times> string option \<Rightarrow> string \<Rightarrow> string option \<times> string option" where
  "signature_part st part =
     (let kv = split_on (CHR ''='') part; v = (if length kv > 1 then Some (kv ! 1) else None)
      in (case st of (ts, h1) \<Rightarrow> (if hd kv = ''ts'' then v else ts, if hd kv = ''h1'' then v else h1)))"

definition paddle_verifySignature :: "web_env \<Rightarrow> paddle_env \<Rightarrow> string \<Rightarrow> string option \<Rightarrow> string \<Rightarrow> int \<Rightarrow> int \<Rightarrow> bool" where
  "paddle_verifySignature e p rawBody header secret nowSeconds tolerance =
     (if \<not> truthy header \<or> secret = [] then False
      else (case foldl signature_part (None, None) (split_on (CHR '';'') (the header)) of
              (ts, h1) \<Rightarrow>
                if \<not> truthy ts \<or> \<not> truthy h1 then False
                else (case we_number e (the ts) of
                        None \<Rightarrow> False
                      | Some t \<Rightarrow> \<bar>of_int nowSeconds - t\<bar> \<le> of_int tolerance \<and> the h1 = pe_hmac p secret (the ts @ '':'' @ rawBody))))"

section \<open>The writes of an event\<close>

text \<open>A \<open>numeric(14, 4)\<close> column rounds to four decimals, halves away from zero.\<close>

definition numeric4 :: "jsnum \<Rightarrow> jsnum" where
  "numeric4 x = (if x < 0 then - (of_int \<lfloor>- x * 10000 + 1 / 2\<rfloor> / 10000) else of_int \<lfloor>x * 10000 + 1 / 2\<rfloor> / 10000)"

text \<open>\<open>t ? new Date(t) : null\<close>\<close>

definition date_or_null :: "int option \<Rightarrow> int option" where
  "date_or_null t = (if t = Some 0 then None else t)"

definition intent_entry :: "request \<Rightarrow> string \<Rightarrow> nat \<Rightarrow> ledger_intent \<Rightarrow> ledger_entry" where
  "intent_entry rq userId i x =
     \<lparr>entry_id = rq_id rq i, entry_userId = userId, delta = numeric4 (intent_delta x), reason = intent_reason x,
      bucket = intent_bucket x, entry_sessionId = None, idempotencyKey = Some (intent_key x),
      expiresAt = date_or_null (intent_expiresAt x), createdAt = rq_now rq\<rparr>"

text \<open>The loop over the intents; \<open>None\<close> is an exception: a new row that names no user.\<close>

fun insert_intents :: "request \<Rightarrow> string \<Rightarrow> nat \<Rightarrow> ledger_intent list \<Rightarrow> (nat \<times> nat) \<times> web \<Rightarrow> ((nat \<times> nat) \<times> web) option" where
  "insert_intents rq userId i [] st = Some st"
| "insert_intents rq userId i (x # xs) ((applied, skipped), w) =
     (case ledger_insert (intent_entry rq userId i x) w of
        (True, w') \<Rightarrow>
          if user_by_id w userId = None then None else insert_intents rq userId (Suc i) xs ((applied + 1, skipped), w')
      | (False, w') \<Rightarrow> insert_intents rq userId (Suc i) xs ((applied, skipped + 1), w'))"

definition subscription_row_of :: "request \<Rightarrow> string \<Rightarrow> string \<Rightarrow> plan_change \<Rightarrow> subscription_row" where
  "subscription_row_of rq userId subscriptionId change =
     \<lparr>sb_userId = userId, sb_paddleId = subscriptionId, sb_planCode = change_planCode change, sb_status = change_status change,
      sb_currentPeriodEnd = date_or_null (change_currentPeriodEnd change),
      sb_canceledAt = (if change_status change = Sub_canceled then Some (rq_now rq) else None)\<rparr>"

text \<open>\<open>on conflict do update\<close> on the subscription's id; the owner of the row is not changed.\<close>

definition upsert_subscription :: "subscription_row \<Rightarrow> web \<Rightarrow> web option" where
  "upsert_subscription row w =
     (if sb_paddleId row \<in> set (map sb_paddleId (wb_subscriptions w)) then
        Some (w\<lparr>wb_subscriptions := map (\<lambda>s. if sb_paddleId s = sb_paddleId row then row\<lparr>sb_userId := sb_userId s\<rparr> else s) (wb_subscriptions w)\<rparr>)
      else if user_by_id w (sb_userId row) = None then None
      else Some (w\<lparr>wb_subscriptions := wb_subscriptions w @ [row]\<rparr>))"

definition apply_plan_change :: "web_env \<Rightarrow> request \<Rightarrow> string \<Rightarrow> plan_change option \<Rightarrow> web \<Rightarrow> web option" where
  "apply_plan_change e rq userId planChange w =
     (case planChange of
        None \<Rightarrow> Some w
      | Some change \<Rightarrow>
          if \<not> we_is_uuid e userId then None
          else
            let w = update_user userId (\<lambda>u. u\<lparr>us_planCode := change_planCode change\<rparr>) w
            in if truthy (change_subscriptionId change)
               then upsert_subscription (subscription_row_of rq userId (the (change_subscriptionId change)) change) w
               else Some w)"

text \<open>The transaction leaves no trace when it throws.\<close>

definition applyOutcome :: "web_env \<Rightarrow> request \<Rightarrow> string \<Rightarrow> paddle_outcome \<Rightarrow> string \<Rightarrow> web \<Rightarrow> ((nat \<times> nat) \<times> web) option" where
  "applyOutcome e rq userId outcome ev w =
     (case insert_intents rq userId 0 (out_ledger outcome) ((0, 0), w) of
        None \<Rightarrow> None
      | Some (counts, w1) \<Rightarrow>
          (case apply_plan_change e rq userId (out_planChange outcome) w1 of
             None \<Rightarrow> None
           | Some w2 \<Rightarrow> Some (counts, recordAudit None ''billing.paddle_event'' ev None w2)))"

definition counted_sum :: "web \<Rightarrow> string \<Rightarrow> int \<Rightarrow> credit_bucket \<Rightarrow> jsnum" where
  "counted_sum w userId now b = sum_list (map delta (counted w userId now b))"

definition balance_of :: "web \<Rightarrow> string \<Rightarrow> int \<Rightarrow> balances_row" where
  "balance_of w userId now =
     \<lparr>row_balance = sum_list (map delta (filter (counts_now now) (ledger_of w userId))),
      row_trial = counted_sum w userId now Bucket_trial,
      row_subscription = counted_sum w userId now Bucket_subscription,
      row_topup = counted_sum w userId now Bucket_topup\<rparr>"

text \<open>The upsert into \<open>credit_balances\<close>, which throws for a user that does not exist.\<close>

definition refreshBalance :: "string \<Rightarrow> int \<Rightarrow> web \<Rightarrow> web option" where
  "refreshBalance userId now w =
     (if user_by_id w userId = None then None
      else Some (w\<lparr>wb_balances := map_set userId (balance_of w userId now) (wb_balances w)\<rparr>))"

definition outcomeFor :: "paddle_event \<Rightarrow> catalog_entry list \<Rightarrow> int \<Rightarrow> paddle_outcome" where
  "outcomeFor event catalog now = intentsForEvent event catalog now"

section \<open>The webhook\<close>

text \<open>\<open>a ?? b\<close> on optional values.\<close>

definition or_else :: "'a option \<Rightarrow> 'a option \<Rightarrow> 'a option" where
  "or_else a b = (case a of None \<Rightarrow> b | Some x \<Rightarrow> Some x)"

definition resolveUserId :: "paddle_body \<Rightarrow> web \<Rightarrow> string option" where
  "resolveUserId payload w =
     (if truthy (pb_user_id payload) then pb_user_id payload
      else if \<not> truthy (pb_email payload) then None
      else map_option us_id (find (\<lambda>u. us_email u = ascii_lower (the (pb_email payload))) (wb_users w)))"

definition parseDate :: "paddle_env \<Rightarrow> string option \<Rightarrow> int option" where
  "parseDate p v = (if truthy v then pe_date p (the v) else None)"

definition event_item_of :: "paddle_item \<Rightarrow> event_item" where
  "event_item_of item =
     \<lparr>item_priceId = (case or_else (pi_price_id_of_price item) (pi_price_id item) of None \<Rightarrow> [] | Some i \<Rightarrow> i),
      item_quantity = (case pi_quantity item of None \<Rightarrow> 1 | Some q \<Rightarrow> q)\<rparr>"

definition event_of :: "paddle_env \<Rightarrow> paddle_body \<Rightarrow> string \<Rightarrow> paddle_event" where
  "event_of p payload userId =
     \<lparr>eventId = the (pb_event_id payload), eventType = the (pb_event_type payload), event_userId = userId,
      event_items = map event_item_of (case pb_items payload of None \<Rightarrow> [] | Some is \<Rightarrow> is),
      event_subscriptionId = or_else (pb_subscription_id payload) (pb_id payload),
      event_status = pb_status payload, event_currentPeriodEnd = parseDate p (pb_ends_at payload), refundCredits = None\<rparr>"

text \<open>The answer \<open>Some (applied, skipped)\<close>, or \<open>None\<close> for an event of an unknown customer; an exception becomes a 500,
  also the one of reading a field of the body \<open>null\<close>. The
  audit row of \<open>applyOutcome\<close> stays when only \<open>refreshBalance\<close> throws.\<close>

definition webhook :: "web_env \<Rightarrow> paddle_env \<Rightarrow> request \<Rightarrow> string \<Rightarrow> web \<Rightarrow> (nat \<times> nat) option answer \<times> web" where
  "webhook e p rq raw w =
     (if \<not> truthy (pe_secret p) then (fail_with 503 ''NOT_CONFIGURED'', w)
      else if \<not> paddle_verifySignature e p raw (rq_header rq ''paddle-signature'') (the (pe_secret p)) (rq_now rq div 1000) 300
        then (fail_with 401 ''BAD_SIGNATURE'', w)
      else
        (case pe_parse p raw of
           None \<Rightarrow> (fail_with 400 ''BAD_PAYLOAD'', w)
         | Some None \<Rightarrow> (fail_with 500 ''EXCEPTION'', w)
         | Some (Some payload) \<Rightarrow>
             if \<not> truthy (pb_event_id payload) \<or> \<not> truthy (pb_event_type payload) then (fail_with 400 ''BAD_PAYLOAD'', w)
             else
               let user = resolveUserId payload w
               in if \<not> truthy user then (respond 200 None, w)
                  else
                    let event = event_of p payload (the user);
                        outcome = outcomeFor event (loadCatalog e (pe_catalog p)) (rq_now rq)
                    in (case applyOutcome e rq (the user) outcome (eventId event) w of
                          None \<Rightarrow> (fail_with 500 ''EXCEPTION'', w)
                        | Some (counts, w1) \<Rightarrow>
                            (case refreshBalance (the user) (rq_now rq) w1 of
                               None \<Rightarrow> (fail_with 500 ''EXCEPTION'', w1)
                             | Some w2 \<Rightarrow> (respond 200 (Some counts), w2)))))"

section \<open>The checkout\<close>

record checkout_answer =
  ck_priceId :: string
  ck_kind :: catalog_kind
  ck_credits :: jsnum
  ck_planName :: "string option"
  ck_user_id :: string
  ck_deliversImmediately :: bool

text \<open>A plan code of the catalog that is no plan makes the answer throw, after the consent and the audit row are written.\<close>

definition PLAN_CODES :: "plan_code list" where
  "PLAN_CODES = [Plan_trial, Plan_starter, Plan_creator, Plan_pro]"

definition plan_named :: "string \<Rightarrow> plan option" where
  "plan_named c = map_option PLANS (find (\<lambda>k. plan_code_string k = c) PLAN_CODES)"

definition checkout :: "web_env \<Rightarrow> paddle_env \<Rightarrow> request \<Rightarrow> (string \<times> bool) option \<Rightarrow> web \<Rightarrow> checkout_answer answer \<times> cookie_change \<times> web" where
  "checkout e p rq body w =
     (case readAuthSession e rq w of
        (None, cookie, w) \<Rightarrow> (fail_with 401 ''UNAUTHENTICATED'', cookie, w)
      | (Some auth, cookie, w) \<Rightarrow>
          if us_emailVerifiedAt (ac_user auth) = None then (fail_with 403 ''EMAIL_NOT_VERIFIED'', cookie, w)
          else
            (case body of
               None \<Rightarrow> (fail_with 400 ''INVALID_REQUEST'', cookie, w)
             | Some (priceId, consent) \<Rightarrow>
                 if priceId = [] then (fail_with 400 ''INVALID_REQUEST'', cookie, w)
                 else
                   (case findCatalogEntry (loadCatalog e (pe_catalog p)) priceId of
                      None \<Rightarrow> (fail_with 400 ''UNKNOWN_PRICE'', cookie, w)
                    | Some entry \<Rightarrow>
                        let w = w\<lparr>wb_consents := wb_consents w @
                                  [\<lparr>co_userId = us_id (ac_user auth), co_kind = ''immediate_performance_art38'',
                                    co_version = pe_terms_version p, co_granted = consent, co_ipHash = clientIpHash e rq\<rparr>]\<rparr>;
                            w = recordAudit (Some (us_id (ac_user auth))) ''billing.checkout_opened'' (cat_priceId entry)
                                  (Some (clientIpHash e rq)) w;
                            plan = (case cat_planCode entry of None \<Rightarrow> None | Some c \<Rightarrow> plan_named c)
                        in if cat_planCode entry \<noteq> None \<and> plan = None then (fail_with 500 ''EXCEPTION'', cookie, w)
                           else
                             (respond 200
                                \<lparr>ck_priceId = cat_priceId entry, ck_kind = cat_kind entry, ck_credits = cat_credits entry,
                                 ck_planName = map_option plan_name plan, ck_user_id = us_id (ac_user auth),
                                 ck_deliversImmediately = consent\<rparr>, cookie, w))))"

text \<open>What the pricing page shows: for each plan and each pack the id of its price, if the catalog has one.\<close>

definition plan_offers :: "catalog_entry list \<Rightarrow> (string \<times> string \<times> int \<times> price \<times> string option) list" where
  "plan_offers catalog =
     map (\<lambda>k. (plan_code_string k, plan_name (PLANS k), plan_credits (PLANS k), priceMonthly (PLANS k),
               map_option cat_priceId (find (\<lambda>c. cat_planCode c = Some (plan_code_string k)) catalog)))
       PLAN_CODES"

definition pack_offers :: "catalog_entry list \<Rightarrow> (string \<times> int \<times> price \<times> string option) list" where
  "pack_offers catalog =
     map (\<lambda>k. (pack_code k, pack_credits k, pack_price k,
               map_option cat_priceId (find (\<lambda>c. cat_kind c = Kind_topup \<and> cat_credits c = of_int (pack_credits k)) catalog)))
       TOPUP_PACKS"

section \<open>Balances: facts\<close>

lemma counted_live:
  "sum_list (map delta (filter (\<lambda>e. counts_now now e \<and> bucket e = b) es)) = sum_list (map delta (live_entries now b es))"
proof (induction es)
  case (Cons e es)
  show ?case
  proof (cases "bucket e = b \<and> counts_now now e \<noteq> (\<not> grant_expired now e)")
    case True
    then have "delta e = 0" by (auto simp: counts_now_def grant_expired_def split: option.splits)
    then show ?thesis using Cons by (simp add: live_entries_def)
  next
    case False
    then show ?thesis using Cons by (auto simp: live_entries_def)
  qed
qed (simp add: live_entries_def)

lemma counted_sum_live: "counted_sum w u now b = sum_list (map delta (live_entries now b (ledger_of w u)))"
  by (simp add: counted_sum_def counted_def counted_live)

lemma bucketBalancesOf_available: "available_in (bucketBalancesOf w u now) b = counted_sum w u now b"
  by (cases b) (auto simp: bucketBalancesOf_def available_in_def counted_sum_def)

lemma bucketBalancesOf_distinct: "distinct (map bal_bucket (bucketBalancesOf w u now))"
  by (simp add: bucketBalancesOf_def)

lemma ledger_of_on_grid: "ledger_on_grid (wb_ledger w) \<Longrightarrow> ledger_on_grid (ledger_of w u)"
  by (simp add: ledger_on_grid_def ledger_of_def)

lemma counted_sum_on_grid: "ledger_on_grid (wb_ledger w) \<Longrightarrow> on_grid (counted_sum w u now b)"
  by (simp add: counted_sum_live live_sum_on_grid ledger_of_on_grid)

text \<open>What an account has, from the ledger: in every bucket what is live, and no bucket pays for another's debt.\<close>

definition account_funds :: "web \<Rightarrow> string \<Rightarrow> int \<Rightarrow> jsnum" where
  "account_funds w u now = (\<Sum>b\<leftarrow>SPEND_ORDER. max 0 (sum_list (map delta (live_entries now b (ledger_of w u)))))"

lemma total_by_bucket:
  assumes "distinct (map bal_bucket bals)" and "\<And>b. available_in bals b = f b" and "\<And>b. on_grid (f b)"
  shows "totalAvailable bals = (\<Sum>b\<leftarrow>SPEND_ORDER. max 0 (f b))"
proof -
  have "bal_balance x = f (bal_bucket x)" if "x \<in> set bals" for x
  proof -
    have "find (\<lambda>y. bal_bucket y = bal_bucket x) bals = Some x"
      using assms(1) that by (induction bals) (auto simp: rev_image_eqI)
    then show ?thesis using assms(2) [of "bal_bucket x"] by (simp add: available_in_def)
  qed
  then have "balances_on_grid bals" using assms(3) by (simp add: balances_on_grid_def)
  then show ?thesis using available_in_bucket_sum [OF assms(1)] by (simp add: totalAvailable_exact assms(2))
qed

lemma availableCredits_funds: "ledger_on_grid (wb_ledger w) \<Longrightarrow> availableCredits w u now = account_funds w u now"
  unfolding availableCredits_def account_funds_def
  by (rule total_by_bucket) (simp_all add: bucketBalancesOf_distinct bucketBalancesOf_available counted_sum_live live_sum_on_grid ledger_of_on_grid)

lemma bucketBalances_funds: "ledger_on_grid (wb_ledger w) \<Longrightarrow> totalAvailable (bucketBalances (ledger_of w u) now) = account_funds w u now"
  unfolding account_funds_def
  by (rule total_by_bucket) (simp_all add: bucketBalances_distinct available_in_bucketBalances live_sum_on_grid ledger_of_on_grid)

lemma refreshed_funds:
  assumes "ledger_on_grid (wb_ledger w)" and "gw_row g = Some (balance_of w u now)"
  shows "totalAvailable (readBuckets g) = account_funds w u now"
  unfolding account_funds_def
proof (rule total_by_bucket)
  fix b
  show "available_in (readBuckets g) b = sum_list (map delta (live_entries now b (ledger_of w u)))"
    using assms(2) by (cases b) (simp_all add: readBuckets_available row_field_def balance_of_def counted_sum_live)
qed (simp_all add: readBuckets_distinct live_sum_on_grid ledger_of_on_grid assms(1))

section \<open>Writes: facts\<close>

lemma numeric4_on_grid [simp, grid_intros]: "on_grid (numeric4 x)"
  by (auto simp: numeric4_def on_grid_iff simp flip: of_int_minus minus_divide_left)

lemma numeric4_id: "on_grid x \<Longrightarrow> numeric4 x = x"
proof (elim on_gridE)
  fix k assume x: "x = of_int k / 10000"
  have "\<lfloor>of_int j + 1 / 2 :: rat\<rfloor> = j" for j by (simp add: floor_eq_iff)
  from this [of k] this [of "- k"] show "numeric4 x = x" by (simp add: numeric4_def x)
qed

text \<open>A ledger that has grown: old entries stay where they are.\<close>

definition grown :: "web \<Rightarrow> web \<Rightarrow> bool" where
  "grown w w' \<longleftrightarrow> (\<exists>new. wb_ledger w' = wb_ledger w @ new \<and> ledger_on_grid new)"

lemma grown_refl [simp]: "wb_ledger w' = wb_ledger w \<Longrightarrow> grown w w'"
  by (simp add: grown_def)

lemma grown_trans [trans]: "grown w w1 \<Longrightarrow> grown w1 w2 \<Longrightarrow> grown w w2"
  by (auto simp: grown_def)

lemma grown_keys: "grown w w' \<Longrightarrow> set (ledger_keys w) \<subseteq> set (ledger_keys w')"
  by (auto simp: grown_def ledger_keys_def set_map_filter)

lemma grown_insert: "on_grid (delta x) \<Longrightarrow> grown w (snd (ledger_insert x w))"
  by (auto simp: ledger_insert_def grown_def)

lemma ledger_insert_new: "idempotencyKey x = Some k \<Longrightarrow> k \<in> set (ledger_keys (snd (ledger_insert x w)))"
  by (auto simp: ledger_insert_def ledger_keys_def set_map_filter)

lemma ledger_insert_known: "idempotencyKey x = Some k \<Longrightarrow> k \<in> set (ledger_keys w) \<Longrightarrow> ledger_insert x w = (False, w)"
  by (force simp: ledger_insert_def ledger_keys_def set_map_filter)

lemma ledger_insert_others:
  "wb_users (snd (ledger_insert x w)) = wb_users w" "wb_auth (snd (ledger_insert x w)) = wb_auth w"
  "wb_balances (snd (ledger_insert x w)) = wb_balances w" "wb_sessions (snd (ledger_insert x w)) = wb_sessions w"
  by (simp_all add: ledger_insert_def)

lemma intent_entry_simps [simp]:
  "on_grid (delta (intent_entry rq u i x))" "idempotencyKey (intent_entry rq u i x) = Some (intent_key x)"
  by (simp_all add: intent_entry_def)

lemma insert_intents_spec:
  assumes "insert_intents rq u i xs ((a, s), w) = Some (c, w')"
  shows "grown w w' \<and> intent_key ` set xs \<subseteq> set (ledger_keys w') \<and> (distinct (ledger_keys w) \<longrightarrow> distinct (ledger_keys w'))
    \<and> fst c + snd c = a + s + length xs"
  using assms
proof (induction xs arbitrary: i a s w)
  case (Cons x xs)
  obtain ins w1 where ins: "ledger_insert (intent_entry rq u i x) w = (ins, w1)" by fastforce
  have w1: "grown w w1" "intent_key x \<in> set (ledger_keys w1)" "distinct (ledger_keys w) \<Longrightarrow> distinct (ledger_keys w1)"
    using grown_insert [of "intent_entry rq u i x" w] ledger_insert_new [of "intent_entry rq u i x" "intent_key x" w]
      ledger_insert_keys [of w "intent_entry rq u i x"] ins by simp_all
  have "\<exists>a' s'. a' + s' = Suc (a + s) \<and> insert_intents rq u (Suc i) xs ((a', s'), w1) = Some (c, w')"
    using Cons.prems ins
    by (intro exI [of _ "if ins then Suc a else a"] exI [of _ "if ins then s else Suc s"]) (cases ins; simp split: if_splits)
  then obtain a' s' where st: "a' + s' = Suc (a + s)" and run: "insert_intents rq u (Suc i) xs ((a', s'), w1) = Some (c, w')" by blast
  note IH = Cons.IH [OF run]
  have k: "intent_key x \<in> set (ledger_keys w')" using IH w1(2) grown_keys by blast
  have g: "grown w w'" using w1(1) IH grown_trans by blast
  show ?case using IH st w1(3) k g by simp
qed auto

text \<open>Keys that are all there are skipped, whoever the user is.\<close>

lemma insert_intents_known:
  "intent_key ` set xs \<subseteq> set (ledger_keys w) \<Longrightarrow> insert_intents rq u i xs ((a, s), w) = Some ((a, s + length xs), w)"
  by (induction xs arbitrary: i s) (simp_all add: ledger_insert_known)

lemma upsert_ledger: "upsert_subscription row w = Some w' \<Longrightarrow> wb_ledger w' = wb_ledger w"
  by (auto simp: upsert_subscription_def split: if_splits)

lemma update_user_ledger [simp]: "wb_ledger (update_user u f w) = wb_ledger w"
  by (simp add: update_user_def)

lemma recordAudit_ledger [simp]: "wb_ledger (recordAudit a b c d w) = wb_ledger w"
  by (simp add: recordAudit_def)

lemma apply_plan_change_ledger: "apply_plan_change e rq u c w = Some w' \<Longrightarrow> wb_ledger w' = wb_ledger w"
  by (auto simp: apply_plan_change_def Let_def dest!: upsert_ledger split: option.splits if_splits)

lemma ledger_keys_cong: "wb_ledger w' = wb_ledger w \<Longrightarrow> ledger_keys w' = ledger_keys w"
  by (simp add: ledger_keys_def)

lemma refresh_ledger: "refreshBalance u now w = Some w' \<Longrightarrow> wb_ledger w' = wb_ledger w"
  by (auto simp: refreshBalance_def split: if_splits)

lemma applyOutcome_spec:
  assumes "applyOutcome e rq u outcome ev w = Some (c, w')"
  shows "grown w w' \<and> intent_key ` set (out_ledger outcome) \<subseteq> set (ledger_keys w')
    \<and> (distinct (ledger_keys w) \<longrightarrow> distinct (ledger_keys w')) \<and> fst c + snd c = length (out_ledger outcome)"
proof -
  obtain w1 w2 where ins: "insert_intents rq u 0 (out_ledger outcome) ((0, 0), w) = Some (c, w1)"
    and pc: "apply_plan_change e rq u (out_planChange outcome) w1 = Some w2" and w': "w' = recordAudit None ''billing.paddle_event'' ev None w2"
    using assms by (auto simp: applyOutcome_def split: option.splits)
  have same: "wb_ledger w' = wb_ledger w1" using apply_plan_change_ledger [OF pc] w' by simp
  then show ?thesis
    using insert_intents_spec [OF ins] ledger_keys_cong [OF same] by (auto simp: grown_def)
qed

lemma applyOutcome_known:
  assumes "intent_key ` set (out_ledger outcome) \<subseteq> set (ledger_keys w)"
  shows "applyOutcome e rq u outcome ev w =
    map_option (\<lambda>w2. ((0, length (out_ledger outcome)), recordAudit None ''billing.paddle_event'' ev None w2))
      (apply_plan_change e rq u (out_planChange outcome) w)"
  using insert_intents_known [OF assms, of rq u 0 0 0] by (simp add: applyOutcome_def split: option.split)

section \<open>The webhook: facts\<close>

text \<open>What a signed body is to the code: its event, its outcome and the keys of its intents.\<close>

definition body_outcome :: "web_env \<Rightarrow> paddle_env \<Rightarrow> paddle_body \<Rightarrow> string \<Rightarrow> int \<Rightarrow> paddle_outcome" where
  "body_outcome e p payload u now = outcomeFor (event_of p payload u) (loadCatalog e (pe_catalog p)) now"

lemma completed_keys_alone:
  "map intent_key (out_ledger (completedTransaction event catalog now)) =
     map (\<lambda>(i, x). item_key (eventId event) i) (filter (\<lambda>(i, x). findCatalogEntry catalog (item_priceId x) \<noteq> None) (enumerate 0 (event_items event)))"
proof -
  have "item_intent event catalog now p \<noteq> None \<longleftrightarrow> findCatalogEntry catalog (item_priceId (snd p)) \<noteq> None" for p
    by (auto simp: item_intent_def split: option.splits)
  then show ?thesis
    unfolding completedTransaction_ledger map_filter_keys by (simp add: case_prod_unfold)
qed

lemma intents_keys_alone:
  assumes "eventId f = eventId event" "eventType f = eventType event" "event_items f = event_items event" "refundCredits f = refundCredits event"
  shows "map intent_key (out_ledger (intentsForEvent f catalog now')) = map intent_key (out_ledger (intentsForEvent event catalog now))"
  using assms
  by (simp add: intentsForEvent_def completed_keys_alone subscriptionChange_def refund_outcome_def Let_def split: option.splits)

lemma body_keys_alone:
  "map intent_key (out_ledger (body_outcome e p payload u' now')) = map intent_key (out_ledger (body_outcome e p payload u now))"
  unfolding body_outcome_def outcomeFor_def by (rule intents_keys_alone) (simp_all add: event_of_def)

lemma webhook_cases:
  obtains (untouched) "snd (webhook e p rq raw w) = w"
  | (applied) payload u counts w1 where "pe_parse p raw = Some (Some payload)" "truthy (pe_secret p)"
      "paddle_verifySignature e p raw (rq_header rq ''paddle-signature'') (the (pe_secret p)) (rq_now rq div 1000) 300"
      "truthy (pb_event_id payload)" "truthy (pb_event_type payload)"
      "resolveUserId payload w = Some u"
      "applyOutcome e rq u (body_outcome e p payload u (rq_now rq)) (eventId (event_of p payload u)) w = Some (counts, w1)"
      "webhook e p rq raw w = (case refreshBalance u (rq_now rq) w1 of
          None \<Rightarrow> (fail_with 500 ''EXCEPTION'', w1) | Some w2 \<Rightarrow> (respond 200 (Some counts), w2))"
proof (cases "snd (webhook e p rq raw w) = w")
  case False
  then show ?thesis
    using applied
    by (auto simp: webhook_def Let_def body_outcome_def truthy_iff split: if_splits option.splits)
qed (rule untouched)

lemma webhook_grown: "grown w (snd (webhook e p rq raw w)) \<and> (distinct (ledger_keys w) \<longrightarrow> distinct (ledger_keys (snd (webhook e p rq raw w))))"
proof (cases rule: webhook_cases [of e p rq raw w])
  case untouched
  then show ?thesis by simp
next
  case (applied payload u counts w1)
  have led: "wb_ledger (snd (webhook e p rq raw w)) = wb_ledger w1"
    unfolding applied(8) by (auto dest: refresh_ledger split: option.split)
  show ?thesis using applyOutcome_spec [OF applied(7)] ledger_keys_cong [OF led] led by (auto simp: grown_def)
qed

end
