(* ===== verification/Web_Sessions.thy ===== *)
theory Web_Sessions
  imports Billing_Store Upstream_Stt Openrouter Auth
begin

text \<open>
  What a signed-in user does besides the account: start a session (\<open>api/session/start\<close> with \<open>relay-jwt.ts\<close> and \<open>projector-token.ts\<close>),
  renew the link of the projector, keep glossaries (\<open>glossary.ts\<close> and its routes), take the data home (\<open>api/account/export\<close>), and
  the health route. The signature of the session token is a parameter, which may throw.
\<close>

section \<open>Projector links and session tokens\<close>

record session_env =
  se_app_url :: string
  se_relay_url :: string
  se_sign :: "relay_jwt_claims \<Rightarrow> string option"

text \<open>\<open>url.replace(/\/$/, '')\<close>\<close>

definition strip_slash :: "string \<Rightarrow> string" where
  "strip_slash url = (if url \<noteq> [] \<and> last url = CHR ''/'' then butlast url else url)"

record projector_token =
  pj_token :: string
  pj_hash :: string
  pj_url :: string

definition web_hashProjectorToken :: "web_env \<Rightarrow> string \<Rightarrow> string" where
  "web_hashProjectorToken e token = we_sha256 e token"

definition projectorUrl :: "session_env \<Rightarrow> string \<Rightarrow> string" where
  "projectorUrl s token = strip_slash (se_app_url s) @ ''/projector/'' @ token"

definition issueProjectorToken :: "web_env \<Rightarrow> session_env \<Rightarrow> request \<Rightarrow> projector_token" where
  "issueProjectorToken e s rq =
     (let token = ''pt_'' @ rq_token rq
      in \<lparr>pj_token = token, pj_hash = web_hashProjectorToken e token, pj_url = projectorUrl s token\<rparr>)"

record minted =
  mi_jwt :: string
  mi_jti :: string
  mi_expiresAt :: int

definition mint_claims :: "request \<Rightarrow> string \<Rightarrow> string \<Rightarrow> string \<Rightarrow> jsnum \<Rightarrow> session_config \<Rightarrow> relay_jwt_claims" where
  "mint_claims rq userId sessionId plan amount config =
     (let now = rq_now rq div 1000
      in \<lparr>claim_sub = userId, claim_sid = sessionId, claim_aud = RELAY_JWT_AUDIENCE, claim_jti = rq_id rq 1,
          claim_plan = plan, claim_reserved = amount, claim_cfg = config, claim_exp = now + RELAY_JWT_TTL_SECONDS,
          claim_iat = now\<rparr>)"

definition mintRelayJwt :: "session_env \<Rightarrow> request \<Rightarrow> string \<Rightarrow> string \<Rightarrow> string \<Rightarrow> jsnum \<Rightarrow> session_config \<Rightarrow> minted option" where
  "mintRelayJwt s rq userId sessionId plan amount config =
     (let claims = mint_claims rq userId sessionId plan amount config
      in map_option (\<lambda>jwt. \<lparr>mi_jwt = jwt, mi_jti = claim_jti claims, mi_expiresAt = claim_exp claims * 1000\<rparr>) (se_sign s claims))"

section \<open>Starting a session\<close>

text \<open>An error of this route also says how many credits are needed.\<close>

type_synonym start_answer = "nat \<times> ((string \<times> jsnum option) + start_response)"

definition reject_start :: "nat \<Rightarrow> string \<Rightarrow> jsnum option \<Rightarrow> start_answer" where
  "reject_start status code needed = (status, Inl (code, needed))"

definition config_burn :: "session_config \<Rightarrow> burn_config" where
  "config_burn config = \<lparr>targetLanguages = int (length (sc_dstLangs config)), burn_voiceEnabled = vc_enabled (sc_voice config)\<rparr>"

definition reason_code :: "check_reason option \<Rightarrow> string" where
  "reason_code r = (case r of Some INVALID_CONFIG \<Rightarrow> ''INVALID_CONFIG'' | _ \<Rightarrow> ''PLAN_FEATURE_LOCKED'')"

text \<open>The gates that depend on the plan and the configuration alone.\<close>

definition config_gate :: "web \<Rightarrow> user_row \<Rightarrow> session_config \<Rightarrow> (nat \<times> string) option" where
  "config_gate w u config =
     (let plan = planOf (us_planCode u); planCheck = checkConfigAgainstPlan plan (config_burn config)
      in if \<not> check_ok planCheck then Some (403, reason_code (check_reason planCheck))
         else if truthy (sc_glossaryId config) \<and> \<not> glossaryEnabled plan then Some (403, ''PLAN_FEATURE_LOCKED'')
         else if truthy (sc_glossaryId config)
              \<and> find (\<lambda>g. gl_id g = the (sc_glossaryId config) \<and> gl_userId g = us_id u) (wb_glossaries w) = None
           then Some (400, ''INVALID_CONFIG'')
         else if vc_enabled (sc_voice config) \<and> truthy (vc_lang (sc_voice config))
              \<and> the (vc_lang (sc_voice config)) \<notin> set (sc_dstLangs config)
           then Some (400, ''INVALID_CONFIG'')
         else None)"

definition new_session_row :: "request \<Rightarrow> string \<Rightarrow> session_config \<Rightarrow> projector_token \<Rightarrow> started_row" where
  "new_session_row rq userId config projector =
     \<lparr>st_id = rq_id rq 0, st_userId = userId, st_srcLang = sc_srcLang config, st_dstLangs = sc_dstLangs config,
      st_voiceEnabled = vc_enabled (sc_voice config), st_voiceId = vc_voiceId (sc_voice config),
      st_tokenHash = pj_hash projector, st_burnRate = numeric4 (burnRatePerMinute (config_burn config)),
      st_startedAt = rq_now rq, st_endedAt = None\<rparr>"

text \<open>The block of the route's \<open>try\<close>, for a slot that has been taken.\<close>

definition open_session ::
    "web_env \<Rightarrow> session_env \<Rightarrow> request \<Rightarrow> user_row \<Rightarrow> session_config \<Rightarrow> jsnum \<Rightarrow> jsnum \<Rightarrow> web \<Rightarrow> start_answer \<times> web" where
  "open_session e s rq u config available amount w =
     (let projector = issueProjectorToken e s rq;
          row = new_session_row rq (us_id u) config projector;
          w = w\<lparr>wb_sessions := wb_sessions w @ [row]\<rparr>
      in (case mintRelayJwt s rq (us_id u) (st_id row) (plan_code_string (plan_code (planOf (us_planCode u)))) amount config of
            None \<Rightarrow> (reject_start 500 ''INTERNAL'' None, releaseConcurrencySlot (us_id u) (rq_now rq) w)
          | Some m \<Rightarrow>
              ((201, Inr \<lparr>sr_sessionId = st_id row, sr_jwt = mi_jwt m, sr_relayUrl = strip_slash (se_relay_url s) @ ''/session'',
                          sr_projectorToken = pj_token projector, sr_projectorUrl = pj_url projector,
                          sr_burnRatePerMin = burnRatePerMinute (config_burn config), sr_creditsAvailable = available,
                          sr_estimatedSeconds = estimateSeconds available (config_burn config)\<rparr>), w)))"

definition session_start ::
    "web_env \<Rightarrow> session_env \<Rightarrow> request \<Rightarrow> session_config option \<Rightarrow> web \<Rightarrow> start_answer \<times> cookie_change \<times> web" where
  "session_start e s rq body w =
     (case readAuthSession e rq w of
        (None, cookie, w) \<Rightarrow> (reject_start 401 ''UNAUTHORIZED'' None, cookie, w)
      | (Some auth, cookie, w) \<Rightarrow>
          let u = ac_user auth
          in (case consumeRateLimit Limit_sessionStart (us_id u) (rq_now rq) (rq_random rq) w of
                (limit, w) \<Rightarrow>
                  if \<not> rr_allowed limit then (reject_start 429 ''RATE_LIMITED'' None, cookie, w)
                  else if us_emailVerifiedAt u = None then (reject_start 403 ''EMAIL_NOT_VERIFIED'' None, cookie, w)
                  else if body = None \<or> \<not> SessionConfig_ok (we_is_uuid e) (the body)
                    then (reject_start 400 ''INVALID_CONFIG'' None, cookie, w)
                  else
                    let config = the body
                    in (case config_gate w u config of
                          Some (status, code) \<Rightarrow> (reject_start status code None, cookie, w)
                        | None \<Rightarrow>
                            let available = availableCredits w (us_id u) (rq_now rq);
                                window = creditsForSeconds (of_int RESERVATION_WINDOW_SECONDS) (config_burn config)
                            in if available \<le> 0 then (reject_start 402 ''INSUFFICIENT_CREDITS'' (Some window), cookie, w)
                               else
                                 (case acquireConcurrencySlot (us_id u) (maxConcurrentSessions (planOf (us_planCode u))) (rq_now rq) w of
                                    (None, w) \<Rightarrow> (reject_start 409 ''CONCURRENCY_LIMIT'' None, cookie, w)
                                  | (Some slot, w) \<Rightarrow>
                                      (case open_session e s rq u config available (min available window) w of
                                         (answer, w) \<Rightarrow> (answer, cookie, w))))))"

definition rotate_projector_token ::
    "web_env \<Rightarrow> session_env \<Rightarrow> request \<Rightarrow> string \<Rightarrow> web \<Rightarrow> projector_token answer \<times> cookie_change \<times> web" where
  "rotate_projector_token e s rq i w =
     (case readAuthSession e rq w of
        (None, cookie, w) \<Rightarrow> (fail_with 401 ''UNAUTHORIZED'', cookie, w)
      | (Some auth, cookie, w) \<Rightarrow>
          if \<not> we_is_uuid e i then (fail_with 400 ''INVALID_INPUT'', cookie, w)
          else
            let projector = issueProjectorToken e s rq;
                hit = (\<lambda>r. st_id r = i \<and> st_userId r = us_id (ac_user auth) \<and> st_endedAt r = None)
            in if \<not> list_ex hit (wb_sessions w) then (fail_with 404 ''NOT_FOUND'', cookie, w)
               else
                 (respond 200 projector, cookie,
                  recordAudit (Some (us_id (ac_user auth))) ''session.projector_token_rotated'' i (Some (clientIpHash e rq))
                    (w\<lparr>wb_sessions := map (\<lambda>r. if hit r then r\<lparr>st_tokenHash := pj_hash projector\<rparr> else r) (wb_sessions w)\<rparr>)))"

section \<open>Glossaries\<close>

datatype terms_error = Term_too_long jstring | Too_many_terms

definition MAX_GLOSSARIES_PER_USER :: nat where
  "MAX_GLOSSARIES_PER_USER = 20"

definition normal_term :: "jstring \<Rightarrow> jstring" where
  "normal_term candidate = collapse_ws (trim candidate)"

fun terms_loop :: "unicode \<Rightarrow> jstring list \<Rightarrow> jstring list \<Rightarrow> jstring list \<Rightarrow> terms_error + jstring list" where
  "terms_loop u seen terms [] = Inr terms"
| "terms_loop u seen terms (candidate # raw) =
     (let t = normal_term candidate
      in if t = [] then terms_loop u seen terms raw
         else if length t > GLOSSARY_MAX_TERM_LENGTH then Inl (Term_too_long t)
         else if lower u t \<in> set seen then terms_loop u seen terms raw
         else terms_loop u (lower u t # seen) (terms @ [t]) raw)"

definition normaliseTerms :: "unicode \<Rightarrow> jstring list \<Rightarrow> terms_error + jstring list" where
  "normaliseTerms u raw =
     (case terms_loop u [] [] raw of
        Inl err \<Rightarrow> Inl err
      | Inr terms \<Rightarrow> if length terms > GLOSSARY_MAX_TERMS then Inl Too_many_terms else Inr terms)"

text \<open>\<open>collate\<close> is the order of names in the database.\<close>

definition glossary_list ::
    "(glossary_row list \<Rightarrow> glossary_row list) \<Rightarrow> web_env \<Rightarrow> request \<Rightarrow> web \<Rightarrow> glossary_row list answer \<times> cookie_change \<times> web" where
  "glossary_list collate e rq w =
     (case readAuthSession e rq w of
        (None, cookie, w) \<Rightarrow> (fail_with 401 ''UNAUTHORIZED'', cookie, w)
      | (Some auth, cookie, w) \<Rightarrow>
          (respond 200 (collate (filter (\<lambda>g. gl_userId g = us_id (ac_user auth)) (wb_glossaries w))), cookie, w))"

definition glossary_create ::
    "unicode \<Rightarrow> web_env \<Rightarrow> request \<Rightarrow> glossary_upsert option \<Rightarrow> web \<Rightarrow> glossary_row answer \<times> cookie_change \<times> web" where
  "glossary_create uc e rq body w =
     (case readAuthSession e rq w of
        (None, cookie, w) \<Rightarrow> (fail_with 401 ''UNAUTHORIZED'', cookie, w)
      | (Some auth, cookie, w) \<Rightarrow>
          if \<not> glossaryEnabled (planOf (us_planCode (ac_user auth))) then (fail_with 403 ''PLAN_FEATURE_LOCKED'', cookie, w)
          else if body = None \<or> \<not> GlossaryUpsert_ok (the body) then (fail_with 400 ''INVALID_INPUT'', cookie, w)
          else
            (case normaliseTerms uc (gu_terms (the body)) of
               Inl err \<Rightarrow> (fail_with 400 ''INVALID_INPUT'', cookie, w)
             | Inr terms \<Rightarrow>
                 if length (filter (\<lambda>g. gl_userId g = us_id (ac_user auth)) (wb_glossaries w)) \<ge> MAX_GLOSSARIES_PER_USER
                 then (fail_with 409 ''LIMIT_REACHED'', cookie, w)
                 else
                   let row = \<lparr>gl_id = rq_id rq 0, gl_userId = us_id (ac_user auth), gl_name = trim (gu_name (the body)),
                              gl_terms = terms, gl_version = 1, gl_updatedAt = rq_now rq\<rparr>
                   in (respond 201 row, cookie, w\<lparr>wb_glossaries := wb_glossaries w @ [row]\<rparr>)))"

definition glossary_change :: "request \<Rightarrow> jstring \<Rightarrow> jstring list \<Rightarrow> glossary_row \<Rightarrow> glossary_row" where
  "glossary_change rq name terms g =
     g\<lparr>gl_name := trim name, gl_terms := terms, gl_version := gl_version g + 1, gl_updatedAt := rq_now rq\<rparr>"

definition glossary_update ::
    "unicode \<Rightarrow> web_env \<Rightarrow> request \<Rightarrow> string \<Rightarrow> glossary_upsert option \<Rightarrow> web \<Rightarrow> glossary_row answer \<times> cookie_change \<times> web" where
  "glossary_update uc e rq i body w =
     (case readAuthSession e rq w of
        (None, cookie, w) \<Rightarrow> (fail_with 401 ''UNAUTHORIZED'', cookie, w)
      | (Some auth, cookie, w) \<Rightarrow>
          if \<not> glossaryEnabled (planOf (us_planCode (ac_user auth))) then (fail_with 403 ''PLAN_FEATURE_LOCKED'', cookie, w)
          else if \<not> we_is_uuid e i then (fail_with 400 ''INVALID_INPUT'', cookie, w)
          else if body = None \<or> \<not> GlossaryUpsert_ok (the body) then (fail_with 400 ''INVALID_INPUT'', cookie, w)
          else
            (case normaliseTerms uc (gu_terms (the body)) of
               Inl err \<Rightarrow> (fail_with 400 ''INVALID_INPUT'', cookie, w)
             | Inr terms \<Rightarrow>
                 let hit = (\<lambda>g. gl_id g = i \<and> gl_userId g = us_id (ac_user auth));
                     change = glossary_change rq (gu_name (the body)) terms
                 in (case find hit (wb_glossaries w) of
                       None \<Rightarrow> (fail_with 404 ''NOT_FOUND'', cookie, w)
                     | Some g \<Rightarrow>
                         (respond 200 (change g), cookie,
                          w\<lparr>wb_glossaries := map (\<lambda>g. if hit g then change g else g) (wb_glossaries w)\<rparr>))))"

definition glossary_delete :: "web_env \<Rightarrow> request \<Rightarrow> string \<Rightarrow> web \<Rightarrow> bool answer \<times> cookie_change \<times> web" where
  "glossary_delete e rq i w =
     (case readAuthSession e rq w of
        (None, cookie, w) \<Rightarrow> (fail_with 401 ''UNAUTHORIZED'', cookie, w)
      | (Some auth, cookie, w) \<Rightarrow>
          if \<not> we_is_uuid e i then (fail_with 400 ''INVALID_INPUT'', cookie, w)
          else
            let hit = (\<lambda>g. gl_id g = i \<and> gl_userId g = us_id (ac_user auth))
            in if \<not> list_ex hit (wb_glossaries w) then (fail_with 404 ''NOT_FOUND'', cookie, w)
               else (respond 200 True, cookie, w\<lparr>wb_glossaries := filter (\<lambda>g. \<not> hit g) (wb_glossaries w)\<rparr>))"

section \<open>Export and health\<close>

text \<open>The columns that are selected. The billing profile is the whole row, of which the model keeps the owner; columns that
  the model's tables do not have are left out.\<close>

record account_data =
  ex_account :: "(string \<times> string \<times> int option \<times> string) option"
  ex_billingProfile :: "string option"
  ex_subscriptions :: "subscription_row list"
  ex_ledger :: "(jsnum \<times> ledger_reason \<times> credit_bucket \<times> string option \<times> int option \<times> int) list"
  ex_sessions :: "(string \<times> string \<times> string list \<times> bool \<times> jsnum \<times> int \<times> int option) list"
  ex_glossaries :: "(jstring \<times> jstring list) list"
  ex_consents :: "(string \<times> string \<times> bool) list"

definition collect_account :: "web \<Rightarrow> string \<Rightarrow> account_data" where
  "collect_account w i =
     \<lparr>ex_account = map_option (\<lambda>u. (us_id u, us_email u, us_emailVerifiedAt u, us_planCode u)) (user_by_id w i),
      ex_billingProfile = find (\<lambda>p. p = i) (wb_profiles w),
      ex_subscriptions = filter (\<lambda>s. sb_userId s = i) (wb_subscriptions w),
      ex_ledger = map (\<lambda>x. (delta x, reason x, bucket x, entry_sessionId x, expiresAt x, createdAt x))
                    (rev (sort_key createdAt (ledger_of w i))),
      ex_sessions = map (\<lambda>r. (st_id r, st_srcLang r, st_dstLangs r, st_voiceEnabled r, st_burnRate r, st_startedAt r, st_endedAt r))
                      (rev (sort_key st_startedAt (filter (\<lambda>r. st_userId r = i) (wb_sessions w)))),
      ex_glossaries = map (\<lambda>g. (gl_name g, gl_terms g)) (filter (\<lambda>g. gl_userId g = i) (wb_glossaries w)),
      ex_consents = map (\<lambda>c. (co_kind c, co_version c, co_granted c)) (filter (\<lambda>c. co_userId c = i) (wb_consents w))\<rparr>"

definition account_export :: "web_env \<Rightarrow> request \<Rightarrow> web \<Rightarrow> account_data answer \<times> cookie_change \<times> web" where
  "account_export e rq w =
     (case readAuthSession e rq w of
        (None, cookie, w) \<Rightarrow> (fail_with 401 ''UNAUTHORIZED'', cookie, w)
      | (Some auth, cookie, w) \<Rightarrow>
          (respond 200 (collect_account w (us_id (ac_user auth))), cookie,
           recordAudit (Some (us_id (ac_user auth))) ''account.export'' (us_id (ac_user auth)) (Some (clientIpHash e rq)) w))"

text \<open>The two probes: \<open>None\<close> for an exception.\<close>

definition probe :: "unit option \<Rightarrow> bool" where
  "probe answer = (answer \<noteq> None)"

definition health :: "unit option \<Rightarrow> unit option \<Rightarrow> nat \<times> bool \<times> bool \<times> bool" where
  "health database cache =
     (let healthy = probe database \<and> probe cache in (if healthy then 200 else 503, healthy, probe database, probe cache))"

end
