(* ===== verification/Web_Invariant.thy ===== *)
theory Web_Invariant
  imports Web_Sessions
begin

text \<open>
  What every request keeps: accounts with one address each and sessions of living accounts only, a ledger that grows, counts every
  idempotency key once and gives the trial once, and glossaries within the limits of the transcription service.
\<close>

section \<open>The invariant\<close>

definition living :: "web \<Rightarrow> string \<Rightarrow> bool" where
  "living w i \<longleftrightarrow> (\<exists>u \<in> set (wb_users w). us_id u = i \<and> us_deletedAt u = None)"

definition accounts_ok :: "web \<Rightarrow> bool" where
  "accounts_ok w \<longleftrightarrow>
     distinct (map us_id (wb_users w))
     \<and> distinct (map (\<lambda>u. ascii_lower (us_email u)) (filter (\<lambda>u. us_deletedAt u = None) (wb_users w)))
     \<and> (\<forall>r \<in> set (wb_auth w). living w (au_userId r))"

definition trial_key :: "string \<Rightarrow> string" where
  "trial_key i = ''trial_grant:'' @ i"

definition ledger_ok :: "web \<Rightarrow> bool" where
  "ledger_ok w \<longleftrightarrow>
     distinct (ledger_keys w) \<and> ledger_on_grid (wb_ledger w)
     \<and> (\<forall>x \<in> set (wb_ledger w). reason x = trial_grant \<longrightarrow>
          idempotencyKey x = Some (trial_key (entry_userId x))
          \<and> (\<exists>u \<in> set (wb_users w). us_id u = entry_userId x \<and> us_emailVerifiedAt u \<noteq> None))"

definition terms_ok :: "jstring list \<Rightarrow> bool" where
  "terms_ok ts \<longleftrightarrow> length ts \<le> GLOSSARY_MAX_TERMS \<and> (\<forall>t \<in> set ts. t \<noteq> [] \<and> length t \<le> GLOSSARY_MAX_TERM_LENGTH)"

definition glossaries_ok :: "web \<Rightarrow> bool" where
  "glossaries_ok w \<longleftrightarrow>
     (\<forall>g \<in> set (wb_glossaries w). terms_ok (gl_terms g))
     \<and> (\<forall>i. length (filter (\<lambda>g. gl_userId g = i) (wb_glossaries w)) \<le> MAX_GLOSSARIES_PER_USER)"

text \<open>What the invariant reads of a store.\<close>

definition core :: "web \<Rightarrow> user_row list \<times> auth_row list \<times> ledger_entry list \<times> glossary_row list" where
  "core w = (wb_users w, wb_auth w, wb_ledger w, wb_glossaries w)"

definition web_ok :: "web \<Rightarrow> bool" where
  "web_ok w \<longleftrightarrow> accounts_ok w \<and> ledger_ok w \<and> glossaries_ok w"

lemma web_ok_core: "core w' = core w \<Longrightarrow> web_ok w' = web_ok w"
  by (simp add: core_def web_ok_def accounts_ok_def ledger_ok_def glossaries_ok_def living_def ledger_keys_def)

lemma web_ok_empty: "web_ok empty_web"
  by (simp add: web_ok_def accounts_ok_def ledger_ok_def glossaries_ok_def empty_web_def ledger_keys_def map_filter_simps)

section \<open>Parts of a request that leave the core alone\<close>

lemma core_quiet [simp]:
  "core (set_ex now k v s w) = core w" "core (sendMail e a b c w) = core w" "core (recordAudit actor action target ip w) = core w"
  "core (snd (getdel now k w)) = core w" "core (snd (consumeRateLimit n k now m w)) = core w"
  "core (snd (acquireConcurrencySlot u l now w)) = core w" "core (releaseConcurrencySlot u now w) = core w"
  by (simp_all add: core_def set_ex_def sendMail_def recordAudit_def getdel_def consumeRateLimit_def acquireConcurrencySlot_def
      releaseConcurrencySlot_def Let_def split: option.split prod.split)

lemma core_rate: "consumeRateLimit n k now m w = (r, w') \<Longrightarrow> core w' = core w"
  using core_quiet(5) [of n k now m w] by simp

lemma core_slot: "acquireConcurrencySlot u l now w = (r, w') \<Longrightarrow> core w' = core w"
  using core_quiet(6) [of u l now w] by simp

lemma core_verification: "consumeEmailVerificationToken e now t w = (r, w') \<Longrightarrow> core w' = core w"
  using core_quiet(4) [of now _ w] by (metis consumeEmailVerificationToken_def snd_conv)

lemma core_getdel: "getdel now k w = (r, w') \<Longrightarrow> core w' = core w"
  using core_quiet(4) [of now k w] by simp

lemma core_reset: "consumePasswordResetToken e now t f w = (r, w') \<Longrightarrow> core w' = core w"
  by (auto simp: consumePasswordResetToken_def dest: core_getdel split: prod.splits if_splits)

lemma core_issue [simp]:
  "core (issueEmailVerificationToken e now t u w) = core w" "core (issuePasswordResetToken e now t u f w) = core w"
  by (simp_all add: issueEmailVerificationToken_def issuePasswordResetToken_def)

lemma core_updates [simp]:
  "core (w\<lparr>wb_consents := c\<rparr>) = core w" "core (w\<lparr>wb_sessions := s\<rparr>) = core w" "core (w\<lparr>wb_balances := b\<rparr>) = core w"
  "core (w\<lparr>wb_profiles := p\<rparr>) = core w" "core (w\<lparr>wb_subscriptions := s'\<rparr>) = core w"
  by (simp_all add: core_def)

section \<open>Steps on accounts\<close>

definition keeps_identity :: "(user_row \<Rightarrow> user_row) \<Rightarrow> bool" where
  "keeps_identity f \<longleftrightarrow>
     (\<forall>u. us_id (f u) = us_id u \<and> us_email (f u) = us_email u \<and> us_deletedAt (f u) = us_deletedAt u
        \<and> (us_emailVerifiedAt u \<noteq> None \<longrightarrow> us_emailVerifiedAt (f u) \<noteq> None))"

lemma map_users_ok:
  assumes "web_ok w" and "keeps_identity g"
  shows "web_ok (w\<lparr>wb_users := map g (wb_users w)\<rparr>)"
proof -
  let ?w = "w\<lparr>wb_users := map g (wb_users w)\<rparr>"
  have g: "us_id (g u) = us_id u" "us_email (g u) = us_email u" "us_deletedAt (g u) = us_deletedAt u"
    "us_emailVerifiedAt u \<noteq> None \<Longrightarrow> us_emailVerifiedAt (g u) \<noteq> None" for u
    using assms(2) by (simp_all add: keeps_identity_def)
  have ids: "map us_id (wb_users ?w) = map us_id (wb_users w)" by (simp add: g)
  have emails: "map (\<lambda>u. ascii_lower (us_email u)) (filter (\<lambda>u. us_deletedAt u = None) (wb_users ?w))
      = map (\<lambda>u. ascii_lower (us_email u)) (filter (\<lambda>u. us_deletedAt u = None) (wb_users w))"
    by (simp add: filter_map comp_def g)
  have liv: "living ?w j = living w j" for j by (simp add: living_def g)
  have "accounts_ok ?w"
    using assms(1) unfolding accounts_ok_def ids emails by (simp add: web_ok_def accounts_ok_def liv)
  moreover have "\<exists>u \<in> set (wb_users ?w). us_id u = j \<and> us_emailVerifiedAt u \<noteq> None"
    if "\<exists>u \<in> set (wb_users w). us_id u = j \<and> us_emailVerifiedAt u \<noteq> None" for j
  proof -
    obtain u where u: "u \<in> set (wb_users w)" "us_id u = j" "us_emailVerifiedAt u \<noteq> None" using \<open>\<exists>u \<in> set (wb_users w). _\<close> by blast
    show ?thesis by (rule bexI [of _ "g u"]) (use u g(1,4) in auto)
  qed
  ultimately show ?thesis
    using assms(1) by (simp add: web_ok_def ledger_ok_def glossaries_ok_def ledger_keys_def)
qed

lemma update_user_ok:
  assumes "web_ok w" and "keeps_identity f"
  shows "web_ok (update_user i f w)"
  unfolding update_user_def by (rule map_users_ok) (use assms in \<open>simp_all add: keeps_identity_def\<close>)

lemma living_users: "wb_users w' = wb_users w \<Longrightarrow> living w' i = living w i"
  by (simp add: living_def)

lemma create_ok:
  assumes "web_ok w" and "living w i" and "createAuthSession e rq i w = (c, w')"
  shows "web_ok w' \<and> wb_users w' = wb_users w"
proof -
  obtain r where w': "w' = w\<lparr>wb_auth := wb_auth w @ [r]\<rparr>" and r: "au_userId r = i"
    using assms(3) by (auto simp: createAuthSession_def)
  have liv: "living w' j = living w j" for j by (rule living_users) (simp add: w')
  show ?thesis
    using assms(1,2) liv r unfolding web_ok_def accounts_ok_def ledger_ok_def glossaries_ok_def ledger_keys_def
    by (simp add: w')
qed

lemma fewer_sessions_ok:
  assumes "web_ok w" and "set (wb_auth w') \<subseteq> set (wb_auth w)" and "wb_users w' = wb_users w" and "wb_ledger w' = wb_ledger w"
    and "wb_glossaries w' = wb_glossaries w"
  shows "web_ok w'"
  using assms
  by (auto simp: web_ok_def accounts_ok_def ledger_ok_def glossaries_ok_def living_def ledger_keys_def)

lemma revoke_ok: "web_ok w \<Longrightarrow> web_ok (revokeOtherSessions i k w)"
  by (erule fewer_sessions_ok) (auto simp: revokeOtherSessions_def)

lemma destroy_ok: "destroyAuthSession e rq w = (c, w') \<Longrightarrow> web_ok w \<Longrightarrow> web_ok w' \<and> wb_users w' = wb_users w"
  by (auto simp: destroyAuthSession_def elim!: fewer_sessions_ok split: if_splits)

lemma find_member: "find P xs = Some x \<Longrightarrow> x \<in> set xs \<and> P x"
  by (auto simp: find_Some_iff in_set_conv_nth)

lemma user_by_id_living: "user_by_id w i = Some u \<Longrightarrow> us_deletedAt u = None \<Longrightarrow> living w (us_id u) \<and> us_id u = i"
  by (auto simp: user_by_id_def living_def dest!: find_member)

lemma user_by_email_living: "user_by_email w m = Some u \<Longrightarrow> us_deletedAt u = None \<Longrightarrow> living w (us_id u)"
  by (auto simp: user_by_email_def living_def dest!: find_member)

text \<open>The session of a request: its user is alive, and at most an expiry moves.\<close>

lemma slide_ok: "slideIfStale now r t w = (c, w') \<Longrightarrow> web_ok w \<Longrightarrow> web_ok w' \<and> wb_users w' = wb_users w \<and> wb_ledger w' = wb_ledger w
    \<and> wb_glossaries w' = wb_glossaries w"
  by (auto simp: slideIfStale_def web_ok_def accounts_ok_def ledger_ok_def glossaries_ok_def living_def ledger_keys_def split: if_splits)

lemma session_rows_mem: "(r, u) \<in> set (session_rows w i now) \<Longrightarrow> r \<in> set (wb_auth w) \<and> u \<in> set (wb_users w) \<and> us_id u = au_userId r
    \<and> au_id r = i \<and> now < au_expiresAt r"
  by (auto simp: session_rows_def)

lemma read_session_ok:
  assumes "readAuthSession e rq w = (a, c, w')" and "web_ok w"
  shows "web_ok w' \<and> wb_users w' = wb_users w \<and> wb_ledger w' = wb_ledger w \<and> wb_glossaries w' = wb_glossaries w
    \<and> (\<forall>x. a = Some x \<longrightarrow> ac_user x \<in> set (wb_users w) \<and> us_deletedAt (ac_user x) = None)"
proof (cases "\<not> truthy (rq_cookie rq) \<or> session_rows w (we_sha256 e (the (rq_cookie rq))) (rq_now rq) = []")
  case True
  then show ?thesis using assms by (auto simp: readAuthSession_def split: if_splits)
next
  case False
  then obtain r u rest where rows: "session_rows w (we_sha256 e (the (rq_cookie rq))) (rq_now rq) = (r, u) # rest"
    by (metis neq_Nil_conv prod.exhaust)
  have u: "u \<in> set (wb_users w)" using session_rows_mem [of r u w] rows by (metis list.set_intros(1))
  show ?thesis
  proof (cases "us_deletedAt u = None")
    case False
    then show ?thesis using assms rows \<open>\<not> (_ \<or> _)\<close> by (simp add: readAuthSession_def)
  next
    case True
    obtain c1 w1 where slide: "slideIfStale (rq_now rq) r (the (rq_cookie rq)) w = (c1, w1)" by fastforce
    have eq: "readAuthSession e rq w = (Some \<lparr>ac_sessionId = au_id r, ac_user = u\<rparr>, c1, w1)"
      using True rows \<open>\<not> (_ \<or> _)\<close> slide by (simp add: readAuthSession_def)
    show ?thesis using slide_ok [OF slide assms(2)] assms(1) u True by (auto simp: eq)
  qed
qed

section \<open>Every route\<close>

text \<open>What a request makes of a store: the invariant again, and a ledger with nothing but new rows at its end.\<close>

definition kept :: "web \<Rightarrow> web \<Rightarrow> bool" where
  "kept w w' \<longleftrightarrow> web_ok w' \<and> grown w w'"

lemma kept_refl: "web_ok w \<Longrightarrow> kept w w"
  by (simp add: kept_def)

lemma kept_same: "kept w w1 \<Longrightarrow> core w2 = core w1 \<Longrightarrow> kept w w2"
  using web_ok_core [of w2 w1] by (auto simp: kept_def grown_def core_def)

lemma kept_ledger: "kept w w1 \<Longrightarrow> web_ok w2 \<Longrightarrow> wb_ledger w2 = wb_ledger w1 \<Longrightarrow> kept w w2"
  by (simp add: kept_def grown_def)

lemma kept_quiet [simp]:
  "kept w (set_ex now k v s w') = kept w w'" "kept w (sendMail e x y z w') = kept w w'"
  "kept w (recordAudit actor action target ip w') = kept w w'"
  "kept w (issueEmailVerificationToken e now t u w') = kept w w'" "kept w (issuePasswordResetToken e now t u f w') = kept w w'"
  "kept w (releaseConcurrencySlot u now w') = kept w w'"
  "kept w (w'\<lparr>wb_consents := c\<rparr>) = kept w w'" "kept w (w'\<lparr>wb_sessions := ss\<rparr>) = kept w w'"
  "kept w (w'\<lparr>wb_balances := b\<rparr>) = kept w w'" "kept w (w'\<lparr>wb_profiles := p\<rparr>) = kept w w'"
  "kept w (w'\<lparr>wb_subscriptions := s'\<rparr>) = kept w w'"
  by (rule iffI; erule kept_same; simp)+

lemma kept_rate: "consumeRateLimit n k now m w = (r, w') \<Longrightarrow> web_ok w \<Longrightarrow> kept w w' \<and> wb_users w' = wb_users w"
  using kept_same [OF kept_refl [of w]] core_rate [of n k now m w r w'] by (auto simp: core_def)

lemma kept_update: "kept w w1 \<Longrightarrow> keeps_identity f \<Longrightarrow> kept w (update_user i f w1)"
  by (rule kept_ledger [of w w1]) (simp_all add: kept_def update_user_ok)

lemma living_update: "keeps_identity f \<Longrightarrow> living (update_user i f w) j = living w j"
proof -
  assume f: "keeps_identity f"
  have "us_id (if us_id u = i then f u else u) = us_id u" "us_deletedAt (if us_id u = i then f u else u) = us_deletedAt u" for u
    using f by (simp_all add: keeps_identity_def)
  then show ?thesis by (simp add: living_def update_user_def del: if_image_distrib if_split)
qed

lemma kept_create:
  assumes "kept w w1" and "living w1 i" and "createAuthSession e rq i w1 = (c, w2)"
  shows "kept w w2"
proof -
  have "web_ok w2" using create_ok [OF _ assms(2,3)] assms(1) by (simp add: kept_def)
  moreover have "wb_ledger w2 = wb_ledger w1" using assms(3) by (auto simp: createAuthSession_def)
  ultimately show ?thesis using assms(1) kept_ledger by blast
qed

lemma kept_destroy:
  assumes "kept w w1"
  shows "kept w (snd (destroyAuthSession e rq w1))"
proof (rule kept_ledger [OF assms])
  show "web_ok (snd (destroyAuthSession e rq w1))"
    using destroy_ok [OF prod.collapse [symmetric]] assms by (simp add: kept_def)
  show "wb_ledger (snd (destroyAuthSession e rq w1)) = wb_ledger w1" by (simp add: destroyAuthSession_def)
qed

lemma destroy_users [simp]: "wb_users (snd (destroyAuthSession e rq w)) = wb_users w"
  by (simp add: destroyAuthSession_def)

text \<open>A new session of a user who is alive, after the old cookie's.\<close>

lemma kept_sign_in:
  assumes "kept w w1" and "living w1 i" and "createAuthSession e rq i (snd (destroyAuthSession e rq w1)) = (c, w2)"
  shows "kept w w2"
  by (rule kept_create [OF kept_destroy [OF assms(1)] _ assms(3)]) (use assms(2) living_users [OF destroy_users] in blast)

lemma kept_revoke: "kept w w1 \<Longrightarrow> kept w (revokeOtherSessions i k w1)"
  by (rule kept_ledger [of w w1]) (auto simp: kept_def revoke_ok, simp add: revokeOtherSessions_def)

lemma kept_rotate:
  assumes "kept w w1" and "living w1 i" and "rotateAuthSession e rq i w1 = (c, w2)"
  shows "kept w w2"
proof -
  have "living (revokeOtherSessions i None w1) i" using assms(2) by (simp add: living_def revokeOtherSessions_def)
  then show ?thesis using kept_create [OF kept_revoke [OF assms(1)] _ assms(3) [unfolded rotateAuthSession_def]] by blast
qed

lemma kept_read: "readAuthSession e rq w = (a, c, w') \<Longrightarrow> web_ok w \<Longrightarrow> kept w w'"
  using read_session_ok by (auto simp: kept_def)

lemma logout_kept: "web_ok w \<Longrightarrow> kept w (snd (snd (logout e rq w)))"
  using kept_destroy [OF kept_refl, of w e rq] by (simp add: logout_def split: prod.split)

lemma login_kept:
  assumes "web_ok w"
  shows "kept w (snd (snd (login e rq body w)))"
proof -
  obtain r w1 where rate: "consumeRateLimit Limit_login (clientIp_of (rq_header rq)) (rq_now rq) (rq_random rq) w = (r, w1)" by fastforce
  note k = kept_rate [OF rate assms]
  have "kept w w2" if "user_by_email w1 m = Some u" "us_deletedAt u = None"
    "createAuthSession e rq (us_id u) (snd (destroyAuthSession e rq w1)) = (c, w2)" for m u c w2
    using kept_sign_in [OF _ _ that(3)] user_by_email_living [OF that(1,2)] k by blast
  then show ?thesis using k by (auto simp: login_def rate Let_def split: option.split prod.split)
qed

lemma keeps_identity_simps [simp]:
  "keeps_identity (\<lambda>u. u\<lparr>us_passwordHash := h\<rparr>)" "keeps_identity (\<lambda>u. u\<lparr>us_emailVerifiedAt := Some t\<rparr>)"
  "keeps_identity (\<lambda>u. u\<lparr>us_planCode := pl\<rparr>)"
  "keeps_identity (\<lambda>u. if us_trialGrantedAt u = None then u\<lparr>us_trialGrantedAt := t'\<rparr> else u)"
  by (simp_all add: keeps_identity_def)

lemma resend_kept:
  assumes "web_ok w"
  shows "kept w (snd (snd (resend e rq body w)))"
proof -
  obtain r w1 where rate: "consumeRateLimit Limit_register (clientIp_of (rq_header rq)) (rq_now rq) (rq_random rq) w = (r, w1)" by fastforce
  then show ?thesis using kept_rate [OF rate assms] by (simp add: resend_def Let_def split: option.split)
qed

lemma forgot_kept:
  assumes "web_ok w"
  shows "kept w (snd (snd (forgot e rq body w)))"
proof (cases body)
  case (Some m)
  obtain r w1 where rate: "consumeRateLimit Limit_passwordReset (normal_email m) (rq_now rq) (rq_random rq) w = (r, w1)" by fastforce
  then show ?thesis using kept_rate [OF rate assms] Some assms by (simp add: forgot_def Let_def kept_refl split: option.split)
qed (simp add: forgot_def assms kept_refl)

lemma password_replaced_kept:
  assumes "kept w w1" and "living w1 (us_id u)"
  shows "kept w (snd (snd (password_replaced e rq u pw act w1)))"
proof -
  have set: "kept w (set_password e rq (us_id u) pw w1)" "living (set_password e rq (us_id u) pw w1) (us_id u)"
    using assms by (simp_all add: set_password_def kept_update living_update)
  then show ?thesis using kept_rotate [OF set] by (auto simp: password_replaced_def split: prod.split)
qed

lemma reset_kept:
  assumes "web_ok w"
  shows "kept w (snd (snd (reset_password e rq body w)))"
proof (cases body)
  case (Some b)
  obtain t pw where b: "b = (t, pw)" by fastforce
  obtain i w1 where c: "consumePasswordResetToken e (rq_now rq) t (userAgentFamily (rq_header rq)) w = (i, w1)" by fastforce
  have k: "kept w w1" using kept_same [OF kept_refl [OF assms] core_reset [OF c]] .
  show ?thesis
    using k assms user_by_id_living
    by (auto simp: reset_password_def Some b c kept_refl intro!: password_replaced_kept split: option.split)
qed (simp add: reset_password_def assms kept_refl)

lemma change_kept:
  assumes "web_ok w"
  shows "kept w (snd (snd (change_password e rq body w)))"
proof -
  obtain a c w1 where rd: "readAuthSession e rq w = (a, c, w1)" by (metis prod.exhaust)
  have k: "kept w w1" using kept_read [OF rd assms] .
  have liv: "living w1 (us_id u)" if "a = Some auth" "user_by_id w1 (us_id (ac_user auth)) = Some u" for auth u
  proof -
    have "us_id u = us_id (ac_user auth)" using find_member that(2) unfolding user_by_id_def by fastforce
    then show ?thesis using read_session_ok [OF rd assms] that(1) by (auto simp: living_def)
  qed
  show ?thesis
    using k liv
    by (cases a) (auto simp: change_password_def rd intro!: password_replaced_kept split: option.split)
qed

end
