(* ===== verification/Web_Kept.thy ===== *)
theory Web_Kept
  imports Web_Invariant
begin

text \<open>
  The rest of the routes keep the invariant of \<open>Web_Invariant\<close>: those that add accounts, rows of the ledger and glossaries.
\<close>

section \<open>Registration, verification, deletion\<close>

lemma ascii_lower_idem [simp]: "ascii_lower (ascii_lower s) = ascii_lower s"
proof -
  have down: "\<not> (CHR ''A'' \<le> d \<and> d \<le> CHR ''Z'')"
    if "CHR ''A'' \<le> c" "c \<le> CHR ''Z''" "d = char_of (of_char c + (32 :: nat))" for c d :: char
  proof -
    have "of_char d = (of_char c + 32) mod (256 :: nat)" using that(3) by simp
    moreover have "of_char c \<le> (90 :: nat)" "65 \<le> (of_char c :: nat)" using that(1,2) by (simp_all add: less_eq_char_def)
    ultimately have "90 < (of_char d :: nat)" by simp
    then show ?thesis by (simp add: less_eq_char_def)
  qed
  show ?thesis using down by (auto simp: ascii_lower_def)
qed

lemma add_user_ok:
  assumes "web_ok w" and "us_id u \<notin> us_id ` set (wb_users w)" and "user_by_email w (ascii_lower (us_email u)) = None"
  shows "web_ok (w\<lparr>wb_users := wb_users w @ [u]\<rparr>)"
proof -
  let ?w = "w\<lparr>wb_users := wb_users w @ [u]\<rparr>"
  have new: "ascii_lower (us_email u) \<noteq> ascii_lower (us_email v)" if "v \<in> set (wb_users w)" for v
    using assms(3) that by (auto simp: user_by_email_def find_None_iff)
  have "living ?w (au_userId r)" if "r \<in> set (wb_auth w)" for r
    using assms(1) that by (auto simp: web_ok_def accounts_ok_def living_def)
  moreover have "distinct (map (\<lambda>u. ascii_lower (us_email u)) (filter (\<lambda>u. us_deletedAt u = None) (wb_users w @ [u])))"
    using assms(1) new by (force simp: web_ok_def accounts_ok_def)
  moreover have "\<exists>u \<in> set (wb_users ?w). us_id u = j \<and> us_emailVerifiedAt u \<noteq> None"
    if "\<exists>u \<in> set (wb_users w). us_id u = j \<and> us_emailVerifiedAt u \<noteq> None" for j
    using that by auto
  ultimately show ?thesis
    using assms(1,2) by (simp add: web_ok_def accounts_ok_def ledger_ok_def glossaries_ok_def ledger_keys_def)
qed

lemma register_kept:
  assumes "web_ok w" and "rq_id rq 0 \<notin> us_id ` set (wb_users w)"
  shows "kept w (snd (snd (register e rq body w)))"
proof -
  obtain r w1 where rate: "consumeRateLimit Limit_register (clientIp_of (rq_header rq)) (rq_now rq) (rq_random rq) w = (r, w1)" by fastforce
  note k = kept_rate [OF rate assms(1)]
  have add: "kept w (w1\<lparr>wb_users := wb_users w1 @ [new_user e rq (normal_email m) pw], wb_consents := c\<rparr>)"
    if "user_by_email w1 (normal_email m) = None" for m pw c
  proof -
    have "web_ok (w1\<lparr>wb_users := wb_users w1 @ [new_user e rq (normal_email m) pw]\<rparr>)"
      using k assms(2) that by (intro add_user_ok) (simp_all add: new_user_def kept_def normal_email_def)
    then have "kept w (w1\<lparr>wb_users := wb_users w1 @ [new_user e rq (normal_email m) pw]\<rparr>)"
      using k kept_ledger [of w w1] by simp
    then show ?thesis by (rule kept_same) (simp add: core_def)
  qed
  show ?thesis
    using k add by (simp add: register_def rate Let_def split: option.split)
qed

text \<open>A new row of the ledger.\<close>

lemma insert_ok:
  assumes "web_ok w" and "on_grid (delta x)"
    and "reason x = trial_grant \<Longrightarrow> idempotencyKey x = Some (trial_key (entry_userId x))
        \<and> (\<exists>u \<in> set (wb_users w). us_id u = entry_userId x \<and> us_emailVerifiedAt u \<noteq> None)"
  shows "web_ok (snd (ledger_insert x w))"
proof -
  have "distinct (ledger_keys (snd (ledger_insert x w)))" using assms(1) ledger_insert_keys by (simp add: web_ok_def ledger_ok_def)
  moreover have "living (snd (ledger_insert x w)) i = living w i" for i by (simp add: living_def ledger_insert_others)
  moreover have "wb_glossaries (snd (ledger_insert x w)) = wb_glossaries w" by (simp add: ledger_insert_def)
  moreover have "ledger_on_grid (wb_ledger (snd (ledger_insert x w)))
      \<and> set (wb_ledger (snd (ledger_insert x w))) \<subseteq> insert x (set (wb_ledger w))"
    using assms(1,2) by (auto simp: ledger_insert_def web_ok_def ledger_ok_def)
  ultimately show ?thesis
    using assms(1,3) by (auto simp: web_ok_def accounts_ok_def ledger_ok_def glossaries_ok_def ledger_insert_others)
qed

lemma kept_insert:
  assumes "kept w w1" and "web_ok (snd (ledger_insert x w1))" and "on_grid (delta x)"
  shows "kept w (snd (ledger_insert x w1))"
  using assms grown_trans [OF _ grown_insert [OF assms(3)]] by (simp add: kept_def)

lemma kept_trial:
  assumes "kept w w1" and "u \<in> set (wb_users w1)" and "us_id u = i" and "us_emailVerifiedAt u \<noteq> None"
  shows "kept w (grant_trial rq i w1)"
  unfolding grant_trial_def
proof (rule kept_update)
  show "kept w (snd (ledger_insert (trial_entry rq i) w1))"
  proof (rule kept_insert [OF assms(1)])
    show "web_ok (snd (ledger_insert (trial_entry rq i) w1))"
      using assms by (intro insert_ok) (auto simp: kept_def trial_entry_def trial_key_def)
  qed (simp add: trial_entry_def)
qed simp

lemma living_grant: "living (grant_trial rq i w) j = living w j"
proof -
  have "living (snd (ledger_insert x w)) j = living w j" for x by (simp add: living_def ledger_insert_others)
  then show ?thesis by (simp add: grant_trial_def living_update)
qed

lemma verify_kept:
  assumes "web_ok w"
  shows "kept w (snd (snd (verify_email e rq body w)))"
proof (cases body)
  case (Some t)
  obtain i w1 where c: "consumeEmailVerificationToken e (rq_now rq) t w = (i, w1)" by fastforce
  have k: "kept w w1" using kept_same [OF kept_refl [OF assms] core_verification [OF c]] .
  have sign: "kept w (snd (createAuthSession e rq (us_id u) (snd (destroyAuthSession e rq w3))))"
    if u: "user_by_id w1 (the i) = Some u" "us_deletedAt u = None"
      and w3: "w3 = (if us_trialGrantedAt u = None then grant_trial rq (us_id u) w2 else w2)"
      and w2: "w2 = update_user (us_id u) (\<lambda>u. u\<lparr>us_emailVerifiedAt := Some (rq_now rq)\<rparr>) w1" for u w2 w3
  proof -
    have k2: "kept w w2" using k unfolding w2 by (rule kept_update) simp
    have liv: "living w2 (us_id u)" unfolding w2 using conjunct1 [OF user_by_id_living [OF u]] by (simp add: living_update)
    have "u \<in> set (wb_users w1)" using u(1) find_member by (fastforce simp: user_by_id_def)
    then have ver: "u\<lparr>us_emailVerifiedAt := Some (rq_now rq)\<rparr> \<in> set (wb_users w2)" unfolding w2 by (force simp: update_user_def)
    have "kept w (grant_trial rq (us_id u) w2)" using kept_trial [OF k2 ver] by simp
    then have "kept w w3" "living w3 (us_id u)" using k2 liv by (simp_all add: w3 living_grant)
    then show ?thesis using kept_sign_in [OF _ _ prod.collapse [symmetric]] by blast
  qed
  show ?thesis
  proof (cases "truthy i \<and> (\<exists>u. user_by_id w1 (the i) = Some u \<and> us_deletedAt u = None)")
    case True
    then obtain u where u: "user_by_id w1 (the i) = Some u" "us_deletedAt u = None" by blast
    define w2 where "w2 = update_user (us_id u) (\<lambda>u. u\<lparr>us_emailVerifiedAt := Some (rq_now rq)\<rparr>) w1"
    define w3 where "w3 = (if us_trialGrantedAt u = None then grant_trial rq (us_id u) w2 else w2)"
    have "kept w (snd (createAuthSession e rq (us_id u) (snd (destroyAuthSession e rq w3))))"
      by (rule sign [OF u w3_def w2_def])
    then have done1: "us_trialGrantedAt u = None \<Longrightarrow> kept w (snd (createAuthSession e rq (us_id u) (snd (destroyAuthSession e rq (grant_trial rq (us_id u) w2)))))"
      and done2: "us_trialGrantedAt u \<noteq> None \<Longrightarrow> kept w (snd (createAuthSession e rq (us_id u) (snd (destroyAuthSession e rq w2))))"
      by (simp_all add: w3_def del: not_None_eq)
    show ?thesis
      using True u assms done1 done2
      by (simp add: verify_email_def Some c Let_def kept_refl case_prod_unfold flip: w2_def)
  next
    case False
    then show ?thesis
      using k assms by (auto simp: verify_email_def Some c Let_def kept_refl split: option.split)
  qed
qed (simp add: verify_email_def assms kept_refl)

text \<open>Deletion takes the account out of the living and its sessions with it.\<close>

lemma delete_user_ok:
  assumes "web_ok w" and f: "\<And>u. us_id (f u) = us_id u \<and> us_deletedAt (f u) \<noteq> None \<and> us_emailVerifiedAt (f u) = us_emailVerifiedAt u"
  shows "web_ok (revokeOtherSessions i None (update_user i f w))"
proof -
  let ?g = "\<lambda>u. if us_id u = i then f u else u"
  let ?w = "revokeOtherSessions i None (update_user i f w)"
  have users: "wb_users ?w = map ?g (wb_users w)" by (simp add: update_user_def revokeOtherSessions_def)
  have ids: "map us_id (map ?g us) = map us_id us" for us using f by simp
  have emails: "map (\<lambda>u. ascii_lower (us_email u)) (filter (\<lambda>u. us_deletedAt u = None) (map ?g us))
      = map (\<lambda>u. ascii_lower (us_email u)) (filter (\<lambda>u. us_deletedAt u = None \<and> us_id u \<noteq> i) us)" for us
    using f by (induction us) auto
  have sub: "distinct (map h (filter P xs)) \<Longrightarrow> distinct (map h (filter (\<lambda>x. P x \<and> Q x) xs))" for h P Q and xs :: "user_row list"
    by (induction xs) (auto split: if_splits)
  have liv: "living ?w j" if "living w j" "j \<noteq> i" for j
    using that unfolding living_def users by (auto simp: image_iff split: if_splits)
  have ver: "\<exists>u \<in> set (wb_users ?w). us_id u = j \<and> us_emailVerifiedAt u \<noteq> None"
    if "\<exists>u \<in> set (wb_users w). us_id u = j \<and> us_emailVerifiedAt u \<noteq> None" for j
  proof -
    obtain u where u: "u \<in> set (wb_users w)" "us_id u = j" "us_emailVerifiedAt u \<noteq> None"
      using \<open>\<exists>u \<in> set (wb_users w). _\<close> by blast
    show ?thesis unfolding users by (rule bexI [of _ "?g u"]) (use u f in auto)
  qed
  have "accounts_ok ?w"
    using assms(1) liv sub unfolding accounts_ok_def users ids emails
    by (auto simp: web_ok_def accounts_ok_def revokeOtherSessions_def update_user_def)
  moreover have "ledger_ok ?w" using assms(1) ver
    by (simp add: web_ok_def ledger_ok_def ledger_keys_def) (simp add: revokeOtherSessions_def update_user_def)
  moreover have "glossaries_ok ?w" using assms(1)
    by (simp add: web_ok_def glossaries_ok_def revokeOtherSessions_def update_user_def)
  ultimately show ?thesis by (simp add: web_ok_def)
qed

lemma kept_glossaries:
  assumes "kept w w1" and "\<forall>g \<in> set gs. terms_ok (gl_terms g)"
    and "\<forall>i. length (filter (\<lambda>g. gl_userId g = i) gs) \<le> MAX_GLOSSARIES_PER_USER"
  shows "kept w (w1\<lparr>wb_glossaries := gs\<rparr>)"
proof (rule kept_ledger [OF assms(1)])
  show "web_ok (w1\<lparr>wb_glossaries := gs\<rparr>)"
    using assms by (simp add: kept_def web_ok_def accounts_ok_def ledger_ok_def glossaries_ok_def living_def ledger_keys_def)
qed simp

lemma kept_fewer_glossaries:
  assumes "kept w w1"
  shows "kept w (w1\<lparr>wb_glossaries := filter P (wb_glossaries w1)\<rparr>)"
proof (rule kept_glossaries [OF assms])
  have ok: "glossaries_ok w1" using assms by (simp add: kept_def web_ok_def)
  show "\<forall>g \<in> set (filter P (wb_glossaries w1)). terms_ok (gl_terms g)" using ok by (simp add: glossaries_ok_def)
  show "\<forall>i. length (filter (\<lambda>g. gl_userId g = i) (filter P (wb_glossaries w1))) \<le> MAX_GLOSSARIES_PER_USER"
  proof
    fix i
    have "length (filter (\<lambda>g. gl_userId g = i) (filter P gs)) \<le> length (filter (\<lambda>g. gl_userId g = i) gs)" for gs
      by (induction gs) auto
    then show "length (filter (\<lambda>g. gl_userId g = i) (filter P (wb_glossaries w1))) \<le> MAX_GLOSSARIES_PER_USER"
      using ok order_trans unfolding glossaries_ok_def by blast
  qed
qed

lemma delete_kept:
  assumes "web_ok w"
  shows "kept w (snd (snd (delete_account e rq body w)))"
proof -
  obtain a c w1 where rd: "readAuthSession e rq w = (a, c, w1)" by (metis prod.exhaust)
  have k: "kept w w1" using kept_read [OF rd assms] .
  have gone: "kept w (snd (destroyAuthSession e rq (revokeOtherSessions i None (update_user i f
      (w1\<lparr>wb_profiles := ps, wb_glossaries := filter P (wb_glossaries w1)\<rparr>)))))"
    if f: "\<And>u. us_id (f u) = us_id u \<and> us_deletedAt (f u) \<noteq> None \<and> us_emailVerifiedAt (f u) = us_emailVerifiedAt u" for i f ps P
  proof (rule kept_destroy)
    let ?w2 = "w1\<lparr>wb_profiles := ps, wb_glossaries := filter P (wb_glossaries w1)\<rparr>"
    have "kept w (w1\<lparr>wb_profiles := ps\<rparr>)" using k by simp
    from kept_fewer_glossaries [OF this, of P] have "web_ok ?w2" by (simp add: kept_def)
    from delete_user_ok [OF this f] have ok: "web_ok (revokeOtherSessions i None (update_user i f ?w2))" .
    have "wb_ledger (revokeOtherSessions i None (update_user i f ?w2)) = wb_ledger w1"
      by (simp add: revokeOtherSessions_def)
    from kept_ledger [OF k ok this] show "kept w (revokeOtherSessions i None (update_user i f ?w2))" .
  qed
  have gone': "kept w (snd (destroyAuthSession e rq (revokeOtherSessions i None (update_user i
      (\<lambda>u. u\<lparr>us_email := m, us_passwordHash := None, us_totpSecretEnc := None, us_deletedAt := Some t\<rparr>)
      (w1\<lparr>wb_profiles := ps, wb_glossaries := filter P (wb_glossaries w1)\<rparr>)))))" for i m t ps P
    by (rule gone) simp
  show ?thesis
  proof (cases a)
    case None
    then show ?thesis using k by (simp add: delete_account_def rd)
  next
    case (Some auth)
    show ?thesis
    proof (cases body)
      case None
      then show ?thesis using k by (simp add: delete_account_def rd Some)
    next
      case body: (Some b)
      show ?thesis
        by (cases b; cases "user_by_id w1 (us_id (ac_user auth))")
          (simp_all add: delete_account_def rd Some body Let_def case_prod_unfold k gone')
    qed
  qed
qed

section \<open>Payments\<close>

lemma item_no_trial: "item_intent event catalog now p = Some x \<Longrightarrow> intent_reason x \<noteq> trial_grant"
  by (auto simp: item_intent_def split: option.splits catalog_kind.splits)

lemma intents_no_trial: "x \<in> set (out_ledger (intentsForEvent event catalog now)) \<Longrightarrow> intent_reason x \<noteq> trial_grant"
  by (auto simp: intentsForEvent_def completedTransaction_ledger set_map_filter subscriptionChange_def
      refund_outcome_def Let_def dest: item_no_trial split: if_splits option.splits)

lemma kept_intents:
  assumes "kept w w1" and "insert_intents rq u i xs ((a, s), w1) = Some (c, w2)" and "\<forall>x \<in> set xs. intent_reason x \<noteq> trial_grant"
  shows "kept w w2"
  using assms
proof (induction xs arbitrary: i a s w1)
  case (Cons x xs)
  let ?x = "intent_entry rq u i x"
  have "kept w (snd (ledger_insert ?x w1))"
    using Cons.prems by (intro kept_insert insert_ok) (auto simp: kept_def intent_entry_def)
  then show ?case
    using Cons.prems Cons.IH
    by (cases "ledger_insert ?x w1"; cases "fst (ledger_insert ?x w1)") (auto split: if_splits)
qed simp

lemma upsert_core: "upsert_subscription row w = Some w' \<Longrightarrow> core w' = core w"
  by (auto simp: upsert_subscription_def split: if_splits)

lemma kept_plan:
  assumes "kept w w1" and "apply_plan_change e rq u pc w1 = Some w2"
  shows "kept w w2"
proof (cases pc)
  case (Some change)
  let ?w = "update_user u (\<lambda>u. u\<lparr>us_planCode := change_planCode change\<rparr>) w1"
  have "kept w ?w" using assms(1) by (rule kept_update) simp
  then show ?thesis
    using assms(2) Some kept_same [of w ?w] upsert_core [of _ ?w]
    by (auto simp: apply_plan_change_def Let_def split: if_splits)
qed (use assms in \<open>simp add: apply_plan_change_def\<close>)

lemma kept_outcome:
  assumes "kept w w1" and "applyOutcome e rq u (intentsForEvent event catalog now) ev w1 = Some (c, w2)"
  shows "kept w w2"
proof -
  obtain w3 w4 where ins: "insert_intents rq u 0 (out_ledger (intentsForEvent event catalog now)) ((0, 0), w1) = Some (c, w3)"
    and pc: "apply_plan_change e rq u (out_planChange (intentsForEvent event catalog now)) w3 = Some w4"
    and w2: "w2 = recordAudit None ''billing.paddle_event'' ev None w4"
    using assms(2) by (auto simp: applyOutcome_def split: option.splits)
  have "kept w w3" using kept_intents [OF assms(1) ins] intents_no_trial by blast
  from kept_plan [OF this pc] show ?thesis by (simp add: w2)
qed

lemma refresh_core: "refreshBalance u now w = Some w' \<Longrightarrow> core w' = core w"
  by (auto simp: refreshBalance_def split: if_splits)

lemma webhook_kept:
  assumes "web_ok w"
  shows "kept w (snd (webhook e p rq raw w))"
proof (cases rule: webhook_cases [of e p rq raw w])
  case untouched
  then show ?thesis using assms by (simp add: kept_refl)
next
  case (applied payload u counts w1)
  have "kept w w1" using kept_outcome [OF kept_refl [OF assms]] applied(7) by (simp add: body_outcome_def outcomeFor_def)
  then show ?thesis unfolding applied(8) using kept_same refresh_core by (auto split: option.split)
qed

lemma checkout_kept:
  assumes "web_ok w"
  shows "kept w (snd (snd (checkout e p rq body w)))"
proof -
  obtain a c w1 where rd: "readAuthSession e rq w = (a, c, w1)" by (metis prod.exhaust)
  then show ?thesis using kept_read [OF rd assms]
    by (cases a) (simp_all add: checkout_def Let_def split: option.split)
qed

section \<open>Sessions and glossaries\<close>

lemma open_session_kept: "kept w w1 \<Longrightarrow> kept w (snd (open_session e s rq u config av am w1))"
  by (simp add: open_session_def Let_def split: option.split)

lemma session_start_kept:
  assumes "web_ok w"
  shows "kept w (snd (snd (session_start e s rq body w)))"
proof -
  obtain a c w1 where rd: "readAuthSession e rq w = (a, c, w1)" by (metis prod.exhaust)
  have k: "kept w w1" using kept_read [OF rd assms] .
  show ?thesis
  proof (cases a)
    case (Some auth)
    obtain r w2 where rate: "consumeRateLimit Limit_sessionStart (us_id (ac_user auth)) (rq_now rq) (rq_random rq) w1 = (r, w2)" by fastforce
    have k2: "kept w w2" using k by (rule kept_same) (rule core_rate [OF rate])
    have slot: "kept w w3" if "acquireConcurrencySlot u l now w2 = (sl, w3)" for u l now sl w3
      using k2 by (rule kept_same) (rule core_slot [OF that])
    show ?thesis
      using k2 open_session_kept [OF slot] slot
      by (auto simp: session_start_def rd Some rate Let_def split: option.split prod.split)
        (metis snd_conv)+
  qed (use k in \<open>simp add: session_start_def rd\<close>)
qed

lemma rotate_kept:
  assumes "web_ok w"
  shows "kept w (snd (snd (rotate_projector_token e s rq i w)))"
proof -
  obtain a c w1 where rd: "readAuthSession e rq w = (a, c, w1)" by (metis prod.exhaust)
  then show ?thesis using kept_read [OF rd assms]
    by (cases a) (simp_all add: rotate_projector_token_def Let_def)
qed

lemma export_kept:
  assumes "web_ok w"
  shows "kept w (snd (snd (account_export e rq w)))"
proof -
  obtain a c w1 where rd: "readAuthSession e rq w = (a, c, w1)" by (metis prod.exhaust)
  then show ?thesis using kept_read [OF rd assms] by (cases a) (simp_all add: account_export_def)
qed

text \<open>What passes \<open>normaliseTerms\<close> is within the limits.\<close>

lemma terms_loop_short:
  "terms_loop u seen out raw = Inr ts \<Longrightarrow> \<forall>t \<in> set out. t \<noteq> [] \<and> length t \<le> GLOSSARY_MAX_TERM_LENGTH \<Longrightarrow>
     \<forall>t \<in> set ts. t \<noteq> [] \<and> length t \<le> GLOSSARY_MAX_TERM_LENGTH"
proof (induction raw arbitrary: seen out)
  case (Cons c raw)
  let ?t = "normal_term c"
  have "?t \<noteq> [] \<Longrightarrow> length ?t \<le> GLOSSARY_MAX_TERM_LENGTH \<Longrightarrow>
      \<forall>t \<in> set (out @ [?t]). t \<noteq> [] \<and> length t \<le> GLOSSARY_MAX_TERM_LENGTH"
    using Cons.prems(2) by simp
  then show ?case
    using Cons.prems Cons.IH [of seen out] Cons.IH [of "lower u ?t # seen" "out @ [?t]"]
    by (simp add: Let_def not_less split: if_split_asm)
qed simp

lemma normaliseTerms_ok: "normaliseTerms u raw = Inr ts \<Longrightarrow> terms_ok ts"
  using terms_loop_short [of u "[]" "[]" raw ts]
  by (auto simp: normaliseTerms_def terms_ok_def split: sum.splits if_splits)

lemma glossary_list_kept:
  assumes "web_ok w"
  shows "kept w (snd (snd (glossary_list col e rq w)))"
proof -
  obtain a c w1 where rd: "readAuthSession e rq w = (a, c, w1)" by (metis prod.exhaust)
  then show ?thesis using kept_read [OF rd assms] by (cases a) (simp_all add: glossary_list_def)
qed

lemma glossary_create_kept:
  assumes "web_ok w"
  shows "kept w (snd (snd (glossary_create uc e rq body w)))"
proof -
  obtain a c w1 where rd: "readAuthSession e rq w = (a, c, w1)" by (metis prod.exhaust)
  have k: "kept w w1" using kept_read [OF rd assms] .
  have ok: "glossaries_ok w1" using k by (simp add: kept_def web_ok_def)
  have add: "kept w (w1\<lparr>wb_glossaries := wb_glossaries w1 @ [g]\<rparr>)"
    if "length (filter (\<lambda>g. gl_userId g = i) (wb_glossaries w1)) < MAX_GLOSSARIES_PER_USER" "gl_userId g = i" "terms_ok (gl_terms g)" for g i
    using k ok that by (intro kept_glossaries) (auto simp: glossaries_ok_def)
  show ?thesis
    using k add normaliseTerms_ok
    by (cases a) (auto simp: glossary_create_def rd Let_def not_le split: sum.split)
qed

lemma glossary_update_kept:
  assumes "web_ok w"
  shows "kept w (snd (snd (glossary_update uc e rq i body w)))"
proof -
  obtain a c w1 where rd: "readAuthSession e rq w = (a, c, w1)" by (metis prod.exhaust)
  have k: "kept w w1" using kept_read [OF rd assms] .
  have ok: "glossaries_ok w1" using k by (simp add: kept_def web_ok_def)
  have change: "kept w (w1\<lparr>wb_glossaries := map (\<lambda>g. if P g then glossary_change rq nm ts g else g) (wb_glossaries w1)\<rparr>)"
    if "terms_ok ts" for P nm ts
  proof (rule kept_glossaries [OF k])
    have "filter (\<lambda>g. gl_userId g = j) (map (\<lambda>g. if P g then glossary_change rq nm ts g else g) gs)
        = map (\<lambda>g. if P g then glossary_change rq nm ts g else g) (filter (\<lambda>g. gl_userId g = j) gs)" for j gs
      by (induction gs) (simp_all add: glossary_change_def)
    then show "\<forall>j. length (filter (\<lambda>g. gl_userId g = j) (map (\<lambda>g. if P g then glossary_change rq nm ts g else g) (wb_glossaries w1)))
        \<le> MAX_GLOSSARIES_PER_USER"
      using ok by (simp add: glossaries_ok_def)
  qed (use ok that in \<open>auto simp: glossaries_ok_def glossary_change_def\<close>)
  show ?thesis
  proof (cases a)
    case (Some auth)
    show ?thesis
    proof (cases "normaliseTerms uc (gu_terms (the body))")
      case (Inr ts)
      then show ?thesis
        by (simp add: glossary_update_def rd Some Let_def k change [OF normaliseTerms_ok [OF Inr]] split: option.split)
    qed (simp add: glossary_update_def rd Some Let_def k)
  qed (simp add: glossary_update_def rd k)
qed

lemma glossary_delete_kept:
  assumes "web_ok w"
  shows "kept w (snd (snd (glossary_delete e rq i w)))"
proof -
  obtain a c w1 where rd: "readAuthSession e rq w = (a, c, w1)" by (metis prod.exhaust)
  have k: "kept w w1" using kept_read [OF rd assms] .
  show ?thesis
    using k kept_fewer_glossaries [OF k] by (cases a) (simp_all add: glossary_delete_def rd Let_def)
qed

end
