(* ===== verification/Web_App.thy ===== *)
theory Web_App
  imports Web_Kept
begin

text \<open>
  The web application as a whole: its requests, one at a time, over the shared store, with the relay's flushes in between; and what holds
  after any sequence of them. Addresses of this theory's lemmas are the routes of \<open>Web_Auth\<close>, \<open>Billing_Store\<close> and \<open>Web_Sessions\<close>.
\<close>

section \<open>Requests\<close>

record web_app =
  wa_web :: web_env
  wa_paddle :: paddle_env
  wa_session :: session_env
  wa_unicode :: unicode
  wa_collate :: "glossary_row list \<Rightarrow> glossary_row list"

datatype web_call =
  Post_login "(string \<times> jstring) option"
| Post_logout
| Post_register "register_body option"
| Post_verify "string option"
| Post_resend "string option"
| Post_forgot "string option"
| Post_reset "(string \<times> jstring) option"
| Post_change "(jstring \<times> jstring) option"
| Post_delete "(jstring \<times> bool) option"
| Get_export
| Post_webhook string
| Post_checkout "(string \<times> bool) option"
| Post_session_start "session_config option"
| Post_projector_token string
| Get_glossaries
| Post_glossary "glossary_upsert option"
| Put_glossary string "glossary_upsert option"
| Delete_glossary string
| Relay_flush string string ledger_flush

text \<open>The relay's flush of \<open>Ledger_Gateway\<close> on the shared tables: its rows go to the ledger, its new balances to the user's row.\<close>

definition relay_view :: "web \<Rightarrow> string \<Rightarrow> gateway" where
  "relay_view w u = \<lparr>gw_row = map_of (wb_balances w) u, gw_usage = [], gw_hold = None\<rparr>"

definition usage_entry :: "request \<Rightarrow> string \<Rightarrow> nat \<Rightarrow> usage_row \<Rightarrow> ledger_entry" where
  "usage_entry rq u i x =
     \<lparr>entry_id = rq_id rq i, entry_userId = u, delta = numeric4 (use_delta x), reason = session_usage, bucket = use_bucket x,
      entry_sessionId = Some (use_sessionId x), idempotencyKey = Some (use_key x), expiresAt = None, createdAt = rq_now rq\<rparr>"

fun insert_usages :: "request \<Rightarrow> string \<Rightarrow> nat \<Rightarrow> usage_row list \<Rightarrow> web \<Rightarrow> web" where
  "insert_usages rq u i [] w = w"
| "insert_usages rq u i (x # xs) w = insert_usages rq u (Suc i) xs (snd (ledger_insert (usage_entry rq u i x) w))"

definition relay_flush :: "request \<Rightarrow> string \<Rightarrow> string \<Rightarrow> ledger_flush \<Rightarrow> web \<Rightarrow> web" where
  "relay_flush rq u sid entry w =
     (let g = gw_flush sid (relay_view w u) entry; w1 = insert_usages rq u 0 (gw_usage g) w
      in (case gw_row g of None \<Rightarrow> w1 | Some r \<Rightarrow> w1\<lparr>wb_balances := map_set u r (wb_balances w1)\<rparr>))"

fun serve :: "web_app \<Rightarrow> request \<Rightarrow> web_call \<Rightarrow> web \<Rightarrow> web" where
  "serve a rq (Post_login body) w = snd (snd (login (wa_web a) rq body w))"
| "serve a rq Post_logout w = snd (snd (logout (wa_web a) rq w))"
| "serve a rq (Post_register body) w = snd (snd (register (wa_web a) rq body w))"
| "serve a rq (Post_verify body) w = snd (snd (verify_email (wa_web a) rq body w))"
| "serve a rq (Post_resend body) w = snd (snd (resend (wa_web a) rq body w))"
| "serve a rq (Post_forgot body) w = snd (snd (forgot (wa_web a) rq body w))"
| "serve a rq (Post_reset body) w = snd (snd (reset_password (wa_web a) rq body w))"
| "serve a rq (Post_change body) w = snd (snd (change_password (wa_web a) rq body w))"
| "serve a rq (Post_delete body) w = snd (snd (delete_account (wa_web a) rq body w))"
| "serve a rq Get_export w = snd (snd (account_export (wa_web a) rq w))"
| "serve a rq (Post_webhook raw) w = snd (webhook (wa_web a) (wa_paddle a) rq raw w)"
| "serve a rq (Post_checkout body) w = snd (snd (checkout (wa_web a) (wa_paddle a) rq body w))"
| "serve a rq (Post_session_start body) w = snd (snd (session_start (wa_web a) (wa_session a) rq body w))"
| "serve a rq (Post_projector_token i) w = snd (snd (rotate_projector_token (wa_web a) (wa_session a) rq i w))"
| "serve a rq Get_glossaries w = snd (snd (glossary_list (wa_collate a) (wa_web a) rq w))"
| "serve a rq (Post_glossary body) w = snd (snd (glossary_create (wa_unicode a) (wa_web a) rq body w))"
| "serve a rq (Put_glossary i body) w = snd (snd (glossary_update (wa_unicode a) (wa_web a) rq i body w))"
| "serve a rq (Delete_glossary i) w = snd (snd (glossary_delete (wa_web a) rq i w))"
| "serve a rq (Relay_flush u sid entry) w = relay_flush rq u sid entry w"

fun web_run :: "web_app \<Rightarrow> web \<Rightarrow> (request \<times> web_call) list \<Rightarrow> web" where
  "web_run a w [] = w"
| "web_run a w ((rq, call) # rest) = web_run a (serve a rq call w) rest"

text \<open>The database draws ids that are not taken; only a registration needs it.\<close>

definition draws_fresh :: "request \<Rightarrow> web_call \<Rightarrow> web \<Rightarrow> bool" where
  "draws_fresh rq call w \<longleftrightarrow> (case call of Post_register body \<Rightarrow> rq_id rq 0 \<notin> us_id ` set (wb_users w) | _ \<Rightarrow> True)"

fun run_fresh :: "web_app \<Rightarrow> web \<Rightarrow> (request \<times> web_call) list \<Rightarrow> bool" where
  "run_fresh a w [] = True"
| "run_fresh a w ((rq, call) # rest) = (draws_fresh rq call w \<and> run_fresh a (serve a rq call w) rest)"

lemma web_run_append: "web_run a w (xs @ ys) = web_run a (web_run a w xs) ys"
  by (induction xs arbitrary: w) auto

lemma run_fresh_append: "run_fresh a w (xs @ ys) \<longleftrightarrow> run_fresh a w xs \<and> run_fresh a (web_run a w xs) ys"
  by (induction xs arbitrary: w) auto

section \<open>Every request keeps the invariant\<close>

lemma usages_kept: "kept w w1 \<Longrightarrow> kept w (insert_usages rq u i xs w1)"
proof (induction xs arbitrary: i w1)
  case (Cons x xs)
  have "kept w (snd (ledger_insert (usage_entry rq u i x) w1))"
    using Cons.prems by (intro kept_insert insert_ok) (auto simp: kept_def usage_entry_def)
  then show ?case using Cons.IH by simp
qed simp

lemma relay_flush_kept: "web_ok w \<Longrightarrow> kept w (relay_flush rq u sid entry w)"
  using usages_kept [OF kept_refl] by (simp add: relay_flush_def Let_def split: option.split)

lemma serve_kept: "web_ok w \<Longrightarrow> draws_fresh rq call w \<Longrightarrow> kept w (serve a rq call w)"
  by (cases call)
    (simp_all add: draws_fresh_def login_kept logout_kept register_kept verify_kept resend_kept forgot_kept reset_kept change_kept
      delete_kept export_kept webhook_kept checkout_kept session_start_kept rotate_kept glossary_list_kept glossary_create_kept
      glossary_update_kept glossary_delete_kept relay_flush_kept)

lemma run_kept: "web_ok w \<Longrightarrow> run_fresh a w cs \<Longrightarrow> kept w (web_run a w cs)"
proof (induction cs arbitrary: w)
  case (Cons c cs)
  obtain rq call where c: "c = (rq, call)" by fastforce
  have k: "kept w (serve a rq call w)" using serve_kept Cons.prems c by simp
  then have "kept (serve a rq call w) (web_run a w (c # cs))" using Cons c by (simp add: kept_def)
  then show ?case using k grown_trans by (auto simp: kept_def)
qed (simp add: kept_refl)

text \<open>One trial for an account: two grants would share a key.\<close>

lemma same_keys_short: "distinct (List.map_filter f xs) \<Longrightarrow> \<forall>x \<in> set xs. P x \<longrightarrow> f x = Some k \<Longrightarrow> length (filter P xs) \<le> 1"
proof (induction xs)
  case (Cons x xs)
  show ?case
  proof (cases "P x")
    case True
    then have f: "f x = Some k" using Cons.prems(2) by simp
    have "filter P xs = []"
    proof (rule ccontr)
      assume "filter P xs \<noteq> []"
      then obtain y where "y \<in> set xs" "P y" by (auto simp: filter_empty_conv)
      then have "k \<in> set (List.map_filter f xs)" using Cons.prems(2) by (auto simp: set_map_filter)
      then show False using Cons.prems(1) f by (simp add: map_filter_simps)
    qed
    then show ?thesis using True by simp
  next
    case False
    have "distinct (List.map_filter f xs)" using Cons.prems(1) by (cases "f x") (simp_all add: map_filter_simps)
    then show ?thesis using False Cons by simp
  qed
qed simp

lemma one_trial: "web_ok w \<Longrightarrow> length (filter (\<lambda>x. entry_userId x = i \<and> reason x = trial_grant) (wb_ledger w)) \<le> 1"
  by (rule same_keys_short [of idempotencyKey _ _ "trial_key i"]) (auto simp: web_ok_def ledger_ok_def ledger_keys_def)

section \<open>Properties\<close>

text \<open>
  C4: The store of the web application stays sound. After any sequence of requests, and of flushes of the relay, from the empty store:
  the ledger is append-only over every part of the sequence and holds no idempotency key twice; an account has at most one trial grant, and
  only with a verified address; every session cookie belongs to an account that is not deleted; living accounts have different addresses;
  no user has more than 20 glossaries, and none has a term that the transcription service would refuse.
\<close>

theorem web_store_stays_sound:
  assumes "run_fresh a empty_web (before @ after)"
  defines "w1 \<equiv> web_run a empty_web before" and "w2 \<equiv> web_run a empty_web (before @ after)"
  shows "(\<exists>new. wb_ledger w2 = wb_ledger w1 @ new)
    \<and> distinct (List.map_filter idempotencyKey (wb_ledger w2))
    \<and> (\<forall>i. length (filter (\<lambda>x. entry_userId x = i \<and> reason x = trial_grant) (wb_ledger w2)) \<le> 1)
    \<and> (\<forall>x \<in> set (wb_ledger w2). reason x = trial_grant \<longrightarrow>
         (\<exists>u \<in> set (wb_users w2). us_id u = entry_userId x \<and> us_emailVerifiedAt u \<noteq> None))
    \<and> (\<forall>r \<in> set (wb_auth w2). \<exists>u \<in> set (wb_users w2). us_id u = au_userId r \<and> us_deletedAt u = None)
    \<and> distinct (map (\<lambda>u. ascii_lower (us_email u)) (filter (\<lambda>u. us_deletedAt u = None) (wb_users w2)))
    \<and> (\<forall>i. length (filter (\<lambda>g. gl_userId g = i) (wb_glossaries w2)) \<le> 20)
    \<and> (\<forall>g \<in> set (wb_glossaries w2). length (gl_terms g) \<le> 50 \<and> (\<forall>t \<in> set (gl_terms g). t \<noteq> [] \<and> length t \<le> 20))"
proof -
  have w2: "w2 = web_run a w1 after" by (simp add: w1_def w2_def web_run_append)
  have k1: "kept empty_web w1" using run_kept [OF web_ok_empty] assms(1) by (simp add: w1_def run_fresh_append)
  then have k: "kept w1 w2" using run_kept [of w1 a after] assms(1) by (simp add: kept_def w2 w1_def run_fresh_append)
  then have ok: "web_ok w2" by (simp add: kept_def)
  have "\<exists>new. wb_ledger w2 = wb_ledger w1 @ new" using k by (auto simp: kept_def grown_def)
  moreover note one_trial [OF ok]
  moreover have "accounts_ok w2" "ledger_ok w2" "glossaries_ok w2" using ok by (simp_all add: web_ok_def)
  ultimately show ?thesis
    by (simp add: accounts_ok_def ledger_ok_def glossaries_ok_def ledger_keys_def living_def terms_ok_def
        MAX_GLOSSARIES_PER_USER_def GLOSSARY_MAX_TERMS_def GLOSSARY_MAX_TERM_LENGTH_def)
qed

definition demo_web :: web_env where
  "demo_web =
     \<lparr>we_sha256 = (\<lambda>s. CHR ''#'' # s), we_salt = [], we_argon_hash = (\<lambda>salt pw. ''argon''), we_argon_verify = (\<lambda>h pw. h = ''argon''),
      we_sha1 = (\<lambda>pw. ''000000''), we_pwned = (\<lambda>h. None), we_number = (\<lambda>s. Some 100), we_is_email = (\<lambda>s. True),
      we_is_uuid = (\<lambda>s. True), we_smtp_url = None, we_production = True\<rparr>"

definition demo_body :: paddle_body where
  "demo_body =
     \<lparr>pb_event_id = Some ''ev1'', pb_event_type = Some ''transaction.completed'', pb_id = None, pb_status = None,
      pb_subscription_id = None, pb_user_id = Some ''u1'', pb_email = None, pb_ends_at = None,
      pb_items = Some [\<lparr>pi_price_id_of_price = Some ''pri'', pi_price_id = None, pi_quantity = None\<rparr>]\<rparr>"

definition demo_paddle :: paddle_env where
  "demo_paddle =
     \<lparr>pe_secret = Some ''s'', pe_catalog = ''pri:topup:100'', pe_terms_version = ''1'', pe_hmac = (\<lambda>k m. ''ok''),
      pe_parse = (\<lambda>raw. Some (Some demo_body)), pe_date = (\<lambda>d. None)\<rparr>"

definition demo_session :: session_env where
  "demo_session = \<lparr>se_app_url = ''https://a/'', se_relay_url = ''wss://r'', se_sign = (\<lambda>c. Some ''jwt'')\<rparr>"

definition demo_app :: web_app where
  "demo_app =
     \<lparr>wa_web = demo_web, wa_paddle = demo_paddle, wa_session = demo_session,
      wa_unicode = latin_tables, wa_collate = (\<lambda>gs. gs)\<rparr>"

definition demo_rq :: request where
  "demo_rq =
     \<lparr>rq_now = 100000, rq_header = (\<lambda>h. if h = ''paddle-signature'' then Some ''ts=100;h1=ok'' else None), rq_cookie = Some ''tok'',
      rq_random = ''r'', rq_token = ''tok'', rq_id = (\<lambda>i. if i = 0 then ''u1'' else ''x'')\<rparr>"

text \<open>An account is made, confirmed with the token of its mail, and buys credits.\<close>

definition demo_calls :: "(request \<times> web_call) list" where
  "demo_calls =
     [(demo_rq, Post_register (Some \<lparr>rb_email = ''a@b.pl'', rb_password = replicate 12 97, rb_acceptTerms = True, rb_termsVersion = None\<rparr>)),
      (demo_rq\<lparr>rq_token := replicate 16 CHR ''t''\<rparr>, Post_resend (Some ''a@b.pl'')),
      (demo_rq, Post_verify (Some (replicate 16 CHR ''t''))),
      (demo_rq, Post_webhook ''{}'')]"

lemma demo_calls_fresh: "run_fresh demo_app empty_web demo_calls"
  by code_simp

lemma demo_ledger: "map delta (wb_ledger (web_run demo_app empty_web demo_calls)) = [10, 100]"
  by code_simp

theorem web_store_stays_sound_witness:
  "map delta (wb_ledger (web_run demo_app empty_web demo_calls)) = [10, 100]
   \<and> (\<forall>i. length (filter (\<lambda>x. entry_userId x = i \<and> reason x = trial_grant) (wb_ledger (web_run demo_app empty_web demo_calls))) \<le> 1)"
  using web_store_stays_sound [of demo_app "[]" demo_calls] demo_calls_fresh demo_ledger by simp

text \<open>
  C8: A webhook that comes again grants nothing. Once an event has been answered with its counts, a delivery of the same body leaves the ledger
  as it is, whatever the requests in between, the time, the signature and the account it now resolves to.
\<close>

theorem redelivered_webhook_grants_nothing:
  assumes "web_ok w" and "fst (webhook (wa_web a) (wa_paddle a) rq raw w) = (200, Inr (Some counts))"
    and "run_fresh a w ((rq, Post_webhook raw) # between)"
  defines "later \<equiv> web_run a w ((rq, Post_webhook raw) # between)"
  shows "wb_ledger (serve a rq' (Post_webhook raw) later) = wb_ledger later"
proof -
  let ?e = "wa_web a" and ?p = "wa_paddle a"
  obtain payload u w1 where pa: "pe_parse ?p raw = Some (Some payload)"
    and first: "applyOutcome ?e rq u (body_outcome ?e ?p payload u (rq_now rq)) (eventId (event_of ?p payload u)) w = Some (counts, w1)"
    and after: "wb_ledger (snd (webhook ?e ?p rq raw w)) = wb_ledger w1"
    using assms(2) refresh_ledger
    by (auto simp: webhook_def fail_with_def respond_def Let_def body_outcome_def split: if_splits option.splits)
  have k1: "kept w (snd (webhook ?e ?p rq raw w))" using webhook_kept [OF assms(1)] .
  have "kept (snd (webhook ?e ?p rq raw w)) later"
    using run_kept [of "snd (webhook ?e ?p rq raw w)" a between] k1 assms(3) by (simp add: later_def kept_def)
  then have keys: "set (ledger_keys w1) \<subseteq> set (ledger_keys later)"
    using grown_keys ledger_keys_cong [OF after] by (metis kept_def)
  have known: "intent_key ` set (out_ledger (body_outcome ?e ?p payload v now)) \<subseteq> set (ledger_keys later)" for v now
  proof -
    have "intent_key ` set (out_ledger (body_outcome ?e ?p payload v now)) = intent_key ` set (out_ledger (body_outcome ?e ?p payload u (rq_now rq)))"
      using arg_cong [OF body_keys_alone, of set] by (simp add: image_set del: set_map)
    then show ?thesis using applyOutcome_spec [OF first] keys by blast
  qed
  show ?thesis
  proof (cases rule: webhook_cases [of ?e ?p rq' raw later])
    case untouched
    then show ?thesis by simp
  next
    case (applied payload' v counts' w2)
    have "payload' = payload" using applied(1) pa by simp
    then have "wb_ledger w2 = wb_ledger later"
      using applied(7) applyOutcome_known [OF known] apply_plan_change_ledger by auto
    then show ?thesis unfolding serve.simps applied(8) using refresh_ledger by (auto split: option.split)
  qed
qed

definition demo_bought :: web where
  "demo_bought = empty_web\<lparr>wb_users := [new_user demo_web demo_rq ''a@b.pl'' []]\<rparr>"

theorem redelivered_webhook_grants_nothing_witness:
  "length (wb_ledger (serve demo_app demo_rq (Post_webhook ''{}'') demo_bought)) = 1
   \<and> length (wb_ledger (serve demo_app demo_rq (Post_webhook ''{}'') (serve demo_app demo_rq (Post_webhook ''{}'') demo_bought))) = 1"
proof -
  have ok: "web_ok demo_bought"
    by (simp add: web_ok_def accounts_ok_def ledger_ok_def glossaries_ok_def demo_bought_def empty_web_def ledger_keys_def
        map_filter_simps new_user_def)
  have first: "fst (webhook (wa_web demo_app) (wa_paddle demo_app) demo_rq ''{}'' demo_bought) = (200, Inr (Some (1, 0)))"
    by code_simp
  have fresh: "run_fresh demo_app demo_bought [(demo_rq, Post_webhook ''{}'')]" by (simp add: draws_fresh_def)
  have one: "length (wb_ledger (serve demo_app demo_rq (Post_webhook ''{}'') demo_bought)) = 1" by code_simp
  then show ?thesis using redelivered_webhook_grants_nothing [OF ok first fresh, of demo_rq] by simp
qed

text \<open>
  C9: One balance, computed three times. After any requests, the credits that the web application finds with its SQL aggregate
  are those of the reference \<open>bucketBalances\<close> over the user's ledger; and when the materialised balance has just been refreshed, they are what
  the relay reads from it for a session.
\<close>

theorem balances_agree:
  assumes "run_fresh a empty_web calls"
  defines "w \<equiv> web_run a empty_web calls"
  shows "availableCredits w u now = totalAvailable (bucketBalances (ledger_of w u) now)
     \<and> (\<forall>w'. refreshBalance u now w = Some w' \<longrightarrow> totalAvailable (readBuckets (relay_view w' u)) = availableCredits w u now)"
proof -
  have grid: "ledger_on_grid (wb_ledger w)"
    using run_kept [OF web_ok_empty assms(1)] by (simp add: w_def kept_def web_ok_def ledger_ok_def)
  have "totalAvailable (readBuckets (relay_view w' u)) = account_funds w u now" if "refreshBalance u now w = Some w'" for w'
    using that by (intro refreshed_funds [OF grid]) (auto simp: refreshBalance_def relay_view_def split: if_splits)
  then show ?thesis using availableCredits_funds [OF grid] bucketBalances_funds [OF grid] by simp
qed

theorem balances_agree_witness:
  "totalAvailable (bucketBalances (ledger_of (web_run demo_app empty_web demo_calls) ''u1'') 100000) = 110"
proof -
  have "availableCredits (web_run demo_app empty_web demo_calls) ''u1'' 100000 = 110" by code_simp
  then show ?thesis using balances_agree [OF demo_calls_fresh, of "''u1''" 100000] by simp
qed

section \<open>What the parts do to each other\<close>

text \<open>
  A trial that cannot be used: confirming an address puts the trial credits into the ledger, where the route that starts sessions finds
  them, but not into \<open>credit_balances\<close>, which is all the relay reads. Until a first payment the relay grants nothing.
\<close>

lemma verify_leaves_balances: "wb_balances (snd (snd (verify_email e rq body w))) = wb_balances w"
proof -
  have "wb_balances w1 = wb_balances w" if "consumeEmailVerificationToken e now t w = (i, w1)" for now t i w1
    using that by (auto simp: consumeEmailVerificationToken_def getdel_def split: option.splits)
  then show ?thesis
    by (auto simp: verify_email_def Let_def createAuthSession_def destroyAuthSession_def recordAudit_def update_user_def grant_trial_def
        ledger_insert_others split: option.split prod.split)
qed

lemma trial_credits_do_not_reach_the_relay:
  assumes "map_of (wb_balances w) u = None"
  shows "granted (fst (gw_reserve (relay_view (snd (snd (verify_email e rq body w))) u) amount)) = 0"
proof -
  have "totalAvailable (readBuckets (relay_view (snd (snd (verify_email e rq body w))) u)) = 0"
    by (simp add: readBuckets_def row_field_def relay_view_def verify_leaves_balances assms totalAvailable_def)
  then show ?thesis
    by (simp add: gw_reserve_def reserve_decide_def readBuckets_def row_field_def relay_view_def verify_leaves_balances assms hold_value_def)
qed

text \<open>The waiver of the 14 days is recorded by the checkout and read by nobody: the webhook grants at once.\<close>

lemma waiver_is_not_read:
  "webhook e p rq raw (w\<lparr>wb_consents := c\<rparr>) =
     (case webhook e p rq raw w of (answer, w') \<Rightarrow> (answer, w'\<lparr>wb_consents := c\<rparr>))"
proof -
  have users [simp]: "user_by_id (v\<lparr>wb_consents := c\<rparr>) i = user_by_id v i" for v i by (simp add: user_by_id_def)
  have insert: "ledger_insert x (v\<lparr>wb_consents := c\<rparr>) = (case ledger_insert x v of (b, v') \<Rightarrow> (b, v'\<lparr>wb_consents := c\<rparr>))" for x v
    by (simp add: ledger_insert_def)
  have intents: "insert_intents rq u i xs (n, v\<lparr>wb_consents := c\<rparr>) = map_option (\<lambda>(m, v'). (m, v'\<lparr>wb_consents := c\<rparr>)) (insert_intents rq u i xs (n, v))"
    for u i xs n v
  proof (induction xs arbitrary: i n v)
    case (Cons x xs)
    obtain b v1 where ins: "ledger_insert (intent_entry rq u i x) v = (b, v1)" by fastforce
    then show ?case using Cons by (cases n; cases b) (simp_all add: insert)
  qed simp
  have plan: "apply_plan_change e rq u pc (v\<lparr>wb_consents := c\<rparr>) = map_option (\<lambda>v'. v'\<lparr>wb_consents := c\<rparr>) (apply_plan_change e rq u pc v)" for u pc v
    by (simp add: apply_plan_change_def upsert_subscription_def update_user_def user_by_id_def Let_def split: option.split)
  have outcome: "applyOutcome e rq u out ev (v\<lparr>wb_consents := c\<rparr>) = map_option (\<lambda>(m, v'). (m, v'\<lparr>wb_consents := c\<rparr>)) (applyOutcome e rq u out ev v)"
    for u out ev v
    by (simp add: applyOutcome_def intents plan recordAudit_def split: option.split prod.split)
  have refresh: "refreshBalance u now (v\<lparr>wb_consents := c\<rparr>) = map_option (\<lambda>v'. v'\<lparr>wb_consents := c\<rparr>) (refreshBalance u now v)" for u now v
    by (simp add: refreshBalance_def balance_of_def counted_sum_def counted_def ledger_of_def)
  have who: "resolveUserId b (w\<lparr>wb_consents := c\<rparr>) = resolveUserId b w" for b by (simp add: resolveUserId_def)
  show ?thesis
    by (simp add: webhook_def who outcome refresh Let_def split: option.split prod.split)
qed

text \<open>An adjustment of Paddle, which is how a refund is announced, never takes a credit back: the webhook passes no amount on.\<close>

lemma refunds_change_no_ledger:
  assumes "\<And>payload. pe_parse p raw = Some (Some payload) \<Longrightarrow> pb_event_type payload = Some ''adjustment.created''"
  shows "wb_ledger (snd (webhook e p rq raw w)) = wb_ledger w"
proof (cases rule: webhook_cases [of e p rq raw w])
  case (applied payload u counts w1)
  have "out_ledger (body_outcome e p payload u (rq_now rq)) = []"
    using assms [OF applied(1)] by (simp add: body_outcome_def outcomeFor_def event_of_def intentsForEvent_def refund_outcome_def)
  then have "wb_ledger w1 = wb_ledger w"
    using applied(7) applyOutcome_known [of "body_outcome e p payload u (rq_now rq)" w] apply_plan_change_ledger by auto
  then show ?thesis unfolding applied(8) using refresh_ledger by (auto split: option.split)
qed simp

text \<open>
  The order of events is not looked at: whichever subscription event is delivered last sets the plan, also an old one that Paddle delivers again
  after the cancellation.
\<close>

lemma find_map_id: "(\<And>u. us_id (g u) = us_id u) \<Longrightarrow> find (\<lambda>u. us_id u = i) (map g us) = map_option g (find (\<lambda>u. us_id u = i) us)"
  by (induction us) auto

lemma user_after_update:
  "(\<And>u. us_id (f u) = us_id u) \<Longrightarrow> user_by_id w i = Some u \<Longrightarrow> user_by_id (update_user i f w) i = Some (f u)"
  using find_member [of "\<lambda>u. us_id u = i" "wb_users w" u]
  by (simp add: user_by_id_def update_user_def find_map_id)

lemma last_delivered_event_wins:
  assumes "user_by_id w u = Some v" and "apply_plan_change e rq u (Some change) w = Some w'"
  shows "map_option us_planCode (user_by_id w' u) = Some (change_planCode change)"
proof -
  let ?w = "update_user u (\<lambda>v. v\<lparr>us_planCode := change_planCode change\<rparr>) w"
  have up: "user_by_id ?w u = Some (v\<lparr>us_planCode := change_planCode change\<rparr>)"
    using user_after_update [OF _ assms(1), of "\<lambda>v. v\<lparr>us_planCode := change_planCode change\<rparr>"] by simp
  have "wb_users w' = wb_users ?w"
    using assms(2) by (auto simp: apply_plan_change_def upsert_subscription_def Let_def split: if_splits)
  then have "user_by_id w' u = user_by_id ?w u" by (simp add: user_by_id_def)
  then show ?thesis using up by simp
qed

end
