(* ===== verification/Web_Security.thy ===== *)
theory Web_Security
  imports Web_App
begin

text \<open>
  What an attacker gets: cookies after a reset of the password, answers that do not tell who has an account, and the webhook without a
  signature.
\<close>

section \<open>Sessions after a new password\<close>

text \<open>The session of a request comes from a row of its cookie.\<close>

lemma read_session_row:
  assumes "readAuthSession e rq w = (Some x, c, w')"
  obtains r where "r \<in> set (wb_auth w)" "au_id r = we_sha256 e (the (rq_cookie rq))" "us_id (ac_user x) = au_userId r"
    "rq_now rq < au_expiresAt r"
proof -
  obtain r u rest where rows: "session_rows w (we_sha256 e (the (rq_cookie rq))) (rq_now rq) = (r, u) # rest" and x: "ac_user x = u"
    using assms by (auto simp: readAuthSession_def split: if_splits list.splits prod.splits)
  have "r \<in> set (wb_auth w) \<and> u \<in> set (wb_users w) \<and> us_id u = au_userId r \<and> au_id r = we_sha256 e (the (rq_cookie rq)) \<and> rq_now rq < au_expiresAt r"
    by (rule session_rows_mem) (simp add: rows)
  then show thesis using that x by blast
qed

lemma session_user: "readAuthSession e rq w = (Some x, c, w') \<Longrightarrow> ac_user x \<in> set (wb_users w)"
proof -
  assume "readAuthSession e rq w = (Some x, c, w')"
  then obtain r u rest where rows: "session_rows w (we_sha256 e (the (rq_cookie rq))) (rq_now rq) = (r, u) # rest" and x: "ac_user x = u"
    by (auto simp: readAuthSession_def split: if_splits list.splits prod.splits)
  have "(r, u) \<in> set (session_rows w (we_sha256 e (the (rq_cookie rq))) (rq_now rq))" by (simp add: rows)
  from session_rows_mem [OF this] show ?thesis by (simp add: x)
qed

definition new_auth_row :: "web_env \<Rightarrow> request \<Rightarrow> string \<Rightarrow> auth_row" where
  "new_auth_row e rq i =
     \<lparr>au_id = we_sha256 e (rq_token rq), au_userId = i, au_expiresAt = rq_now rq + SESSION_TTL_SECONDS * 1000,
      au_ipHash = clientIpHash e rq, au_family = userAgentFamily (rq_header rq)\<rparr>"

lemma password_replaced_spec:
  assumes "user_by_id w i = Some u" and "password_replaced e rq u pw act w = (ans, cookie, w')"
  shows "wb_auth w' = filter (\<lambda>r. au_userId r \<noteq> i) (wb_auth w) @ [new_auth_row e rq i]"
    and "user_by_id w' i = Some (u\<lparr>us_passwordHash := Some (hashPassword e (rq_random rq) pw)\<rparr>)"
    and "rd_strings w' = rd_strings w"
    and "cookie = Cookie_set (rq_token rq)"
proof -
  have i: "us_id u = i" using assms(1) find_member by (fastforce simp: user_by_id_def)
  have up: "user_by_id (set_password e rq i pw w) i = Some (u\<lparr>us_passwordHash := Some (hashPassword e (rq_random rq) pw)\<rparr>)"
    unfolding set_password_def by (rule user_after_update) (simp_all add: assms(1))
  show "wb_auth w' = filter (\<lambda>r. au_userId r \<noteq> i) (wb_auth w) @ [new_auth_row e rq i]" "rd_strings w' = rd_strings w"
    "cookie = Cookie_set (rq_token rq)"
    using assms(2)
    by (auto simp: password_replaced_def rotateAuthSession_def createAuthSession_def revokeOtherSessions_def set_password_def
        update_user_def recordAudit_def sendMail_def new_auth_row_def i)
  have "wb_users w' = wb_users (set_password e rq i pw w)"
    using assms(2)
    by (auto simp: password_replaced_def rotateAuthSession_def createAuthSession_def revokeOtherSessions_def recordAudit_def sendMail_def i)
  then show "user_by_id w' i = Some (u\<lparr>us_passwordHash := Some (hashPassword e (rq_random rq) pw)\<rparr>)"
    using up by (simp add: user_by_id_def)
qed

lemma used_reset_token:
  assumes "map_of (rd_strings w) (passwordReset_key (we_sha256 e t)) = None"
  shows "fst (fst (reset_password e rq (Some (t, pw)) w)) = 400"
  using assms by (simp add: reset_password_def consumePasswordResetToken_def getdel_def fail_with_def)

text \<open>
  C10: A reset locks everyone out. When a reset link is accepted, it was issued to this browser family for a living account and had not run out;
  the account has the new password and one session, that of the answer's cookie; the sessions of other accounts are untouched;
  any later request that is let in as this user carries the new cookie; and the link does not work again.
\<close>

theorem reset_locks_everyone_out:
  assumes "reset_password e rq (Some (t, pw)) w = ((200, Inr b), cookie, w')"
  shows "\<exists>u v expires. user_by_id w (us_id u) = Some u \<and> us_deletedAt u = None
    \<and> map_of (rd_strings w) (passwordReset_key (we_sha256 e t)) = Some (v, expires) \<and> rq_now rq < expires
    \<and> last_colon v = (us_id u, userAgentFamily (rq_header rq))
    \<and> user_by_id w' (us_id u) = Some (u\<lparr>us_passwordHash := Some (hashPassword e (rq_random rq) pw)\<rparr>)
    \<and> cookie = Cookie_set (rq_token rq)
    \<and> filter (\<lambda>r. au_userId r = us_id u) (wb_auth w') = [new_auth_row e rq (us_id u)]
    \<and> filter (\<lambda>r. au_userId r \<noteq> us_id u) (wb_auth w') = filter (\<lambda>r. au_userId r \<noteq> us_id u) (wb_auth w)
    \<and> (\<forall>rq2 x c w2. readAuthSession e rq2 w' = (Some x, c, w2) \<longrightarrow> us_id (ac_user x) = us_id u \<longrightarrow>
         we_sha256 e (the (rq_cookie rq2)) = we_sha256 e (rq_token rq))
    \<and> (\<forall>rq2 pw2. fst (fst (reset_password e rq2 (Some (t, pw2)) w')) = 400)"
proof -
  let ?key = "passwordReset_key (we_sha256 e t)"
  obtain i w1 u where c: "consumePasswordResetToken e (rq_now rq) t (userAgentFamily (rq_header rq)) w = (i, w1)" and i: "truthy i"
    and u: "user_by_id w1 (the i) = Some u" "us_deletedAt u = None"
    and rep: "((200, Inr b), cookie, w') = password_replaced e rq u pw ''auth.password_reset'' w1"
    using assms by (auto simp: reset_password_def fail_with_def split: if_splits option.splits prod.splits)
  obtain v expires where v: "map_of (rd_strings w) ?key = Some (v, expires)" "rq_now rq < expires"
    and w1: "w1 = w\<lparr>rd_strings := map_delete ?key (rd_strings w)\<rparr>" and lc: "last_colon v = (the i, userAgentFamily (rq_header rq))"
    using c i by (auto simp: consumePasswordResetToken_def getdel_def split: if_splits option.splits prod.splits)
  have id: "us_id u = the i" using u(1) find_member by (fastforce simp: user_by_id_def)
  have u0: "user_by_id w (us_id u) = Some u" using u(1) id by (simp add: w1 user_by_id_def)
  note spec = password_replaced_spec [OF u(1) rep [symmetric]]
  have auth: "wb_auth w' = filter (\<lambda>r. au_userId r \<noteq> us_id u) (wb_auth w) @ [new_auth_row e rq (us_id u)]"
    using spec(1) by (simp add: w1 id)
  have mine: "r = new_auth_row e rq (us_id u)" if "r \<in> set (wb_auth w')" "au_userId r = us_id u" for r
    using that by (auto simp: auth)
  have in_as: "we_sha256 e (the (rq_cookie rq2)) = we_sha256 e (rq_token rq)"
    if rd: "readAuthSession e rq2 w' = (Some x, c2, w2)" and "us_id (ac_user x) = us_id u" for rq2 x c2 w2
  proof -
    obtain r where r: "r \<in> set (wb_auth w')" "au_id r = we_sha256 e (the (rq_cookie rq2))" "us_id (ac_user x) = au_userId r"
      by (rule read_session_row [OF rd]) blast
    have "au_userId r = us_id u" using r(3) that(2) by simp
    from arg_cong [OF mine [OF r(1) this], of au_id] show ?thesis using r(2) by (simp add: new_auth_row_def)
  qed
  have gone: "map_of (rd_strings w') ?key = None" using spec(3) by (simp add: w1)
  show ?thesis
    using u0 u(2) v lc id spec(2,4) in_as used_reset_token [OF gone]
    by (intro exI [of _ u] exI [of _ v] exI [of _ expires]) (auto simp: auth new_auth_row_def)
qed

definition demo_reset :: web where
  "demo_reset = empty_web
     \<lparr>wb_users := [(new_user demo_web demo_rq ''a@b.pl'' [])],
      wb_auth := [\<lparr>au_id = ''stolen'', au_userId = ''u1'', au_expiresAt = 1000000, au_ipHash = [], au_family = ''other''\<rparr>],
      rd_strings := [(passwordReset_key (we_sha256 demo_web (replicate 16 CHR ''t'')), (''u1:other'', 200000))]\<rparr>"

theorem reset_locks_everyone_out_witness:
  "\<exists>i. filter (\<lambda>r. au_userId r = i)
     (wb_auth (snd (snd (reset_password demo_web demo_rq (Some (replicate 16 CHR ''t'', replicate 12 97)) demo_reset))))
       = [new_auth_row demo_web demo_rq i]"
proof -
  let ?r = "reset_password demo_web demo_rq (Some (replicate 16 CHR ''t'', replicate 12 97)) demo_reset"
  have "fst ?r = (200, Inr True)" by code_simp
  then have r: "?r = ((200, Inr True), fst (snd ?r), snd (snd ?r))" by (metis prod.collapse)
  from reset_locks_everyone_out [OF r] obtain u :: user_row
    where "filter (\<lambda>r. au_userId r = us_id u) (wb_auth (snd (snd ?r))) = [new_auth_row demo_web demo_rq (us_id u)]"
    by blast
  then show ?thesis by blast
qed

section \<open>Answers that do not tell\<close>

lemma rate_answer: "rd_sorted w1 = rd_sorted w2 \<Longrightarrow> fst (consumeRateLimit n k now m w1) = fst (consumeRateLimit n k now m w2)"
  by (simp add: consumeRateLimit_def Let_def split: prod.split)

definition login_refusal :: "web_env \<Rightarrow> (string \<times> jstring) option \<Rightarrow> bool \<Rightarrow> bool answer" where
  "login_refusal e body allowed =
     (if \<not> allowed then fail_with 429 ''RATE_LIMITED''
      else (case body of None \<Rightarrow> fail_with 400 ''INVALID_INPUT''
            | Some (email, password) \<Rightarrow> if email_ok e email \<and> password \<noteq> [] then fail_with 401 ''INVALID_CREDENTIALS''
                                          else fail_with 400 ''INVALID_INPUT''))"

lemma login_answer:
  "fst (fst (login e rq body w)) = 200 \<or> fst (login e rq body w) = login_refusal e body
     (rr_allowed (fst (consumeRateLimit Limit_login (clientIp_of (rq_header rq)) (rq_now rq) (rq_random rq) w)))"
  by (auto simp: login_def login_refusal_def respond_def Let_def case_prod_unfold split: option.split)

text \<open>
  C34: Who has an account stays unknown. Over two stores with the same rate limiter, whatever accounts they hold, the routes for a forgotten password
  and for a new confirmation mail answer the same, and so does a login that fails in both: a wrong password and an unknown address cannot
  be told apart. (The route of registration does tell: it answers 409.)
\<close>

theorem answers_do_not_tell_accounts:
  assumes "rd_sorted w1 = rd_sorted w2"
  shows "fst (forgot e rq address w1) = fst (forgot e rq address w2)
    \<and> fst (resend e rq address w1) = fst (resend e rq address w2)
    \<and> (fst (login e rq body w1) = fst (login e rq body w2) \<or> fst (fst (login e rq body w1)) = 200 \<or> fst (fst (login e rq body w2)) = 200)
    \<and> fst (snd (forgot e rq address w1)) = Cookie_keep \<and> fst (snd (resend e rq address w1)) = Cookie_keep"
proof -
  note rate = rate_answer [OF assms]
  have "fst (forgot e rq address w1) = fst (forgot e rq address w2) \<and> fst (snd (forgot e rq address w1)) = Cookie_keep"
    using rate by (simp add: forgot_def Let_def case_prod_unfold split: option.split)
  moreover have "fst (resend e rq address w1) = fst (resend e rq address w2) \<and> fst (snd (resend e rq address w1)) = Cookie_keep"
    using rate by (simp add: resend_def Let_def case_prod_unfold split: option.split)
  moreover have "fst (login e rq body w1) = fst (login e rq body w2) \<or> fst (fst (login e rq body w1)) = 200 \<or> fst (fst (login e rq body w2)) = 200"
    using login_answer [of e rq body w1] login_answer [of e rq body w2] rate by metis
  ultimately show ?thesis by blast
qed

theorem answers_do_not_tell_accounts_witness:
  "fst (forgot demo_web demo_rq (Some ''a@b.pl'') demo_bought) = fst (forgot demo_web demo_rq (Some ''a@b.pl'') empty_web)"
proof -
  have "rd_sorted demo_bought = rd_sorted empty_web" by (simp add: demo_bought_def)
  then show ?thesis using answers_do_not_tell_accounts by blast
qed

section \<open>The webhook without a signature\<close>

text \<open>
  C35: No signature, no effect. A webhook changes the store only if its header carries, as the last \<open>h1\<close> of its parts, the HMAC
  under the configured secret of the last \<open>ts\<close>, a colon and the body, and that \<open>ts\<close> is a number within 300 seconds of the clock.
\<close>

theorem unsigned_webhook_changes_nothing:
  assumes "snd (webhook e p rq raw w) \<noteq> w"
  shows "\<exists>secret header ts t. pe_secret p = Some secret \<and> secret \<noteq> [] \<and> rq_header rq ''paddle-signature'' = Some header
    \<and> foldl signature_part (None, None) (split_on (CHR '';'') header) = (Some ts, Some (pe_hmac p secret (ts @ '':'' @ raw)))
    \<and> we_number e ts = Some t \<and> \<bar>of_int (rq_now rq div 1000) - t\<bar> \<le> 300"
proof (cases rule: webhook_cases [of e p rq raw w])
  case untouched
  then show ?thesis using assms by simp
next
  case (applied payload u counts w1)
  then show ?thesis
    by (auto simp: paddle_verifySignature_def truthy_iff split: if_splits prod.splits option.splits)
qed

theorem unsigned_webhook_changes_nothing_witness:
  "\<exists>ts. foldl signature_part (None, None) (split_on (CHR '';'') ''ts=100;h1=ok'') = (Some ts, Some ''ok'')"
proof -
  have "length (wb_ledger (snd (webhook demo_web demo_paddle demo_rq ''{}'' demo_bought))) = 1" by code_simp
  moreover have "wb_ledger demo_bought = []" by (simp add: demo_bought_def empty_web_def)
  ultimately have "snd (webhook demo_web demo_paddle demo_rq ''{}'' demo_bought) \<noteq> demo_bought" by auto
  from unsigned_webhook_changes_nothing [OF this] show ?thesis by (auto simp: demo_rq_def demo_paddle_def)
qed

section \<open>Links in other browsers\<close>

text \<open>A reset link that is opened in another browser is refused, and is gone: its key is deleted before the browser is compared.\<close>

lemma other_browser_burns_the_link:
  assumes "map_of (rd_strings w) (passwordReset_key (we_sha256 e t)) = Some (v, expires)" and "rq_now rq < expires" and "v \<noteq> []"
    and "snd (last_colon v) \<noteq> userAgentFamily (rq_header rq)" and "16 \<le> length t" and "length t \<le> 200"
    and "passwordPolicyError pw = None" and "pw \<noteq> []" and "\<not> isPasswordBreached e pw"
  defines "r \<equiv> reset_password e rq (Some (t, pw)) w"
  shows "fst r = fail_with 400 ''INVALID_TOKEN''" and "map_of (rd_strings (snd (snd r))) (passwordReset_key (we_sha256 e t)) = None"
  using assms by (auto simp: reset_password_def consumePasswordResetToken_def getdel_def split: prod.splits)

end
