(* ===== verification/Web_Start.thy ===== *)
theory Web_Start
  imports Web_Security
begin

text \<open>
  The only place where a session is authorised: what a started session has passed, what a refused one leaves behind, and that the relay lets the started
  one in.
\<close>

section \<open>What the gates read\<close>

lemma availableCredits_cong: "wb_ledger w' = wb_ledger w \<Longrightarrow> availableCredits w' u now = availableCredits w u now"
  by (simp add: availableCredits_def bucketBalancesOf_def counted_def ledger_of_def)

lemma slide_others: "slideIfStale now r t w = (c, w') \<Longrightarrow> rd_slots w' = rd_slots w \<and> wb_sessions w' = wb_sessions w
    \<and> wb_ledger w' = wb_ledger w \<and> wb_glossaries w' = wb_glossaries w"
  by (auto simp: slideIfStale_def split: if_splits)

lemma read_others: "readAuthSession e rq w = (a, c, w') \<Longrightarrow> rd_slots w' = rd_slots w \<and> wb_sessions w' = wb_sessions w
    \<and> wb_ledger w' = wb_ledger w \<and> wb_glossaries w' = wb_glossaries w"
  by (auto simp: readAuthSession_def dest: slide_others split: if_splits list.splits prod.splits)

lemma rate_others: "consumeRateLimit n k now m w = (r, w') \<Longrightarrow> rd_slots w' = rd_slots w \<and> wb_sessions w' = wb_sessions w
    \<and> wb_ledger w' = wb_ledger w \<and> wb_glossaries w' = wb_glossaries w"
  by (auto simp: consumeRateLimit_def Let_def split: prod.splits)

lemma slot_spec:
  assumes "acquireConcurrencySlot u limit now w = (sl, w')"
  shows "wb_sessions w' = wb_sessions w \<and> wb_ledger w' = wb_ledger w
    \<and> (case sl of None \<Rightarrow> w' = w
       | Some n \<Rightarrow> slots_taken now (map_of (rd_slots w) (concurrency_key u)) < limit
           \<and> map_of (rd_slots w') (concurrency_key u)
               = Some (slots_taken now (map_of (rd_slots w) (concurrency_key u)) + 1, now + CONCURRENCY_SLOT_TTL_SECONDS * 1000))"
  using assms by (auto simp: acquireConcurrencySlot_def Let_def split: if_splits)

lemma gate_passed:
  assumes "config_gate w u config = None"
  shows "int (length (sc_dstLangs config)) \<le> maxTargetLanguages (planOf (us_planCode u))
    \<and> (vc_enabled (sc_voice config) \<longrightarrow> plan_voiceEnabled (planOf (us_planCode u)))
    \<and> (truthy (sc_glossaryId config) \<longrightarrow> glossaryEnabled (planOf (us_planCode u))
        \<and> (\<exists>g \<in> set (wb_glossaries w). gl_id g = the (sc_glossaryId config) \<and> gl_userId g = us_id u))"
  using assms
  by (auto simp: config_gate_def Let_def config_burn_def checkConfigAgainstPlan_def dest: find_member split: if_splits)

text \<open>What has passed when a session is started for \<open>u\<close>.\<close>

definition started_for :: "web_env \<Rightarrow> session_env \<Rightarrow> request \<Rightarrow> session_config \<Rightarrow> web \<Rightarrow> user_row \<Rightarrow> start_response \<Rightarrow> web \<Rightarrow> bool" where
  "started_for e s rq config w u b w' \<longleftrightarrow>
     (let plan = planOf (us_planCode u); key = concurrency_key (us_id u);
          available = availableCredits w (us_id u) (rq_now rq);
          claims = mint_claims rq (us_id u) (rq_id rq 0) (plan_code_string (plan_code plan)) (min available (creditsForSeconds 60 (config_burn config))) config
      in us_emailVerifiedAt u \<noteq> None \<and> SessionConfig_ok (we_is_uuid e) config
         \<and> int (length (sc_dstLangs config)) \<le> maxTargetLanguages plan
         \<and> (vc_enabled (sc_voice config) \<longrightarrow> plan_voiceEnabled plan)
         \<and> (truthy (sc_glossaryId config) \<longrightarrow> glossaryEnabled plan
              \<and> (\<exists>g \<in> set (wb_glossaries w). gl_id g = the (sc_glossaryId config) \<and> gl_userId g = us_id u))
         \<and> 0 < available \<and> sr_creditsAvailable b = available
         \<and> slots_taken (rq_now rq) (map_of (rd_slots w) key) < maxConcurrentSessions plan
         \<and> map_of (rd_slots w') key
             = Some (slots_taken (rq_now rq) (map_of (rd_slots w) key) + 1, rq_now rq + CONCURRENCY_SLOT_TTL_SECONDS * 1000)
         \<and> se_sign s claims = Some (sr_jwt b) \<and> sr_sessionId b = claim_sid claims
         \<and> wb_sessions w' = wb_sessions w @ [new_session_row rq (us_id u) config (issueProjectorToken e s rq)]
         \<and> pj_token (issueProjectorToken e s rq) = sr_projectorToken b
         \<and> wb_ledger w' = wb_ledger w)"

lemma open_session_started:
  assumes "open_session e s rq u config av am w = ((201, Inr b), w')"
  shows "se_sign s (mint_claims rq (us_id u) (rq_id rq 0) (plan_code_string (plan_code (planOf (us_planCode u)))) am config) = Some (sr_jwt b)
    \<and> sr_sessionId b = rq_id rq 0 \<and> sr_creditsAvailable b = av \<and> sr_projectorToken b = pj_token (issueProjectorToken e s rq)
    \<and> w' = w\<lparr>wb_sessions := wb_sessions w @ [new_session_row rq (us_id u) config (issueProjectorToken e s rq)]\<rparr>"
  using assms
  by (auto simp: open_session_def reject_start_def mintRelayJwt_def new_session_row_def Let_def split: option.splits)

lemma session_started:
  assumes "session_start e s rq body w = ((201, Inr b), cookie, w')"
  shows "\<exists>auth w1 config. readAuthSession e rq w = (Some auth, cookie, w1) \<and> body = Some config
    \<and> started_for e s rq config w (ac_user auth) b w'"
proof -
  obtain auth c1 w1 where rd: "readAuthSession e rq w = (Some auth, c1, w1)"
    using assms by (auto simp: session_start_def reject_start_def split: prod.splits option.splits)
  let ?u = "ac_user auth"
  obtain r w2 where rate: "consumeRateLimit Limit_sessionStart (us_id ?u) (rq_now rq) (rq_random rq) w1 = (r, w2)" by fastforce
  obtain config where body: "body = Some config" and ver: "us_emailVerifiedAt ?u \<noteq> None" and conf: "SessionConfig_ok (we_is_uuid e) config"
    and gate: "config_gate w2 ?u config = None"
    using assms rd rate by (auto simp: session_start_def reject_start_def Let_def split: if_splits option.splits prod.splits)
  let ?av = "availableCredits w2 (us_id ?u) (rq_now rq)"
  let ?am = "min ?av (creditsForSeconds 60 (config_burn config))"
  obtain n w3 where pos: "0 < ?av"
    and slot: "acquireConcurrencySlot (us_id ?u) (maxConcurrentSessions (planOf (us_planCode ?u))) (rq_now rq) w2 = (Some n, w3)"
    and opn: "open_session e s rq ?u config ?av ?am w3 = ((201, Inr b), w')" and c1: "c1 = cookie"
    using assms rd rate body ver conf gate
    by (auto simp: session_start_def reject_start_def Let_def RESERVATION_WINDOW_SECONDS_def split: if_splits option.splits prod.splits)
  have same: "rd_slots w2 = rd_slots w" "wb_sessions w2 = wb_sessions w" "wb_ledger w2 = wb_ledger w" "wb_glossaries w2 = wb_glossaries w"
    using read_others [OF rd] rate_others [OF rate] by simp_all
  have av: "?av = availableCredits w (us_id ?u) (rq_now rq)" using availableCredits_cong [OF same(3)] .
  have "started_for e s rq config w ?u b w'"
    using ver conf gate_passed [OF gate] pos slot_spec [OF slot] open_session_started [OF opn] same
    by (simp add: started_for_def Let_def av mint_claims_def)
  then show ?thesis using rd c1 body by blast
qed

text \<open>An answer other than 201 leaves sessions, slots and ledger alone; a 500 may leave the row of the session.\<close>

lemma session_refused:
  assumes "session_start e s rq body w = (ans, cookie, w')" and "fst ans \<noteq> 201" and "fst ans \<noteq> 500"
  shows "wb_sessions w' = wb_sessions w \<and> rd_slots w' = rd_slots w \<and> wb_ledger w' = wb_ledger w"
proof -
  have opn: False if "open_session e s rq u config av am v = (ans, v')" for u config av am v v'
    using that assms(2,3) by (auto simp: open_session_def reject_start_def Let_def split: option.splits)
  have none: "v' = v" if "acquireConcurrencySlot u l now v = (None, v')" for u l now v v'
    using slot_spec [OF that] by simp
  obtain a c1 w1 where rd: "readAuthSession e rq w = (a, c1, w1)" by (metis prod.exhaust)
  show ?thesis
  proof (cases a)
    case None
    then show ?thesis using assms read_others [OF rd] by (simp add: session_start_def rd)
  next
    case (Some auth)
    obtain r w2 where rate: "consumeRateLimit Limit_sessionStart (us_id (ac_user auth)) (rq_now rq) (rq_random rq) w1 = (r, w2)" by fastforce
    have same: "rd_slots w2 = rd_slots w" "wb_sessions w2 = wb_sessions w" "wb_ledger w2 = wb_ledger w"
      using read_others [OF rd] rate_others [OF rate] by simp_all
    have "w' = w2"
      using assms
      by (auto simp: session_start_def rd Some rate Let_def dest!: none dest: opn split: if_splits option.splits prod.splits)
    then show ?thesis using same by simp
  qed
qed

text \<open>
  C11: A session starts only through every gate. A 201 means: a signed-in user with a verified address; a valid configuration within the plan's
  languages, voice and glossary, with a glossary of the user's own; credits above zero; a free slot of the plan, which is now taken. The signed token
  reserves the smaller of one window and the balance, the answer's link is that of the new row, and the ledger is untouched. Any other answer
  but a 500 leaves sessions, slots and ledger as they were.
\<close>

theorem session_start_is_gated:
  assumes "session_start e s rq body w = (ans, cookie, w')"
  shows "(\<forall>b. ans = (201, Inr b) \<longrightarrow>
      (\<exists>auth w1 config. readAuthSession e rq w = (Some auth, cookie, w1) \<and> body = Some config
         \<and> started_for e s rq config w (ac_user auth) b w'))
    \<and> (fst ans \<noteq> 201 \<longrightarrow> fst ans \<noteq> 500 \<longrightarrow>
         wb_sessions w' = wb_sessions w \<and> rd_slots w' = rd_slots w \<and> wb_ledger w' = wb_ledger w)"
  using session_started session_refused [OF assms] assms by metis

definition demo_ready :: web where
  "demo_ready = web_run demo_app empty_web demo_calls"

definition demo_config :: session_config where
  "demo_config = default_SessionConfig\<lparr>sc_dstLangs := [''en'']\<rparr>"

definition demo_answer :: start_response where
  "demo_answer =
     \<lparr>sr_sessionId = ''u1'', sr_jwt = ''jwt'', sr_relayUrl = ''wss://r/session'', sr_projectorToken = ''pt_tok'',
      sr_projectorUrl = ''https://a/projector/pt_tok'', sr_burnRatePerMin = 3 / 2, sr_creditsAvailable = 110, sr_estimatedSeconds = 4400\<rparr>"

lemma demo_starts: "fst (session_start demo_web demo_session demo_rq (Some demo_config) demo_ready) = (201, Inr demo_answer)"
  by code_simp

theorem session_start_is_gated_witness:
  "\<exists>u. started_for demo_web demo_session demo_rq demo_config demo_ready u demo_answer
     (snd (snd (session_start demo_web demo_session demo_rq (Some demo_config) demo_ready)))"
proof -
  let ?r = "session_start demo_web demo_session demo_rq (Some demo_config) demo_ready"
  have "?r = (fst ?r, fst (snd ?r), snd (snd ?r))" by simp
  from session_start_is_gated [OF this] show ?thesis using demo_starts by auto
qed

section \<open>The relay lets it in\<close>

text \<open>
  C12: A started session is let in. With a library that accepts, until it expires, what it signed, and with ids that are UUIDs, the token of a 201
  passes the relay's check at any time in the 60 seconds after it was issued, unless it was used or revoked before; and the relay then has
  the claims of that session: its id, the user, the configuration that was asked for and a reservation within the user's credits.
\<close>

theorem started_session_is_let_in:
  assumes "session_start e s rq (Some config) w = ((201, Inr b), cookie, w')"
    and "\<forall>c t now. se_sign s c = Some t \<longrightarrow> now div 1000 - 5 < claim_exp c \<longrightarrow> jwt_verify t now = Inr c"
    and "\<forall>c. parse c = (if RelayJwtClaims_ok (we_is_uuid e) c then Some c else None)"
    and "\<forall>u \<in> set (wb_users w). we_is_uuid e (us_id u)" and "we_is_uuid e (rq_id rq 0)"
    and "rq_now rq \<le> now" and "now < rq_now rq + 60000"
    and "map_of (js_used st) (used_key (rq_id rq 1)) = None" and "\<not> isRevoked st (rq_id rq 1)"
  shows "\<exists>claims u. fst (verifySessionJwt jwt_verify parse st now (sr_jwt b)) = Inr claims
    \<and> u \<in> set (wb_users w) \<and> claim_sub claims = us_id u \<and> claim_sid claims = sr_sessionId b \<and> claim_cfg claims = config
    \<and> 0 < sr_creditsAvailable b \<and> claim_reserved claims \<le> sr_creditsAvailable b
    \<and> sr_creditsAvailable b = availableCredits w (us_id u) (rq_now rq)"
proof -
  obtain auth w1 where rd: "readAuthSession e rq w = (Some auth, cookie, w1)" and st: "started_for e s rq config w (ac_user auth) b w'"
    using session_started [OF assms(1)] by auto
  let ?u = "ac_user auth"
  let ?av = "availableCredits w (us_id ?u) (rq_now rq)"
  let ?c = "mint_claims rq (us_id ?u) (rq_id rq 0) (plan_code_string (plan_code (planOf (us_planCode ?u)))) (min ?av (creditsForSeconds 60 (config_burn config))) config"
  have facts: "se_sign s ?c = Some (sr_jwt b)" "sr_sessionId b = claim_sid ?c" "0 < ?av" "sr_creditsAvailable b = ?av"
    "SessionConfig_ok (we_is_uuid e) config"
    using st by (simp_all add: started_for_def Let_def)
  have user: "?u \<in> set (wb_users w)" by (rule session_user [OF rd])
  have time: "now div 1000 - 5 < claim_exp ?c"
  proof -
    have "now div 1000 \<le> (rq_now rq + 60000) div 1000" using assms(7) by (intro zdiv_mono1) simp_all
    then show ?thesis by (simp add: mint_claims_def Let_def RELAY_JWT_TTL_SECONDS_def)
  qed
  have ver: "jwt_verify (sr_jwt b) now = Inr ?c" using assms(2) facts(1) time by blast
  have "RelayJwtClaims_ok (we_is_uuid e) ?c"
    using assms(4,5) user facts(5) by (simp add: RelayJwtClaims_ok_def mint_claims_def Let_def RELAY_JWT_AUDIENCE_def)
  then have parse: "parse ?c = Some ?c" using assms(3) by simp
  have jti: "claim_jti ?c = rq_id rq 1" by (simp add: mint_claims_def Let_def)
  have "fst (verifySessionJwt jwt_verify parse st now (sr_jwt b)) = Inr ?c"
    using assms(8,9) by (simp add: verifySessionJwt_def verifySignature_def ver parse jti claim_once_def Let_def)
  then show ?thesis
    using user facts by (intro exI [of _ ?c] exI [of _ ?u]) (simp add: mint_claims_def Let_def)
qed

definition demo_claims :: relay_jwt_claims where
  "demo_claims = mint_claims demo_rq ''u1'' ''u1'' ''trial'' (min 110 (creditsForSeconds 60 (config_burn demo_config))) demo_config"

definition demo_signer :: session_env where
  "demo_signer = demo_session\<lparr>se_sign := (\<lambda>c. if c = demo_claims then Some ''jwt'' else None)\<rparr>"

definition demo_verifier :: "string \<Rightarrow> int \<Rightarrow> jose_error + relay_jwt_claims" where
  "demo_verifier t now = (if now div 1000 - 5 < claim_exp demo_claims then Inr demo_claims else Inl JWTExpired)"

definition demo_parse :: "relay_jwt_claims \<Rightarrow> relay_jwt_claims option" where
  "demo_parse c = (if RelayJwtClaims_ok (we_is_uuid demo_web) c then Some c else None)"

theorem started_session_is_let_in_witness:
  "\<exists>claims. fst (verifySessionJwt demo_verifier demo_parse \<lparr>js_used = [], js_revoked = []\<rparr> 130000 (sr_jwt demo_answer)) = Inr claims
     \<and> claim_sid claims = ''u1'' \<and> claim_cfg claims = demo_config"
proof -
  let ?r = "session_start demo_web demo_signer demo_rq (Some demo_config) demo_ready"
  have "fst ?r = (201, Inr demo_answer)" by code_simp
  then have r: "?r = ((201, Inr demo_answer), fst (snd ?r), snd (snd ?r))" by (metis prod.collapse)
  have sign: "\<forall>c t now. se_sign demo_signer c = Some t \<longrightarrow> now div 1000 - 5 < claim_exp c \<longrightarrow> demo_verifier t now = Inr c"
    by (simp add: demo_signer_def demo_verifier_def)
  have parse: "\<forall>c. demo_parse c = (if RelayJwtClaims_ok (we_is_uuid demo_web) c then Some c else None)" by (simp add: demo_parse_def)
  have uuid: "we_is_uuid demo_web i" for i by (simp add: demo_web_def)
  have "rq_now demo_rq \<le> 130000" "130000 < rq_now demo_rq + 60000" "\<not> isRevoked \<lparr>js_used = [], js_revoked = []\<rparr> i" for i
    by (simp_all add: demo_rq_def isRevoked_def)
  with started_session_is_let_in [OF r sign parse, of 130000 "\<lparr>js_used = [], js_revoked = []\<rparr>"] uuid
  show ?thesis by (auto simp: demo_answer_def)
qed

section \<open>Slots\<close>

text \<open>
  Nothing gives a slot back. No route and nothing in the relay releases the slot of a session that has ended: after one start on a plan of one
  session, the user is refused for six hours.
\<close>

lemma slots_stay_taken:
  assumes "session_start e s rq (Some config) w = ((201, Inr b), cookie, w')"
    and "session_start e s rq2 (Some config2) w' = (ans, cookie2, w2)"
    and "readAuthSession e rq w = (Some x, c, v)" and "readAuthSession e rq2 w' = (Some x2, c2, v2)" and "us_id (ac_user x2) = us_id (ac_user x)"
    and "maxConcurrentSessions (planOf (us_planCode (ac_user x2))) = 1"
    and "0 \<le> slots_taken (rq_now rq) (map_of (rd_slots w) (concurrency_key (us_id (ac_user x))))"
    and "rq_now rq2 < rq_now rq + 6 * 60 * 60 * 1000"
  shows "ans \<noteq> (201, Inr b2)"
proof
  assume b2: "ans = (201, Inr b2)"
  have a: "started_for e s rq config w (ac_user x) b w'" using session_started [OF assms(1)] assms(3) by auto
  have "started_for e s rq2 config2 w' (ac_user x2) b2 w2" using session_started [OF assms(2) [unfolded b2]] assms(4) by auto
  then have "slots_taken (rq_now rq2) (map_of (rd_slots w') (concurrency_key (us_id (ac_user x)))) < 1"
    using assms(5,6) by (simp add: started_for_def Let_def)
  then show False
    using a assms(7,8) by (simp add: started_for_def Let_def slots_taken_def CONCURRENCY_SLOT_TTL_SECONDS_def)
qed

text \<open>
  The limits of the schema come first: a body that passes \<open>GlossaryUpsert\<close> never makes \<open>normaliseTerms\<close> fail, so its sentences are never shown.
\<close>

lemma length_collapse_ws: "length (collapse_ws s) \<le> length s"
proof (induction s rule: collapse_ws.induct)
  case (2 c s)
  show ?case
  proof (cases "is_ws c")
    case True
    then show ?thesis using 2(1) length_dropWhile_le [of is_ws s] by simp
  next
    case False
    then show ?thesis using 2(2) by simp
  qed
qed simp

lemma length_normal_term: "length (normal_term t) \<le> length t"
  using length_collapse_ws [of "trim t"] length_trim [of t] by (simp add: normal_term_def)

lemma terms_loop_short_terms:
  "\<forall>t \<in> set raw. length t \<le> GLOSSARY_MAX_TERM_LENGTH \<Longrightarrow>
     \<exists>ts. terms_loop u seen out raw = Inr ts \<and> length ts \<le> length out + length raw"
proof (induction raw arbitrary: seen out)
  case (Cons t raw)
  have "length (normal_term t) \<le> GLOSSARY_MAX_TERM_LENGTH" using Cons.prems length_normal_term [of t] by simp
  moreover have all: "\<forall>t \<in> set raw. length t \<le> GLOSSARY_MAX_TERM_LENGTH" using Cons.prems by simp
  ultimately show ?case
    using Cons.IH [OF all, of seen out] Cons.IH [OF all, of "lower u (normal_term t) # seen" "out @ [normal_term t]"]
    by (auto simp: Let_def)
qed simp

lemma schema_makes_normaliseTerms_succeed:
  assumes "GlossaryUpsert_ok g"
  shows "\<exists>ts. normaliseTerms u (gu_terms g) = Inr ts"
proof -
  have short: "\<forall>t \<in> set (gu_terms g). length t \<le> GLOSSARY_MAX_TERM_LENGTH" and few: "length (gu_terms g) \<le> GLOSSARY_MAX_TERMS"
    using assms by (auto simp: GlossaryUpsert_ok_def list_all_iff GLOSSARY_MAX_TERM_LENGTH_def GLOSSARY_MAX_TERMS_def)
  show ?thesis using terms_loop_short_terms [OF short, of u "[]" "[]"] few by (auto simp: normaliseTerms_def)
qed

end
