(* ===== verification/Spec2Isabelle.thy ===== *)
theory Spec2Isabelle
  imports Pricing Paddle Billing_Session Registry Auth Secrets Session_Money Session_Assembly Front_Door Projector_Socket Studio_Link Audio_Queue Web_Start
begin

text \<open>
  Verification library of sub.hexart.io: live captions, translation and voice-over for events, billed by the minute.

  \<^bold>\<open>The program.\<close> The studio (a page of the web application) streams audio over a WebSocket to the relay. The relay sends it to a
  transcription service, turns the transcript into caption cards with the caption engine, asks a language model for translations and a
  voice service for speech, and sends the cards to projectors (browser sources in OBS). A session costs credits: the web application
  sells them, keeps the append-only ledger and issues a single-use token for every session; the relay reserves credits ahead, burns
  them by the second and writes the usage back to the ledger.

  \<^bold>\<open>Which theory models what\<close> (paths under \<open>src/\<close>). Every theory keeps the names of its source file; a class is a record, a method a
  function from the state to the new state and what it emits.

  \<^item> \<open>Prelude\<close>: numbers, strings, arrays, maps and rounding of JavaScript, and the lemmas about them; the collections
    \<open>queue_simps\<close>, \<open>grid_intros\<close> and \<open>mono_intros\<close>.
  \<^item> \<open>packages/caption-engine\<close>: \<open>Stability\<close> (stable prefix), \<open>Linebreak\<close>, \<open>Governor\<close> (reading rate), \<open>Translation\<close> (triggers, context,
    cache, prompt), \<open>Speech\<close>; \<open>Engine\<close> composes them (\<open>engine.ts\<close>: partial, committed, silence, translations) and \<open>Caption_Protocol\<close>
    is its contract.
  \<^item> \<open>packages/billing\<close>: \<open>Plans\<close>, \<open>Pricing\<close>, \<open>Ledger\<close>, \<open>Paddle\<close>. \<open>packages/contracts\<close>: \<open>Contracts\<close> (configuration and messages),
    \<open>Audio_Frame\<close> (the binary frames on machine words).
  \<^item> \<open>apps/relay/src\<close>: \<open>Metering\<close> and \<open>Ledger_Gateway\<close> (\<open>metering.ts\<close>), \<open>Registry\<close>, \<open>Auth\<close>, \<open>Secrets\<close> (\<open>crypto.ts\<close>), \<open>Session_Actor\<close>
    (\<open>session-actor.ts\<close>), \<open>Upstream_Socket\<close>, \<open>Upstream_Stt\<close>, \<open>Upstream_Tts\<close> and \<open>Openrouter\<close> (\<open>providers/\<close>), \<open>Session_Assembly\<close>
    (\<open>index.ts\<close>), \<open>Relay_Server\<close> (\<open>server.ts\<close>).
  \<^item> Browser side in \<open>apps/web\<close>: \<open>Projector_Store\<close>, \<open>Projector_Socket\<close> and \<open>Audio_Queue\<close> (\<open>app/projector/lib\<close> and the voice page),
    \<open>Relay_Client\<close> (\<open>lib/studio\<close>).
  \<^item> Server side in \<open>apps/web\<close>: \<open>Web_Store\<close> (the tables of \<open>packages/db\<close> that the routes touch, keys, answers, mail), \<open>Web_Limits\<close>
    (limiter and session slots in Redis), \<open>Web_Auth\<close> (accounts), \<open>Billing_Store\<close> (balances, catalog, webhook, checkout), \<open>Web_Sessions\<close>
    (session start, projector links, glossaries, export, health), \<open>Web_App\<close> (all requests over the shared store).

  \<^bold>\<open>What is shown, by group.\<close>

  \<^item> Captions: the stable prefix is the longest on which the window agrees; line breaks keep the words, their order and the fit; the cache
    is least-recently-used; in every state that the engine reaches its invariant holds, final translations stay final, and a screen that
    follows its operations accepts each of them and ends with the same cards, contents included (\<open>Caption_Protocol\<close>). The screen refuses a
    commit of another text than the one shown, a request that quotes anything but what is shown, and speech of anything but final
    translations and committed text; what waits to be spoken is the newest committed sentences.
  \<^item> Money: \<open>planSpend\<close> takes the buckets in order and conserves; the meter's books balance in every interleaving of its methods with the
    answers of the gateway; the hold stays within the funds over sequential calls; a whole session squares its books; inside a session the
    meter takes no other steps (\<open>Session_Money\<close>). On the web side the three computations of a balance agree, and a webhook that is
    delivered again grants nothing.
  \<^item> Sessions: states only move forward and a draining session closes; numbers have no gap and a projector that returns is given what it
    missed (\<open>Session_Wire\<close>) and then holds what one that never left holds (\<open>Projector_Resume\<close>); projectors see the allowlist only; the
    registry is the sessions that have not closed; the token is used once; a session the web application starts is let in by the relay.
  \<^item> Sockets and upstreams: reconnects are bounded or never given up as the code means them, audio is attributed in order, translations
    are cut and every failure is a value; the frames of the studio and the speech of the voice page keep their order.
  \<^item> Accounts: a reset of the password leaves one session; answers do not tell who has an account; nothing happens without a signature
    on the webhook; the store stays sound under all requests.

  Beside them stand lemmas about where the code does not keep what a comment or a document promises; each is evaluated or proved on the
  same definitions and listed in the manifest. The largest: \<open>session/start\<close> puts nothing on hold although the meter counts on it, so that a
  session releases or spends a hold that was never taken (end of the section on whole sessions in \<open>Billing_Session\<close>).

  \<^bold>\<open>Interfaces.\<close> \<open>id_source\<close> (the generator of card ids, law: no repetition; interpreted by the default counter), \<open>meter_gateway\<close> (reserve,
  flush, release; interpreted by the gateway of the code), \<open>session_index\<close> (the three maps of the registry), \<open>actor_core\<close> and
  \<open>actor_part\<close> (what a handler of the actor may do to a part of its state; interpreted for the wire, the life cycle and the money).

  \<^bold>\<open>Conventions.\<close>

  \<^item> Numbers are exact rationals or integers; the code rounds money to four decimals, and so does the model. Times are integers in
    milliseconds or seconds as in the code, and one handler reads the clock once.
  \<^item> An \<open>await\<close> on something outside the process (the gateway of the meter, a handshake, a decode) ends a step: what follows is another step, which
    takes the answer. So the interleavings that the event loop allows are the sequences of steps. Between awaits on the own store a route
    of the web application is one step: its requests are served one at a time, with the flushes of the relay between them.
  \<^item> Libraries are arguments: hashes, signatures, AES-GCM, \<open>jose\<close>, argon2, JSON and e-mail syntax, random values, the decoder and
    the clock of the browser. What a statement needs of them is a hypothesis in it, and its witness gives them a concrete function.
  \<^item> SQL statements and Lua scripts are translated where they stand, over lists of rows and maps with expiry; unique indexes are kept where a
    statement relies on one.
  \<^item> Messages on the wire are values of datatypes; JSON is parsed outside. Strings of the transcript are lists of UTF-16 code units
    (\<open>jstring\<close>), tables of Unicode properties an argument; other strings are 8-bit.
  \<^item> Loops: those over the length of their input are total with a measure (\<open>fit_loop\<close>, \<open>break_loop\<close>, \<open>split_ws\<close>, \<open>strip_tags\<close>,
    \<open>pumpTranslations\<close> and others). \<open>drive\<close>, which lets a method of the meter run to its end against the gateway, has a bound: a tick awaits at
    most a reservation and a flush, \<open>close\<close> a flush and a release, so two are enough, and the statements say that the method has finished.

  \<^bold>\<open>Not modelled.\<close> Pages and React (studio, projector, account, site), the microphone and the audio worklet, legal texts and other wording,
  delivery of mail, middleware and headers, parsing of the environment, infrastructure and scripts; in the relay the wiring of the process
  (signals, HTTP listener) and the schema checks of messages beyond their constructors. Rows that the program never reads are left out.
\<close>

end
